(* ===== verification/Prelude.thy ===== *)
theory Prelude
  imports Main "HOL-Library.Multiset" "HOL-Library.Char_ord" "HOL-Library.List_Lexorder"
begin

text \<open>
  What every component of the sigyn model shares: the representation of Go values
  (byte strings, errors, result pairs, 64-bit integers, maps from strings to strings), the
  buffered channel of the Go language with its non-blocking send, and two interfaces:
  \<open>bounded_fifo\<close>, the contract of such a channel, and \<open>machine\<close>, an invariant kept by the
  steps of a state machine and therefore true in all its reachable states.
\<close>

section \<open>Go values\<close>

text \<open>
  A Go \<open>string\<close> or \<open>[]byte\<close> is a sequence of bytes: a HOL \<open>string\<close>, whose characters are
  8-bit values. An \<open>error\<close> is its message; a nil error is \<open>None\<close>. A pair of results
  \<open>(T, error)\<close> is a sum, \<open>Inl\<close> the error. A function that may panic returns an option next
  to the state it leaves behind, \<open>None\<close> being the panic.
\<close>

type_synonym bytes = string
type_synonym err = string
type_synonym 'a result = "err + 'a"

named_theorems op_defs \<open>definitions of the operations of the components\<close>
named_theorems inv_defs \<open>definitions of the invariants of the components\<close>
named_theorems frame_simps \<open>which parts of a state an operation leaves alone\<close>

section \<open>Maps from strings to strings\<close>

text \<open>
  A Go \<open>map[string]string\<close> is represented by its association list sorted by key, so that two
  maps are equal exactly if their representations are. The runtime iterates over a map in an
  unspecified order; where the order can be observed, the code's model takes it as a
  parameter (a permutation of the list).
\<close>

type_synonym labels = "(string \<times> string) list"

definition wf_labels :: "labels \<Rightarrow> bool" where
  "wf_labels m \<longleftrightarrow> sorted_wrt (<) (map fst m)"

text \<open>\<open>m[k]\<close>: the value of \<open>k\<close>, or the zero value, the empty string.\<close>

definition lget :: "labels \<Rightarrow> string \<Rightarrow> string" where
  "lget m k = (case map_of m k of None \<Rightarrow> '''' | Some v \<Rightarrow> v)"

text \<open>\<open>m[k] = v\<close>\<close>

fun lput :: "string \<Rightarrow> string \<Rightarrow> labels \<Rightarrow> labels" where
  "lput k v [] = [(k, v)]"
| "lput k v ((a, b) # m) =
     (if k < a then (k, v) # (a, b) # m
      else if k = a then (k, v) # m
      else (a, b) # lput k v m)"

text \<open>\<open>delete(m, k)\<close>\<close>

definition ldelete :: "string \<Rightarrow> labels \<Rightarrow> labels" where
  "ldelete k m = filter (\<lambda>p. fst p \<noteq> k) m"

text \<open>
  The loop \<open>for k, v := range q { if m[k] != v { ... } }\<close> that the query engine, the
  exporter, the label index and the tail filter all contain: whether no pair of \<open>q\<close>
  takes the branch.
\<close>

definition all_match :: "labels \<Rightarrow> labels \<Rightarrow> bool" where
  "all_match q m \<longleftrightarrow> (\<forall>(k, v) \<in> set q. lget m k = v)"

section \<open>Buffered channels\<close>

text \<open>A channel: what it holds (oldest first), its capacity, and whether it is closed.\<close>

record 'a chan =
  cbuf :: "'a list"
  ccap :: nat
  cclosed :: bool

definition make_chan :: "nat \<Rightarrow> 'a chan" where
  "make_chan n = \<lparr>cbuf = [], ccap = n, cclosed = False\<rparr>"

datatype sent = Sent | Full | SendPanic

text \<open>
  \<open>select { case ch <- v: ... default: ... }\<close>: the send happens if there is room, the
  default branch is taken if there is none, and a send on a closed channel panics.
  A receiver that is already waiting takes the value out of the channel in its own step.
\<close>

definition try_send :: "'a \<Rightarrow> 'a chan \<Rightarrow> sent \<times> 'a chan" where
  "try_send v ch =
     (if cclosed ch then (SendPanic, ch)
      else if length (cbuf ch) < ccap ch then (Sent, ch\<lparr>cbuf := cbuf ch @ [v]\<rparr>)
      else (Full, ch))"

definition recv :: "'a chan \<Rightarrow> ('a \<times> 'a chan) option" where
  "recv ch = (case cbuf ch of [] \<Rightarrow> None | v # vs \<Rightarrow> Some (v, ch\<lparr>cbuf := vs\<rparr>))"

definition close_chan :: "'a chan \<Rightarrow> 'a chan" where
  "close_chan ch = ch\<lparr>cclosed := True\<rparr>"

definition chan_ok :: "'a chan \<Rightarrow> bool" where
  "chan_ok ch \<longleftrightarrow> length (cbuf ch) \<le> ccap ch"

section \<open>Reachable states\<close>

inductive reach :: "('s \<Rightarrow> bool) \<Rightarrow> ('s \<Rightarrow> 's \<Rightarrow> bool) \<Rightarrow> 's \<Rightarrow> bool" for I R where
  reach_init: "I s \<Longrightarrow> reach I R s"
| reach_step: "reach I R s \<Longrightarrow> R s t \<Longrightarrow> reach I R t"

section \<open>Interfaces\<close>

text \<open>The contract of a bounded first-in first-out queue with a send that never waits.\<close>

locale bounded_fifo =
  fixes items :: "'q \<Rightarrow> 'a list"
    and room :: "'q \<Rightarrow> nat"
    and closed :: "'q \<Rightarrow> bool"
    and send :: "'a \<Rightarrow> 'q \<Rightarrow> sent \<times> 'q"
    and take1 :: "'q \<Rightarrow> ('a \<times> 'q) option"
    and ok :: "'q \<Rightarrow> bool"
  assumes ok_bound: "ok q \<Longrightarrow> length (items q) \<le> room q"
    and send_room: "room (snd (send v q)) = room q"
    and send_closed: "closed q \<Longrightarrow> send v q = (SendPanic, q)"
    and send_full: "\<not> closed q \<Longrightarrow> room q \<le> length (items q) \<Longrightarrow> send v q = (Full, q)"
    and send_sent: "\<not> closed q \<Longrightarrow> length (items q) < room q \<Longrightarrow>
          fst (send v q) = Sent \<and> items (snd (send v q)) = items q @ [v]
          \<and> closed (snd (send v q)) = closed q"
    and send_ok: "ok q \<Longrightarrow> ok (snd (send v q))"
    and take1_None: "take1 q = None \<longleftrightarrow> items q = []"
    and take1_Some: "take1 q = Some (v, q') \<Longrightarrow>
          items q = v # items q' \<and> room q' = room q \<and> closed q' = closed q"
    and take1_ok: "ok q \<Longrightarrow> take1 q = Some (v, q') \<Longrightarrow> ok q'"
begin

lemma send_cases:
  obtains (panic) "closed q" "send v q = (SendPanic, q)"
  | (full) "\<not> closed q" "room q \<le> length (items q)" "send v q = (Full, q)"
  | (sent) q' where "\<not> closed q" "length (items q) < room q" "send v q = (Sent, q')"
      "items q' = items q @ [v]" "room q' = room q" "\<not> closed q'"
proof (cases "closed q")
  case True
  then show ?thesis using panic send_closed by blast
next
  case False
  show ?thesis
  proof (cases "length (items q) < room q")
    case True
    with False send_sent [of q v] send_room [of v q] show ?thesis
      by (intro sent [of "snd (send v q)"]) (auto simp: prod_eq_iff)
  next
    case nr: False
    with \<open>\<not> closed q\<close> show ?thesis using full [OF _ _ send_full] by simp
  qed
qed

lemma send_keeps_closed: "closed (snd (send v q)) = closed q"
  by (cases rule: send_cases [of q v]) auto

lemma send_prefix: "\<exists>zs. items (snd (send v q)) = items q @ zs \<and> set zs \<subseteq> {v}"
  by (cases rule: send_cases [of q v]) auto

end

text \<open>A state machine with an invariant.\<close>

locale machine =
  fixes I :: "'s \<Rightarrow> bool"
    and R :: "'s \<Rightarrow> 's \<Rightarrow> bool"
    and Inv :: "'s \<Rightarrow> bool"
  assumes inv_init: "I s \<Longrightarrow> Inv s"
    and inv_step: "Inv s \<Longrightarrow> R s t \<Longrightarrow> Inv t"
begin

lemma reach_inv: "reach I R s \<Longrightarrow> Inv s"
  by (induction rule: reach.induct) (auto intro: inv_init inv_step)

end

section \<open>Lemmas on maps\<close>

lemma lget_Nil [simp]: "lget [] k = ''''"
  by (simp add: lget_def)

lemma lget_Cons [simp]: "lget ((a, b) # m) k = (if k = a then b else lget m k)"
  by (simp add: lget_def)

lemma wf_labels_Nil [simp]: "wf_labels []"
  by (simp add: wf_labels_def)

lemma wf_labels_Cons [simp]:
  "wf_labels ((a, b) # m) \<longleftrightarrow> (\<forall>k \<in> fst ` set m. a < k) \<and> wf_labels m"
  by (simp add: wf_labels_def)

lemma wf_labels_distinct: "wf_labels m \<Longrightarrow> distinct (map fst m)"
  by (simp add: wf_labels_def strict_sorted_iff)

lemma fst_set_lput [simp]: "fst ` set (lput k v m) = insert k (fst ` set m)"
  by (induction k v m rule: lput.induct) auto

lemma lput_wf [simp, intro]: "wf_labels m \<Longrightarrow> wf_labels (lput k v m)"
  by (induction k v m rule: lput.induct) (auto intro: less_trans)

lemma lget_lput: "lget (lput k v m) j = (if j = k then v else lget m j)"
  by (induction k v m rule: lput.induct) auto

lemma ldelete_wf [simp, intro]: "wf_labels m \<Longrightarrow> wf_labels (ldelete k m)"
  by (induction m) (auto simp: ldelete_def)

lemma lget_ldelete: "lget (ldelete k m) j = (if j = k then '''' else lget m j)"
  by (induction m) (auto simp: ldelete_def)

lemma wf_labels_lget:
  "wf_labels m \<Longrightarrow> (k, v) \<in> set m \<Longrightarrow> lget m k = v"
  using wf_labels_distinct [of m] by (auto simp: lget_def)

lemma all_match_Nil [simp]: "all_match [] m"
  by (simp add: all_match_def)

lemma all_match_self: "wf_labels m \<Longrightarrow> all_match m m"
  by (auto simp: all_match_def wf_labels_lget)

section \<open>Lemmas on channels\<close>

lemma chan_ok_make [simp]: "chan_ok (make_chan n)"
  by (simp add: chan_ok_def make_chan_def)

lemma make_chan_sel [simp]:
  "cbuf (make_chan n) = []" "ccap (make_chan n) = n" "\<not> cclosed (make_chan n)"
  by (simp_all add: make_chan_def)

lemma close_chan_sel [simp]:
  "cbuf (close_chan ch) = cbuf ch" "ccap (close_chan ch) = ccap ch" "cclosed (close_chan ch)"
  by (simp_all add: close_chan_def)

interpretation chan: bounded_fifo cbuf ccap cclosed try_send recv chan_ok
  by unfold_locales (auto simp: chan_ok_def try_send_def recv_def split: list.splits)

section \<open>Lemmas on lists\<close>

lemma takeWhile_append_sep: "c \<notin> set xs \<Longrightarrow> takeWhile (\<lambda>x. x \<noteq> c) (xs @ c # ys) = xs"
  by (induction xs) auto

lemma dropWhile_append_sep: "c \<notin> set xs \<Longrightarrow> dropWhile (\<lambda>x. x \<noteq> c) (xs @ c # ys) = c # ys"
  by (induction xs) auto

lemma sep_append_inj:
  assumes "c \<notin> set xs" "c \<notin> set ys" "xs @ c # us = ys @ c # vs"
  shows "xs = ys \<and> us = vs"
proof -
  have "takeWhile (\<lambda>x. x \<noteq> c) (xs @ c # us) = takeWhile (\<lambda>x. x \<noteq> c) (ys @ c # vs)"
    using assms(3) by simp
  then have "xs = ys"
    unfolding takeWhile_append_sep [OF assms(1)] takeWhile_append_sep [OF assms(2)] .
  then show ?thesis using assms(3) by simp
qed

lemma mset_concat_map_filter_split:
  "mset (filter P xs) + mset (filter (\<lambda>x. \<not> P x) xs) = mset xs"
  by (induction xs) auto

end
