(* ===== verification/GoStrings.thy ===== *)
theory GoStrings
  imports Prelude
begin

text \<open>
  The functions of the Go packages \<open>strings\<close>, \<open>path/filepath\<close>, \<open>strconv\<close> and \<open>fmt\<close> that
  sigyn calls, on byte strings, with the facts about them the components use: decimal
  rendering is injective, splitting and trimming undo joining and padding, and a cleaned
  path of plain components is the path itself.
\<close>

section \<open>Decimal numerals\<close>

definition digit :: "nat \<Rightarrow> char" where
  "digit n = char_of (48 + n)"

fun dec :: "nat \<Rightarrow> string" where
  "dec n = (if n < 10 then [digit n] else dec (n div 10) @ [digit (n mod 10)])"

declare dec.simps [simp del]

text \<open>\<open>%d\<close> of a signed integer\<close>

definition show_int :: "int \<Rightarrow> string" where
  "show_int i = (if i < 0 then CHR ''-'' # dec (nat (- i)) else dec (nat i))"

text \<open>\<open>time.appendInt\<close>: sign, then the absolute value padded with zeros to a width\<close>

definition pad_int :: "nat \<Rightarrow> int \<Rightarrow> string" where
  "pad_int w i =
     (let s = dec (nat \<bar>i\<bar>); p = replicate (w - length s) (CHR ''0'') @ s
      in if i < 0 then CHR ''-'' # p else p)"

definition is_digit :: "char \<Rightarrow> bool" where
  "is_digit c \<longleftrightarrow> 48 \<le> (of_char c :: nat) \<and> (of_char c :: nat) \<le> 57"

definition undec :: "string \<Rightarrow> nat" where
  "undec s = foldl (\<lambda>n c. 10 * n + (of_char c - 48)) 0 s"

section \<open>Package strings\<close>

definition HasPrefix :: "string \<Rightarrow> string \<Rightarrow> bool" where
  "HasPrefix s p \<longleftrightarrow> take (length p) s = p"

definition HasSuffix :: "string \<Rightarrow> string \<Rightarrow> bool" where
  "HasSuffix s x \<longleftrightarrow> length x \<le> length s \<and> drop (length s - length x) s = x"

definition TrimPrefix :: "string \<Rightarrow> string \<Rightarrow> string" where
  "TrimPrefix s p = (if HasPrefix s p then drop (length p) s else s)"

definition TrimSuffix :: "string \<Rightarrow> string \<Rightarrow> string" where
  "TrimSuffix s x = (if HasSuffix s x then take (length s - length x) s else s)"

text \<open>\<open>strings.Split\<close> and \<open>strings.Index\<close> with a separator of one byte\<close>

fun split_on :: "char \<Rightarrow> string \<Rightarrow> string list" where
  "split_on c [] = [[]]"
| "split_on c (x # xs) =
     (if x = c then [] # split_on c xs
      else (case split_on c xs of [] \<Rightarrow> [[x]] | y # ys \<Rightarrow> (x # y) # ys))"

definition str_index :: "string \<Rightarrow> char \<Rightarrow> int" where
  "str_index s c = (if c \<in> set s then int (length (takeWhile (\<lambda>x. x \<noteq> c) s)) else - 1)"

text \<open>\<open>strings.SplitN(s, c, 2)\<close>\<close>

definition split_n2 :: "string \<Rightarrow> char \<Rightarrow> string list" where
  "split_n2 s c =
     (if c \<in> set s
      then [takeWhile (\<lambda>x. x \<noteq> c) s, drop (Suc (length (takeWhile (\<lambda>x. x \<noteq> c) s))) s]
      else [s])"

text \<open>\<open>strings.Join\<close>\<close>

fun str_join :: "string \<Rightarrow> string list \<Rightarrow> string" where
  "str_join sep [] = ''''"
| "str_join sep [x] = x"
| "str_join sep (x # y # ys) = x @ sep @ str_join sep (y # ys)"

text \<open>\<open>strings.Trim(s, cutset)\<close> for a cutset of ASCII bytes\<close>

definition trim_set :: "char list \<Rightarrow> string \<Rightarrow> string" where
  "trim_set cs s = rev (dropWhile (\<lambda>c. c \<in> set cs) (rev (dropWhile (\<lambda>c. c \<in> set cs) s)))"

text \<open>
  \<open>strings.TrimSpace\<close> removes the code points with \<open>unicode.IsSpace\<close> from both ends. In
  UTF-8 these are six ASCII bytes and the encodings of U+0085, U+00A0, U+1680, U+2000 to
  U+200A, U+2028, U+2029, U+202F, U+205F and U+3000.
\<close>

definition space_seqs :: "string list" where
  "space_seqs =
     map (map char_of)
       ([[9], [10], [11], [12], [13], [32], [194, 133], [194, 160], [225, 154, 128]]
        @ map (\<lambda>b. [226, 128, b]) [128, 129, 130, 131, 132, 133, 134, 135, 136, 137, 138,
                                    168, 169, 175]
        @ [[226, 129, 159], [227, 128, 128 :: nat]])"

fun strip_front :: "string list \<Rightarrow> nat \<Rightarrow> string \<Rightarrow> string" where
  "strip_front ps 0 s = s"
| "strip_front ps (Suc n) s =
     (case find (HasPrefix s) ps of None \<Rightarrow> s | Some p \<Rightarrow> strip_front ps n (drop (length p) s))"

definition trim_left_space :: "string \<Rightarrow> string" where
  "trim_left_space s = strip_front space_seqs (length s) s"

definition trim_right_space :: "string \<Rightarrow> string" where
  "trim_right_space s = rev (strip_front (map rev space_seqs) (length s) (rev s))"

definition TrimSpace :: "string \<Rightarrow> string" where
  "TrimSpace s = trim_right_space (trim_left_space s)"

section \<open>Package path/filepath (Unix)\<close>

fun clean_comps :: "bool \<Rightarrow> string list \<Rightarrow> string list \<Rightarrow> string list" where
  "clean_comps rooted st [] = rev st"
| "clean_comps rooted st (c # cs) =
     (if c = '''' \<or> c = ''.'' then clean_comps rooted st cs
      else if c = ''..'' then
        (case st of
           [] \<Rightarrow> if rooted then clean_comps rooted [] cs else clean_comps rooted [''..''] cs
         | s # ss \<Rightarrow> if s = ''..'' then clean_comps rooted (''..'' # st) cs
                     else clean_comps rooted ss cs)
      else clean_comps rooted (c # st) cs)"

definition path_clean :: "string \<Rightarrow> string" where
  "path_clean p =
     (case p of
        [] \<Rightarrow> ''.''
      | x # _ \<Rightarrow>
          let rooted = (x = CHR ''/''); body = str_join ''/'' (clean_comps rooted [] (split_on (CHR ''/'') p))
          in if rooted then CHR ''/'' # body else if body = '''' then ''.'' else body)"

definition path_ext :: "string \<Rightarrow> string" where
  "path_ext p =
     (let tail = takeWhile (\<lambda>x. x \<noteq> CHR ''/'') (rev p)
      in if CHR ''.'' \<in> set tail
         then CHR ''.'' # rev (takeWhile (\<lambda>x. x \<noteq> CHR ''.'') tail) else '''')"

definition path_dir :: "string \<Rightarrow> string" where
  "path_dir p = path_clean (rev (dropWhile (\<lambda>x. x \<noteq> CHR ''/'') (rev p)))"

definition path_base :: "string \<Rightarrow> string" where
  "path_base p =
     (if p = '''' then ''.''
      else let q = dropWhile (\<lambda>x. x = CHR ''/'') (rev p)
           in if q = '''' then ''/'' else rev (takeWhile (\<lambda>x. x \<noteq> CHR ''/'') q))"

section \<open>Decimal numerals: facts\<close>

lemma of_char_digit: "n < 10 \<Longrightarrow> (of_char (digit n) :: nat) = 48 + n"
  by (simp add: digit_def)

lemma is_digit_digit: "n < 10 \<Longrightarrow> is_digit (digit n)"
  by (simp add: is_digit_def of_char_digit)

lemma dec_digits: "c \<in> set (dec n) \<Longrightarrow> is_digit c"
proof (induction n arbitrary: c rule: dec.induct)
  case (1 n)
  then show ?case
    by (subst (asm) (2) dec.simps) (auto split: if_splits intro: is_digit_digit)
qed

lemma dec_not_Nil [simp]: "dec n \<noteq> []"
  by (subst dec.simps) simp

lemma undec_snoc: "undec (s @ [c]) = 10 * undec s + (of_char c - 48)"
  by (simp add: undec_def)

lemma undec_dec [simp]: "undec (dec n) = n"
proof (induction n rule: dec.induct)
  case (1 n)
  show ?case
  proof (cases "n < 10")
    case True
    then show ?thesis by (simp add: dec.simps [of n] undec_def of_char_digit)
  next
    case False
    with 1 show ?thesis by (simp add: dec.simps [of n] undec_snoc of_char_digit)
  qed
qed

lemma undec_zeros: "undec (replicate k (CHR ''0'') @ s) = undec s"
  by (induction k) (simp_all add: undec_def)

lemma dec_inj: "dec m = dec n \<Longrightarrow> m = n"
  by (metis undec_dec)

lemma digit_neq:
  assumes "is_digit c"
  shows "c \<noteq> CHR ''/''" "c \<noteq> CHR ''-''" "c \<noteq> CHR ''.''" "c \<noteq> CHR '',''" "c \<noteq> CHR '' ''"
  using assms by (auto simp: is_digit_def)

lemma show_int_chars: "c \<in> set (show_int i) \<Longrightarrow> is_digit c \<or> c = CHR ''-''"
  by (auto simp: show_int_def split: if_splits dest: dec_digits)

lemma pad_int_chars: "c \<in> set (pad_int w i) \<Longrightarrow> is_digit c \<or> c = CHR ''-''"
  by (auto simp: pad_int_def Let_def is_digit_def split: if_splits dest!: dec_digits)

lemma pad_int_not_Nil [simp]: "pad_int w i \<noteq> []"
  by (simp add: pad_int_def Let_def)

lemma pad_int_length: "w \<le> length (pad_int w i)"
  by (auto simp: pad_int_def Let_def)

lemma pad_int_inj: "pad_int w i = pad_int w j \<Longrightarrow> i = j"
proof -
  assume eq: "pad_int w i = pad_int w j"
  have hd_digit: "hd (pad_int w k) = CHR ''-'' \<longleftrightarrow> k < 0" for k
  proof -
    let ?s = "dec (nat \<bar>k\<bar>)" and ?p = "replicate (w - length (dec (nat \<bar>k\<bar>))) (CHR ''0'')"
    have "hd (?p @ ?s) \<in> set (?p @ ?s)" by (intro hd_in_set) simp
    then have "is_digit (hd (?p @ ?s))" by (auto simp: is_digit_def dest: dec_digits)
    then show ?thesis by (auto simp: pad_int_def Let_def dest: digit_neq)
  qed
  have val: "undec (if k < 0 then tl (pad_int w k) else pad_int w k) = nat \<bar>k\<bar>" for k
    by (simp add: pad_int_def Let_def undec_zeros)
  have sgn: "i < 0 \<longleftrightarrow> j < 0" using hd_digit [of i] hd_digit [of j] eq by simp
  have "nat \<bar>i\<bar> = nat \<bar>j\<bar>" using val [of i] val [of j] eq sgn by (cases "i < 0") auto
  with sgn show ?thesis by linarith
qed

lemma pad_int_small:
  assumes "0 \<le> i" "i < 100" shows "length (pad_int 2 i) = 2"
proof -
  have "length (dec (nat i)) \<le> 2"
    using assms by (auto simp: dec.simps [of "nat i"] dec.simps [of "nat i div 10"])
  with assms show ?thesis by (simp add: pad_int_def Let_def)
qed

section \<open>Package strings: facts\<close>

lemma HasPrefix_iff: "HasPrefix s p \<longleftrightarrow> (\<exists>t. s = p @ t)"
  unfolding HasPrefix_def by (metis append_eq_conv_conj)

lemma HasPrefix_append [simp]: "HasPrefix (p @ s) p"
  by (simp add: HasPrefix_def)

lemma HasSuffix_iff: "HasSuffix s x \<longleftrightarrow> (\<exists>t. s = t @ x)"
proof
  assume "HasSuffix s x"
  then have "s = take (length s - length x) s @ x" by (metis HasSuffix_def append_take_drop_id)
  then show "\<exists>t. s = t @ x" ..
qed (auto simp: HasSuffix_def)

lemma HasSuffix_append [simp]: "HasSuffix (s @ x) x"
  by (simp add: HasSuffix_def)

lemma TrimPrefix_append [simp]: "TrimPrefix (p @ s) p = s"
  by (simp add: TrimPrefix_def)

lemma TrimSuffix_append [simp]: "TrimSuffix (s @ x) x = s"
  by (simp add: TrimSuffix_def)

lemma split_on_not_Nil [simp]: "split_on c s \<noteq> []"
  by (induction s) (auto split: list.splits)

lemma split_on_plain: "c \<notin> set s \<Longrightarrow> split_on c s = [s]"
  by (induction s) auto

lemma split_on_append: "c \<notin> set s \<Longrightarrow> split_on c (s @ c # t) = s # split_on c t"
  by (induction s) auto

lemma str_join_split: "str_join [c] (split_on c s) = s"
  by (induction s) (auto split: list.splits elim: str_join.elims)

lemma set_str_join: "set (str_join sep xs) \<subseteq> set sep \<union> (\<Union>x \<in> set xs. set x)"
  by (induction sep xs rule: str_join.induct) auto

lemma split_on_join:
  "xs \<noteq> [] \<Longrightarrow> \<forall>x \<in> set xs. c \<notin> set x \<Longrightarrow> split_on c (str_join [c] xs) = xs"
  by (induction "[c]" xs rule: str_join.induct) (auto simp: split_on_plain split_on_append)

lemma split_n2_append: "c \<notin> set s \<Longrightarrow> split_n2 (s @ c # t) c = [s, t]"
  by (auto simp: split_n2_def takeWhile_append_sep)

lemma trim_set_plain:
  "s = [] \<or> (hd s \<notin> set cs \<and> last s \<notin> set cs) \<Longrightarrow> trim_set cs s = s"
proof -
  assume "s = [] \<or> (hd s \<notin> set cs \<and> last s \<notin> set cs)"
  then have "dropWhile (\<lambda>c. c \<in> set cs) s = s" "dropWhile (\<lambda>c. c \<in> set cs) (rev s) = rev s"
    by (auto simp: dropWhile_eq_self_iff hd_rev)
  then show ?thesis by (simp add: trim_set_def)
qed

section \<open>Package path/filepath: facts\<close>

lemma clean_comps_plain:
  "\<forall>c \<in> set cs. c \<noteq> '''' \<and> c \<noteq> ''.'' \<and> c \<noteq> ''..'' \<Longrightarrow> clean_comps r st cs = rev st @ cs"
  by (induction cs arbitrary: st) auto

lemma clean_comps_trailing_empty:
  "clean_comps r st (cs @ ['''']) = clean_comps r st cs"
  by (induction r st cs rule: clean_comps.induct) (auto split: list.splits)

lemma str_join_snoc_empty: "cs \<noteq> [] \<Longrightarrow> str_join ''/'' (cs @ ['''']) = str_join ''/'' cs @ ''/''"
  by (induction "''/''" cs rule: str_join.induct) auto

lemma path_dir_plain:
  assumes cs: "cs \<noteq> []" "\<forall>c \<in> set cs. c \<noteq> '''' \<and> c \<noteq> ''.'' \<and> c \<noteq> ''..'' \<and> CHR ''/'' \<notin> set c"
    and f: "CHR ''/'' \<notin> set f"
  shows "path_dir (str_join ''/'' cs @ ''/'' @ f) = str_join ''/'' cs"
proof -
  let ?d = "str_join ''/'' cs"
  have "rev (dropWhile (\<lambda>x. x \<noteq> CHR ''/'') (rev (?d @ ''/'' @ f))) = ?d @ ''/''"
    using f by (simp add: dropWhile_append_sep)
  moreover have split: "split_on (CHR ''/'') (?d @ ''/'') = cs @ ['''']"
    using split_on_join [of "cs @ ['''']" "CHR ''/''"] cs by (simp add: str_join_snoc_empty)
  have "clean_comps r [] (cs @ ['''']) = cs" for r
    using cs(2) clean_comps_plain [of cs r "[]"] by (simp add: clean_comps_trailing_empty)
  moreover obtain x xs where "?d = x # xs" "x \<noteq> CHR ''/''"
  proof -
    obtain a as where "cs = a # as" using cs(1) by (cases cs) auto
    moreover then obtain y ys where "a = y # ys" using cs(2) by (cases a) auto
    ultimately show ?thesis using that cs(2) by (cases as) auto
  qed
  ultimately show ?thesis
    using split by (simp add: path_dir_def path_clean_def)
qed

lemma path_base_append:
  assumes "CHR ''/'' \<notin> set f" "f \<noteq> []"
  shows "path_base (d @ ''/'' @ f) = f"
proof -
  have "dropWhile (\<lambda>x. x = CHR ''/'') (rev f @ CHR ''/'' # rev d) = rev f @ CHR ''/'' # rev d"
    using assms by (cases f rule: rev_cases) auto
  moreover have "takeWhile (\<lambda>x. x \<noteq> CHR ''/'') (rev f @ CHR ''/'' # rev d) = rev f"
    using assms by (intro takeWhile_append_sep) auto
  ultimately show ?thesis by (simp add: path_base_def)
qed

lemma path_ext_append:
  assumes "CHR ''/'' \<notin> set x" "CHR ''.'' \<notin> set x"
  shows "path_ext (s @ ''.'' @ x) = ''.'' @ x"
proof -
  have "CHR ''.'' \<in> set (takeWhile (\<lambda>y. y \<noteq> CHR ''/'') (rev x @ CHR ''.'' # rev s))"
    using assms(1) by (subst takeWhile_append2) auto
  moreover have "takeWhile (\<lambda>y. y \<noteq> CHR ''.'') (takeWhile (\<lambda>y. y \<noteq> CHR ''/'') (rev x @ CHR ''.'' # rev s)) = rev x"
    using assms by (subst takeWhile_append2) (auto intro: takeWhile_append_sep)
  ultimately show ?thesis by (simp add: path_ext_def Let_def)
qed

end
