(* ===== verification/GoTime.thy ===== *)
theory GoTime
  imports GoStrings
begin

text \<open>
  The part of the Go package \<open>time\<close> that sigyn uses. A \<open>time.Time\<close> is its instant, in
  nanoseconds from the Unix epoch: all comparisons of the code are between values without a
  monotonic reading (decoded from JSON or passed through \<open>UTC()\<close>), and all formatting is of
  UTC values. Formatting needs the proleptic Gregorian calendar; the facts are that the
  calendar date determines the day, so the day directories of the object store never
  collide, and what the day loop of the index and the exporter enumerates.
\<close>

type_synonym time = int
type_synonym duration = int

section \<open>Instants\<close>

definition second :: duration where
  "second = 1000000000"

definition millisecond :: duration where
  "millisecond = 1000000"

text \<open>\<open>24 * time.Hour\<close>\<close>

definition day_ns :: duration where
  "day_ns = 86400 * second"

text \<open>The zero \<open>time.Time\<close>, 1 January of the year 1, 00:00 UTC\<close>

definition zero_time :: time where
  "zero_time = - 62135596800 * second"

definition IsZero :: "time \<Rightarrow> bool" where
  "IsZero t \<longleftrightarrow> t = zero_time"

definition Before :: "time \<Rightarrow> time \<Rightarrow> bool" where
  "Before t u \<longleftrightarrow> t < u"

definition After :: "time \<Rightarrow> time \<Rightarrow> bool" where
  "After t u \<longleftrightarrow> t > u"

definition Unix :: "time \<Rightarrow> int" where
  "Unix t = t div second"

text \<open>\<open>t.UTC().Truncate(24 * time.Hour)\<close>: a multiple of the day since the zero time\<close>

definition TruncateDay :: "time \<Rightarrow> time" where
  "TruncateDay t = t - (t - zero_time) mod day_ns"

section \<open>The calendar\<close>

datatype civil = Civil (cyear: int) (cmonth: int) (cday: int)

definition leap_year :: "int \<Rightarrow> bool" where
  "leap_year y \<longleftrightarrow> y mod 4 = 0 \<and> (y mod 100 \<noteq> 0 \<or> y mod 400 = 0)"

definition month_lens :: "bool \<Rightarrow> int list" where
  "month_lens leap = [31, if leap then 29 else 28, 31, 30, 31, 30, 31, 31, 30, 31, 30, 31]"

fun month_day :: "int \<Rightarrow> int list \<Rightarrow> int \<Rightarrow> int \<times> int" where
  "month_day m [] d = (m, d + 1)"
| "month_day m (l # ls) d = (if d < l then (m, d + 1) else month_day (m + 1) ls (d - l))"

text \<open>
  Years and day of the year of a day number (0 is 1 January of the year 1): whole cycles of
  400, 100, 4 and 1 years are split off; the last of four short cycles has the extra day.
\<close>

definition year_yday :: "int \<Rightarrow> int \<times> int" where
  "year_yday d =
     (let a = d div 146097; r = d mod 146097;
          b = min 3 (r div 36524); r = r - 36524 * b;
          c = r div 1461; r = r mod 1461;
          e = min 3 (r div 365); r = r - 365 * e
      in (1 + 400 * a + 100 * b + 4 * c + e, r))"

definition civil_of_day :: "int \<Rightarrow> civil" where
  "civil_of_day d =
     (let (y, yd) = year_yday d; (m, md) = month_day 1 (month_lens (leap_year y)) yd
      in Civil y m md)"

text \<open>The inverse: the day number of a calendar date.\<close>

fun days_before :: "int list \<Rightarrow> int \<Rightarrow> int" where
  "days_before [] m = 0"
| "days_before (l # ls) m = (if m \<le> 1 then 0 else l + days_before ls (m - 1))"

definition day_of_civil :: "civil \<Rightarrow> int" where
  "day_of_civil c =
     (let y = cyear c - 1
      in 365 * y + y div 4 - y div 100 + y div 400
         + days_before (month_lens (leap_year (cyear c))) (cmonth c) + cday c - 1)"

section \<open>Formatting\<close>

definition day_number :: "time \<Rightarrow> int" where
  "day_number t = (t - zero_time) div day_ns"

text \<open>\<open>t.UTC().Format("2006" + sep + "01" + sep + "02")\<close>\<close>

definition format_date :: "string \<Rightarrow> time \<Rightarrow> string" where
  "format_date sep t =
     (let c = civil_of_day (day_number t)
      in pad_int 4 (cyear c) @ sep @ pad_int 2 (cmonth c) @ sep @ pad_int 2 (cday c))"

section \<open>The day loop\<close>

text \<open>
  \<open>for d := start; !d.After(end); d = d.Add(24 * time.Hour) { out = append(out, mk(d)) }\<close>
\<close>

function day_loop :: "(time \<Rightarrow> 'a) \<Rightarrow> time \<Rightarrow> time \<Rightarrow> 'a list" where
  "day_loop mk d e = (if After d e then [] else mk d # day_loop mk (d + day_ns) e)"
  by pat_completeness auto
termination
  by (relation "measure (\<lambda>(mk, d, e). nat (e - d + 1))") (auto simp: After_def day_ns_def second_def)

declare day_loop.simps [simp del]

text \<open>
  The interface between the day loop and a component that names one directory per day:
  different days get different names. It is all that is needed for the directories of a
  range to be pairwise different and to be exactly those of the days of the range.
\<close>

locale day_dirs =
  fixes mk :: "time \<Rightarrow> 'a"
  assumes mk_inj: "mk s = mk t \<Longrightarrow> day_number s = day_number t"
    and mk_day: "day_number s = day_number t \<Longrightarrow> mk s = mk t"

section \<open>Facts about the calendar\<close>

text \<open>The last of four short cycles of \<open>k\<close> days takes the one extra day.\<close>

lemma short_cycle:
  fixes r k :: int
  assumes "0 \<le> r" "r < 4 * k + 1" "0 < k"
  defines "q \<equiv> min 3 (r div k)"
  shows "0 \<le> q" "q \<le> 3" "0 \<le> r - k * q" "r - k * q < (if q = 3 then k + 1 else k)"
proof -
  have r: "r = k * (r div k) + r mod k" "0 \<le> r mod k" "r mod k < k" "0 \<le> r div k"
    using assms by (simp_all add: pos_imp_zdiv_nonneg_iff)
  show "0 \<le> q" "q \<le> 3" using r(4) by (simp_all add: q_def)
  have "0 \<le> r - k * q \<and> r - k * q < (if q = 3 then k + 1 else k)"
  proof (cases "r div k \<le> 3")
    case True
    then have "r - k * q = r mod k" by (simp add: q_def minus_mult_div_eq_mod)
    then show ?thesis using r(2,3) by simp
  next
    case False
    then have "k * 4 \<le> k * (r div k)" using assms(3) by (intro mult_left_mono) auto
    then have "r = 4 * k" using r assms(2) by linarith
    moreover have "q = 3" using False by (simp add: q_def)
    ultimately show ?thesis using assms(3) by simp
  qed
  then show "0 \<le> r - k * q" "r - k * q < (if q = 3 then k + 1 else k)" by auto
qed

lemma year_yday_cycles:
  assumes "year_yday d = (y, yd)"
  obtains a b c e where "y - 1 = 400 * a + 100 * b + 4 * c + e"
    "d = 146097 * a + 36524 * b + 1461 * c + 365 * e + yd"
    "0 \<le> b" "b \<le> 3" "0 \<le> c" "c \<le> 24" "0 \<le> e" "e \<le> 3" "0 \<le> yd"
    "yd < (if e = 3 then 366 else 365)" "yd = 365 \<and> c = 24 \<longrightarrow> b = 3"
proof -
  define a r1 where "a = d div 146097" and "r1 = d mod 146097"
  define b where "b = min 3 (r1 div 36524)"
  define r2 where "r2 = r1 - 36524 * b"
  define c r3 where "c = r2 div 1461" and "r3 = r2 mod 1461"
  define e where "e = min 3 (r3 div 365)"
  have "year_yday d = (1 + 400 * a + 100 * b + 4 * c + e, r3 - 365 * e)"
    unfolding year_yday_def Let_def a_def r1_def b_def r2_def c_def r3_def e_def by (rule refl)
  then have eq: "y = 1 + 400 * a + 100 * b + 4 * c + e" "yd = r3 - 365 * e"
    using assms by simp_all
  have r1: "0 \<le> r1" "r1 < 4 * 36524 + 1" "d = 146097 * a + r1" by (simp_all add: a_def r1_def)
  note b = short_cycle [OF r1(1,2), folded b_def, folded r2_def, simplified]
  have r2: "r2 < 36525" using b(4) by (simp split: if_splits)
  have r3: "0 \<le> r3" "r3 < 4 * 365 + 1" "r2 = 1461 * c + r3" by (simp_all add: c_def r3_def)
  note e = short_cycle [OF r3(1,2), folded e_def, folded eq(2), simplified]
  have c: "0 \<le> c" using b(3) unfolding c_def by (simp add: pos_imp_zdiv_nonneg_iff)
  have "c \<le> 24" using r2 r3 by linarith
  moreover have "b = 3" if "yd = 365" "c = 24"
  proof -
    have "e = 3" using that(1) e(4) by (simp split: if_splits)
    then have "r2 = 36524" using that eq(2) r3(3) by simp
    then show ?thesis using b(4) by (simp split: if_splits)
  qed
  moreover have "y - 1 = 400 * a + 100 * b + 4 * c + e" using eq(1) by simp
  moreover have "d = 146097 * a + 36524 * b + 1461 * c + 365 * e + yd"
    using eq(2) r1(3) r3(3) r2_def by linarith
  moreover have "yd < (if e = 3 then 366 else 365)" using e(4) by (simp split: if_splits)
  ultimately show ?thesis using that [of a b c e] b(1,2) c e(1-3) by blast
qed

lemma year_yday_bounds:
  assumes "year_yday d = (y, yd)"
  shows "0 \<le> yd \<and> yd < (if leap_year y then 366 else 365)"
proof -
  obtain a b c e where y: "y - 1 = 400 * a + 100 * b + 4 * c + e"
    and c: "0 \<le> c" "c \<le> 24" and yd: "0 \<le> yd" "yd < (if e = 3 then 366 else 365)"
    and last: "yd = 365 \<and> c = 24 \<longrightarrow> b = 3"
    by (rule year_yday_cycles [OF assms])
  have leap: "leap_year y" if "yd = 365"
  proof -
    have e: "e = 3" using that yd(2) by (simp split: if_splits)
    have "y mod 100 \<noteq> 0 \<or> y mod 400 = 0"
    proof (cases "c = 24")
      case True
      then have "y = 400 * (a + 1)" using y e last that by simp
      then show ?thesis by simp
    next
      case False
      have "y mod 100 = 4 * c + 4"
        by (rule int_mod_pos_eq [of _ _ "4 * a + b"]) (use y e c False in simp_all)
      then show ?thesis using c(1) by simp
    qed
    moreover have "y mod 4 = 0"
      by (rule int_mod_pos_eq [of _ _ "100 * a + 25 * b + c + 1"]) (use y e in simp_all)
    ultimately show ?thesis by (simp add: leap_year_def)
  qed
  show ?thesis
  proof (cases "yd = 365")
    case True
    then show ?thesis using leap by simp
  next
    case False
    then have "yd < 365" using yd(2) by (simp split: if_splits)
    then show ?thesis using yd(1) by simp
  qed
qed

lemma year_yday_inverse:
  assumes "year_yday d = (y, yd)"
  shows "365 * (y - 1) + (y - 1) div 4 - (y - 1) div 100 + (y - 1) div 400 + yd = d"
proof -
  obtain a b c e where y: "y - 1 = 400 * a + 100 * b + 4 * c + e"
    and d: "d = 146097 * a + 36524 * b + 1461 * c + 365 * e + yd"
    and bounds: "0 \<le> b" "b \<le> 3" "0 \<le> c" "c \<le> 24" "0 \<le> e" "e \<le> 3"
    by (rule year_yday_cycles [OF assms])
  have q4: "(y - 1) div 4 = 100 * a + 25 * b + c"
    by (rule int_div_pos_eq [of _ _ _ e]) (use y bounds in simp_all)
  have q100: "(y - 1) div 100 = 4 * a + b"
    by (rule int_div_pos_eq [of _ _ _ "4 * c + e"]) (use y bounds in simp_all)
  have q400: "(y - 1) div 400 = a"
    by (rule int_div_pos_eq [of _ _ _ "100 * b + 4 * c + e"]) (use y bounds in simp_all)
  show ?thesis unfolding q4 q100 q400 using y d by simp
qed

lemma month_day_inverse:
  "0 \<le> d \<Longrightarrow> d < sum_list ls \<Longrightarrow> month_day m ls d = (m', md) \<Longrightarrow>
   m \<le> m' \<and> m' < m + int (length ls) \<and> 1 \<le> md \<and> days_before ls (m' - m + 1) + md - 1 = d"
proof (induction m ls d arbitrary: m' md rule: month_day.induct)
  case (2 m l ls d)
  show ?case
  proof (cases "d < l")
    case True
    then show ?thesis using 2 by auto
  next
    case False
    then have "m + 1 \<le> m' \<and> m' < m + 1 + int (length ls) \<and> 1 \<le> md
        \<and> days_before ls (m' - (m + 1) + 1) + md - 1 = d - l"
      using 2 by auto
    then show ?thesis by (auto simp: algebra_simps)
  qed
qed auto

lemma month_lens_sum: "sum_list (month_lens l) = (if l then 366 else 365)"
  by (simp add: month_lens_def)

lemma month_lens_le: "x \<in> set (month_lens l) \<Longrightarrow> x \<le> 31"
  by (auto simp: month_lens_def split: if_splits)

lemma month_day_le:
  "\<forall>l \<in> set ls. l \<le> 31 \<Longrightarrow> d < sum_list ls \<Longrightarrow> month_day m ls d = (m', md) \<Longrightarrow> md \<le> 31"
  by (induction m ls d rule: month_day.induct) (auto split: if_splits)

lemma civil_of_day_fields:
  assumes "civil_of_day d = Civil y m md"
  shows "1 \<le> m \<and> m \<le> 12 \<and> 1 \<le> md \<and> md \<le> 31"
proof -
  obtain yd where yd: "year_yday d = (y, yd)" "month_day 1 (month_lens (leap_year y)) yd = (m, md)"
    using assms by (auto simp: civil_of_day_def Let_def split: prod.splits)
  have bounds: "0 \<le> yd" "yd < sum_list (month_lens (leap_year y))"
    using year_yday_bounds [OF yd(1)] by (auto simp: month_lens_sum)
  show ?thesis
    using month_day_inverse [OF bounds yd(2)] month_day_le [OF _ bounds(2) yd(2)] month_lens_le
    by (auto simp: month_lens_def)
qed

lemma day_of_civil_of_day: "day_of_civil (civil_of_day d) = d"
proof -
  obtain y yd where yd: "year_yday d = (y, yd)" by fastforce
  obtain m md where md: "month_day 1 (month_lens (leap_year y)) yd = (m, md)" by fastforce
  have "0 \<le> yd" "yd < sum_list (month_lens (leap_year y))"
    using year_yday_bounds [OF yd] by (auto simp: month_lens_sum)
  then have "days_before (month_lens (leap_year y)) m + md - 1 = yd"
    using month_day_inverse [OF _ _ md] by simp
  moreover have "civil_of_day d = Civil y m md" using yd md by (simp add: civil_of_day_def)
  ultimately show ?thesis
    using year_yday_inverse [OF yd] by (simp add: day_of_civil_def Let_def)
qed

lemma civil_of_day_inj: "civil_of_day d = civil_of_day e \<Longrightarrow> d = e"
  by (metis day_of_civil_of_day)

section \<open>Facts about formatting\<close>

lemma pad_int_no_slash [simp]: "CHR ''/'' \<notin> set (pad_int w i)"
  using pad_int_chars digit_neq(1) by fastforce

lemma show_int_no_slash [simp]: "CHR ''/'' \<notin> set (show_int i)"
  using show_int_chars digit_neq(1) by fastforce

lemma show_int_no_dot [simp]: "CHR ''.'' \<notin> set (show_int i)"
  using show_int_chars digit_neq(3) by fastforce

lemma show_int_not_Nil [simp]: "show_int i \<noteq> []"
  by (simp add: show_int_def)

lemma format_date_parts:
  obtains y m d where "format_date ''/'' t = pad_int 4 y @ ''/'' @ pad_int 2 m @ ''/'' @ pad_int 2 d"
    "civil_of_day (day_number t) = Civil y m d" "1 \<le> m" "m \<le> 12" "1 \<le> d" "d \<le> 31"
proof -
  obtain y m d where c: "civil_of_day (day_number t) = Civil y m d" by (rule civil.exhaust)
  show ?thesis using that [OF _ c] civil_of_day_fields [OF c] c by (simp add: format_date_def)
qed

lemma format_date_inj:
  assumes "format_date ''/'' s = format_date ''/'' t"
  shows "day_number s = day_number t"
proof -
  obtain y m d where s: "format_date ''/'' s = pad_int 4 y @ ''/'' @ pad_int 2 m @ ''/'' @ pad_int 2 d"
    "civil_of_day (day_number s) = Civil y m d" by (rule format_date_parts)
  obtain y' m' d' where t: "format_date ''/'' t = pad_int 4 y' @ ''/'' @ pad_int 2 m' @ ''/'' @ pad_int 2 d'"
    "civil_of_day (day_number t) = Civil y' m' d'" by (rule format_date_parts)
  have eq: "pad_int 4 y @ CHR ''/'' # pad_int 2 m @ CHR ''/'' # pad_int 2 d
          = pad_int 4 y' @ CHR ''/'' # pad_int 2 m' @ CHR ''/'' # pad_int 2 d'"
    using assms s(1) t(1) by simp
  have 1: "pad_int 4 y = pad_int 4 y'"
    "pad_int 2 m @ CHR ''/'' # pad_int 2 d = pad_int 2 m' @ CHR ''/'' # pad_int 2 d'"
    using sep_append_inj [OF _ _ eq] by auto
  have 2: "pad_int 2 m = pad_int 2 m'" "pad_int 2 d = pad_int 2 d'"
    using sep_append_inj [OF _ _ 1(2)] by auto
  have "Civil y m d = Civil y' m' d'" using 1(1) 2 pad_int_inj by blast
  with s(2) t(2) have "civil_of_day (day_number s) = civil_of_day (day_number t)" by simp
  then show ?thesis by (rule civil_of_day_inj)
qed

lemma format_date_day: "day_number s = day_number t \<Longrightarrow> format_date sep s = format_date sep t"
  by (simp add: format_date_def)

section \<open>Facts about the day loop\<close>

lemma day_ns_pos [simp]: "0 < day_ns" "day_ns \<noteq> 0" "\<not> day_ns \<le> 0"
  by (simp_all add: day_ns_def second_def)

lemma TruncateDay_eq: "TruncateDay t = zero_time + day_number t * day_ns"
  using div_mult_mod_eq [of "t - zero_time" day_ns]
  unfolding TruncateDay_def day_number_def by linarith

lemma day_number_start [simp]: "day_number (zero_time + k * day_ns) = k"
  by (simp add: day_number_def)

lemma day_number_TruncateDay [simp]: "day_number (TruncateDay t) = day_number t"
  by (simp add: TruncateDay_eq)

lemma day_number_mono: "s \<le> t \<Longrightarrow> day_number s \<le> day_number t"
  by (simp add: day_number_def zdiv_mono1)

lemma TruncateDay_le: "TruncateDay t \<le> t" "t < TruncateDay t + day_ns"
  by (simp_all add: TruncateDay_def)

lemma day_loop_eq:
  "day_loop mk (zero_time + i * day_ns) (zero_time + j * day_ns) =
   map (\<lambda>k. mk (zero_time + k * day_ns)) [i..j]"
proof (induction "nat (j - i + 1)" arbitrary: i)
  case 0
  then have "\<not> i \<le> j" by simp
  then show ?case
    by (simp add: day_loop.simps [of mk "zero_time + i * day_ns"] After_def mult_less_cancel_right)
next
  case (Suc n)
  then have "i \<le> j" by simp
  have nxt: "zero_time + i * day_ns + day_ns = zero_time + (i + 1) * day_ns"
    by (simp add: algebra_simps)
  have "day_loop mk (zero_time + (i + 1) * day_ns) (zero_time + j * day_ns) =
      map (\<lambda>k. mk (zero_time + k * day_ns)) [i + 1..j]"
    using Suc by simp
  moreover have "\<not> After (zero_time + i * day_ns) (zero_time + j * day_ns)"
    using \<open>i \<le> j\<close> by (simp add: After_def mult_right_mono not_less less_imp_le)
  ultimately show ?case
    unfolding day_loop.simps [of mk "zero_time + i * day_ns"] nxt
    using upto_rec1 [OF \<open>i \<le> j\<close>] by simp
qed

lemma day_loop_range:
  "day_loop mk (TruncateDay s) (TruncateDay e) =
   map (\<lambda>k. mk (zero_time + k * day_ns)) [day_number s..day_number e]"
  by (simp add: TruncateDay_eq day_loop_eq)

context day_dirs
begin

lemma mk_canonical: "mk (zero_time + day_number t * day_ns) = mk t"
  by (rule mk_day) simp

lemma mem_day_loop:
  "mk t \<in> set (day_loop mk (TruncateDay s) (TruncateDay e)) \<longleftrightarrow>
   day_number s \<le> day_number t \<and> day_number t \<le> day_number e"
proof -
  have "mk t = mk (zero_time + k * day_ns) \<longleftrightarrow> k = day_number t" for k
    using mk_inj [of t "zero_time + k * day_ns"] mk_canonical [of t] by auto
  then have "mk t \<in> (\<lambda>k. mk (zero_time + k * day_ns)) ` K \<longleftrightarrow> day_number t \<in> K" for K
    by (simp add: image_iff)
  then show ?thesis by (simp add: day_loop_range)
qed

lemma covers_range:
  "s \<le> t \<Longrightarrow> t \<le> e \<Longrightarrow> mk t \<in> set (day_loop mk (TruncateDay s) (TruncateDay e))"
  by (simp add: mem_day_loop day_number_mono)

lemma distinct_day_loop: "distinct (day_loop mk (TruncateDay s) (TruncateDay e))"
proof -
  have "inj (\<lambda>k. mk (zero_time + k * day_ns))"
    by (rule injI) (use mk_inj in fastforce)
  then show ?thesis
    by (auto simp: day_loop_range distinct_map intro: inj_on_subset)
qed

lemma length_day_loop:
  "length (day_loop mk (TruncateDay s) (TruncateDay e)) = nat (day_number e - day_number s + 1)"
  by (simp add: day_loop_range)

end

interpretation plain_dirs: day_dirs "format_date ''/''"
  by unfold_locales (auto dest: format_date_inj format_date_day)

end
