(* ===== verification/Domain.thy ===== *)
theory Domain
  imports GoTime
begin

text \<open>
  The data model: log entries, chunks and export jobs (\<open>internal/domain\<close>), the index record
  of a chunk (\<open>internal/index\<close>), and the Prometheus metrics (\<open>internal/metrics\<close>) that the
  components count in.
\<close>

section \<open>internal/domain\<close>

text \<open>
  The timestamp of an entry and the range of a job are instants with the offset of their zone in
  minutes, which matters only for the text they are written as.
\<close>

record LogEntry =
  Timestamp :: time
  TZ :: int
  Service :: string
  Level :: string
  Message :: string
  Labels :: labels

type_synonym CompressionAlgo = string

definition CompressionGzip :: CompressionAlgo where
  "CompressionGzip = ''gzip''"

definition CompressionSnappy :: CompressionAlgo where
  "CompressionSnappy = ''snappy''"

definition FileExtension :: "CompressionAlgo \<Rightarrow> string" where
  "FileExtension a = (if a = CompressionSnappy then ''.sz'' else ''.gz'')"

record Chunk =
  ck_Key :: string
  ck_Service :: string
  ck_MinTime :: time
  ck_MaxTime :: time
  ck_EntryCount :: int
  ck_SizeBytes :: int
  ck_Compression :: CompressionAlgo
  ck_LabelSets :: "labels list"

datatype ExportJobStatus =
  ExportStatusPending | ExportStatusRunning | ExportStatusCompleted | ExportStatusFailed

record ExportJob =
  job_ID :: string
  job_Status :: ExportJobStatus
  job_StartTime :: time
  job_StartTZ :: int
  job_EndTime :: time
  job_EndTZ :: int
  job_Service :: string
  job_LabelFilters :: labels
  job_ChunksTotal :: int
  job_ChunksProcessed :: int
  job_LogsExported :: int
  job_ErrorCount :: int
  job_Error :: string
  job_CreatedAt :: time
  job_CompletedAt :: time

section \<open>The index record of internal/index\<close>

record ChunkIndex =
  ix_ChunkKey :: string
  ix_Service :: string
  ix_MinTime :: time
  ix_MaxTime :: time
  ix_LabelSets :: "labels list"
  ix_EntryCount :: int
  ix_SizeBytes :: int
  ix_Compression :: string

section \<open>internal/metrics\<close>

text \<open>
  A counter or a gauge is a number, a vector of counters a function of its label values; of
  a histogram only the number of observations is kept.
\<close>

record metrics =
  EntriesReceived :: int
  EntriesDropped :: "string \<Rightarrow> int"
  EntriesBuffered :: int
  ChunksFlushed :: int
  FlushErrors :: int
  FlushDuration :: int
  BytesFlushed :: int
  WALEntries :: int
  WALRecovered :: int
  S3Operations :: "string \<Rightarrow> string \<Rightarrow> int"
  S3Duration :: "string \<Rightarrow> int"
  ExportJobsTotal :: "string \<Rightarrow> int"
  ExportLogsIndexed :: int
  BulkIndexDuration :: int
  HTTPRequests :: "string \<Rightarrow> string \<Rightarrow> string \<Rightarrow> int"
  HTTPDuration :: "string \<Rightarrow> string \<Rightarrow> int"

definition metrics0 :: metrics where
  "metrics0 =
     \<lparr>EntriesReceived = 0, EntriesDropped = (\<lambda>_. 0), EntriesBuffered = 0, ChunksFlushed = 0,
      FlushErrors = 0, FlushDuration = 0, BytesFlushed = 0, WALEntries = 0, WALRecovered = 0,
      S3Operations = (\<lambda>_ _. 0), S3Duration = (\<lambda>_. 0), ExportJobsTotal = (\<lambda>_. 0),
      ExportLogsIndexed = 0, BulkIndexDuration = 0, HTTPRequests = (\<lambda>_ _ _. 0),
      HTTPDuration = (\<lambda>_ _. 0)\<rparr>"

definition inc1 :: "('a \<Rightarrow> int) \<Rightarrow> 'a \<Rightarrow> 'a \<Rightarrow> int" where
  "inc1 f a = f(a := f a + 1)"

definition inc2 :: "('a \<Rightarrow> 'b \<Rightarrow> int) \<Rightarrow> 'a \<Rightarrow> 'b \<Rightarrow> 'a \<Rightarrow> 'b \<Rightarrow> int" where
  "inc2 f a b = f(a := inc1 (f a) b)"

definition inc3 :: "('a \<Rightarrow> 'b \<Rightarrow> 'c \<Rightarrow> int) \<Rightarrow> 'a \<Rightarrow> 'b \<Rightarrow> 'c \<Rightarrow> 'a \<Rightarrow> 'b \<Rightarrow> 'c \<Rightarrow> int" where
  "inc3 f a b c = f(a := inc2 (f a) b c)"

section \<open>The outside world\<close>

text \<open>
  What lies outside the process (the object store, the network, the clock, the contexts) is
  a state of a type of its own, \<open>'s\<close>; the world is that state with the process's metrics.
\<close>

record 's world =
  ext :: 's
  mx :: metrics

section \<open>Entries of a service, and time bounds\<close>

definition tmin :: "LogEntry list \<Rightarrow> time" where
  "tmin es = Min (Timestamp ` set es)"

definition tmax :: "LogEntry list \<Rightarrow> time" where
  "tmax es = Max (Timestamp ` set es)"

lemma FileExtension_cases: "FileExtension a = ''.sz'' \<or> FileExtension a = ''.gz''"
  by (simp add: FileExtension_def)

lemma tmin_le: "e \<in> set es \<Longrightarrow> tmin es \<le> Timestamp e"
  by (simp add: tmin_def)

lemma tmax_ge: "e \<in> set es \<Longrightarrow> Timestamp e \<le> tmax es"
  by (simp add: tmax_def)

end
