(* ===== verification/KeyLayout.thy ===== *)
theory KeyLayout
  imports Domain
begin

text \<open>
  How objects are named: the key of a chunk (\<open>chunkKey\<close> of the buffer), the key of its index
  record (\<open>indexKey\<close>), and the directories that the index and the exporter list for a time
  range (\<open>dayPrefixes\<close>, \<open>timePrefixes\<close>). Both keys carry the day of the earliest entry. The
  facts say which listing finds which object: exactly the listings whose range contains
  that day, provided the service has no slash in its name.
\<close>

section \<open>Definitions\<close>

definition chunkKey :: "string \<Rightarrow> time \<Rightarrow> string \<Rightarrow> CompressionAlgo \<Rightarrow> string" where
  "chunkKey service t uid algo =
     service @ ''/'' @ format_date ''/'' t @ ''/'' @ show_int (Unix t) @ ''-'' @ uid @ FileExtension algo"

definition indexKey :: "string \<Rightarrow> string \<Rightarrow> string" where
  "indexKey pfx ck =
     (let parts = split_n2 ck (CHR ''/'');
          service = hd parts;
          rest = (if length parts = 2 then parts ! 1 else ck);
          base = TrimSuffix rest (path_ext rest)
      in pfx @ path_dir base @ ''/'' @ service @ ''-'' @ path_base base @ ''.json'')"

definition dayPrefixes :: "string \<Rightarrow> time \<Rightarrow> time \<Rightarrow> string list" where
  "dayPrefixes pfx start end =
     day_loop (\<lambda>d. pfx @ format_date ''/'' d @ ''/'') (TruncateDay start) (TruncateDay end)"

definition timePrefixes :: "string \<Rightarrow> time \<Rightarrow> time \<Rightarrow> string list" where
  "timePrefixes service start end =
     day_loop (\<lambda>d. let prefix = format_date ''/'' d @ ''/''
                   in if service \<noteq> '''' then service @ ''/'' @ prefix else prefix)
       (TruncateDay start) (TruncateDay end)"

text \<open>Whether some listing of a range returns the object.\<close>

definition listed :: "string \<Rightarrow> string list \<Rightarrow> bool" where
  "listed k ps \<longleftrightarrow> (\<exists>p \<in> set ps. HasPrefix k p)"

section \<open>Lemmas\<close>

lemma no_slash_Cons: "CHR ''/'' \<notin> set s \<Longrightarrow> CHR ''/'' \<notin> set t \<Longrightarrow>
  s @ ''/'' @ u = t @ ''/'' @ v \<Longrightarrow> s = t \<and> u = v"
  using sep_append_inj [of "CHR ''/''" s t u v] by simp

lemma date_prefix_inj:
  assumes "format_date ''/'' s @ ''/'' @ u = format_date ''/'' t @ ''/'' @ v"
  shows "day_number s = day_number t \<and> u = v"
proof -
  obtain y m d where s: "format_date ''/'' s = pad_int 4 y @ ''/'' @ pad_int 2 m @ ''/'' @ pad_int 2 d"
    by (rule format_date_parts)
  obtain y' m' d' where t: "format_date ''/'' t = pad_int 4 y' @ ''/'' @ pad_int 2 m' @ ''/'' @ pad_int 2 d'"
    by (rule format_date_parts)
  have eq: "pad_int 4 y @ ''/'' @ pad_int 2 m @ ''/'' @ pad_int 2 d @ ''/'' @ u
    = pad_int 4 y' @ ''/'' @ pad_int 2 m' @ ''/'' @ pad_int 2 d' @ ''/'' @ v"
    using assms s t by simp
  note 1 = no_slash_Cons [OF pad_int_no_slash pad_int_no_slash eq]
  note 2 = no_slash_Cons [OF pad_int_no_slash pad_int_no_slash conjunct2 [OF 1]]
  note 3 = no_slash_Cons [OF pad_int_no_slash pad_int_no_slash conjunct2 [OF 2]]
  have "format_date ''/'' s = format_date ''/'' t" using s t 1 2 3 by simp
  then show ?thesis using 3 format_date_inj by blast
qed

lemma HasPrefix_date:
  "HasPrefix (p @ format_date ''/'' t @ ''/'' @ u) (p @ format_date ''/'' d @ ''/'')
     \<longleftrightarrow> day_number d = day_number t"
proof
  assume "HasPrefix (p @ format_date ''/'' t @ ''/'' @ u) (p @ format_date ''/'' d @ ''/'')"
  then obtain v where "format_date ''/'' t @ ''/'' @ u = format_date ''/'' d @ ''/'' @ v"
    by (auto simp: HasPrefix_iff)
  then show "day_number d = day_number t" using date_prefix_inj by metis
next
  assume "day_number d = day_number t"
  then have "format_date ''/'' d = format_date ''/'' t" by (rule format_date_day)
  then show "HasPrefix (p @ format_date ''/'' t @ ''/'' @ u) (p @ format_date ''/'' d @ ''/'')"
    by (auto simp: HasPrefix_iff)
qed

text \<open>The directories of the index and of the exporter are two instances of the day loop.\<close>

interpretation index_dirs: day_dirs "\<lambda>d. pfx @ format_date ''/'' d @ ''/''" for pfx
  by unfold_locales (auto dest: date_prefix_inj [where u = "[]" and v = "[]", simplified] format_date_day)

interpretation export_dirs: day_dirs
  "\<lambda>d. let prefix = format_date ''/'' d @ ''/''
       in if service \<noteq> '''' then service @ ''/'' @ prefix else prefix" for service
  by unfold_locales
    (auto simp: Let_def dest: date_prefix_inj [where u = "[]" and v = "[]", simplified] format_date_day
      split: if_splits)

lemma listed_day_loop:
  assumes "\<And>d. HasPrefix k (mk d) \<longleftrightarrow> day_number d = n"
  shows "listed k (day_loop mk (TruncateDay s) (TruncateDay e)) \<longleftrightarrow>
    day_number s \<le> n \<and> n \<le> day_number e"
  using assms by (auto simp: listed_def day_loop_range)

lemma date_comps:
  obtains cs where "format_date ''/'' t = str_join ''/'' cs" "cs \<noteq> []"
    "\<forall>c \<in> set cs. c \<noteq> '''' \<and> c \<noteq> ''.'' \<and> c \<noteq> ''..'' \<and> CHR ''/'' \<notin> set c"
proof -
  obtain y m d where t: "format_date ''/'' t = pad_int 4 y @ ''/'' @ pad_int 2 m @ ''/'' @ pad_int 2 d"
    by (rule format_date_parts)
  have dot: "CHR ''.'' \<notin> set (pad_int w i)" for w i
    using pad_int_chars digit_neq(3) by fastforce
  have "pad_int w i \<noteq> ''.'' \<and> pad_int w i \<noteq> ''..''" for w i using dot [of w i] by auto
  then show ?thesis using that [of "[pad_int 4 y, pad_int 2 m, pad_int 2 d]"] t by simp
qed

lemma indexKey_chunkKey:
  assumes svc: "CHR ''/'' \<notin> set service" and uid: "CHR ''/'' \<notin> set uid"
  shows "indexKey pfx (chunkKey service t uid algo) =
    pfx @ format_date ''/'' t @ ''/'' @ service @ ''-'' @ show_int (Unix t) @ ''-'' @ uid @ ''.json''"
proof -
  let ?file = "show_int (Unix t) @ ''-'' @ uid"
  let ?rest = "format_date ''/'' t @ ''/'' @ ?file @ FileExtension algo"
  obtain x where x: "FileExtension algo = ''.'' @ x" "CHR ''/'' \<notin> set x" "CHR ''.'' \<notin> set x"
    using FileExtension_cases [of algo] by auto
  have "split_n2 (chunkKey service t uid algo) (CHR ''/'') = [service, ?rest]"
    using split_n2_append [OF svc] by (simp add: chunkKey_def)
  moreover have "path_ext ?rest = FileExtension algo"
    using path_ext_append [OF x(2,3), of "format_date ''/'' t @ ''/'' @ ?file"] x(1) by simp
  moreover have "TrimSuffix ?rest (FileExtension algo) = format_date ''/'' t @ ''/'' @ ?file"
    using TrimSuffix_append [of "format_date ''/'' t @ ''/'' @ ?file"] by simp
  moreover have "CHR ''/'' \<notin> set ?file" using uid by simp
  then have "path_dir (format_date ''/'' t @ ''/'' @ ?file) = format_date ''/'' t"
    "path_base (format_date ''/'' t @ ''/'' @ ?file) = ?file"
    using path_dir_plain [of _ ?file] path_base_append [of ?file]
    by (metis date_comps, simp)
  ultimately show ?thesis by (simp add: indexKey_def Let_def)
qed

lemma listed_index:
  assumes "CHR ''/'' \<notin> set service" "CHR ''/'' \<notin> set uid"
  shows "listed (indexKey pfx (chunkKey service t uid algo)) (dayPrefixes pfx start end)
    \<longleftrightarrow> day_number start \<le> day_number t \<and> day_number t \<le> day_number end"
  unfolding dayPrefixes_def
  by (rule listed_day_loop)
    (use HasPrefix_date [of pfx t "service @ ''-'' @ show_int (Unix t) @ ''-'' @ uid @ ''.json''"]
     in \<open>simp add: indexKey_chunkKey [OF assms]\<close>)

lemma listed_chunk:
  assumes "service \<noteq> ''''"
  shows "listed (base @ chunkKey service t uid algo) (map ((@) base) (timePrefixes service start end))
    \<longleftrightarrow> day_number start \<le> day_number t \<and> day_number t \<le> day_number end"
proof -
  have "HasPrefix (base @ chunkKey service t uid algo) (base @ service @ ''/'' @ format_date ''/'' d @ ''/'')
      \<longleftrightarrow> day_number d = day_number t" for d
    using HasPrefix_date [of "base @ service @ ''/''" t "show_int (Unix t) @ ''-'' @ uid @ FileExtension algo" d]
    by (simp add: chunkKey_def)
  then show ?thesis
    using assms by (auto simp: listed_def timePrefixes_def day_loop_range)
qed

lemma two_digits_slash:
  assumes "pad_int 2 m @ ''/'' @ u = pad_int 4 y @ ''/'' @ v" "1 \<le> m" "m \<le> 12"
  shows False
proof -
  have "pad_int 2 m = pad_int 4 y"
    using no_slash_Cons [OF pad_int_no_slash pad_int_no_slash assms(1)] by simp
  then show False using pad_int_length [of 4 y] pad_int_small [of m] assms(2,3) by simp
qed

section \<open>Properties\<close>

text \<open>
  C28. The index record of a chunk is found by the listings of a query exactly when the day
  of the chunk's earliest entry lies within the days of the query range, for every service
  without a slash in its name. (So a chunk that goes on past midnight is missed by a query
  that starts after midnight.)
\<close>

theorem index_listed_iff:
  assumes "CHR ''/'' \<notin> set service" "CHR ''/'' \<notin> set uid"
  shows "listed (indexKey pfx (chunkKey service t uid algo)) (dayPrefixes pfx start end)
    \<longleftrightarrow> day_number start \<le> day_number t \<and> day_number t \<le> day_number end"
  by (rule listed_index [OF assms])

text \<open>
  C30. A query lists one directory for each day from the first to the last day of its range,
  no directory twice, and the directory of every instant of the range is among them.
\<close>

theorem dayPrefixes_days:
  "length (dayPrefixes pfx start end) = nat (day_number end - day_number start + 1)
   \<and> distinct (dayPrefixes pfx start end)
   \<and> (\<forall>t. start \<le> t \<and> t \<le> end \<longrightarrow> pfx @ format_date ''/'' t @ ''/'' \<in> set (dayPrefixes pfx start end))"
  unfolding dayPrefixes_def
  using index_dirs.length_day_loop index_dirs.distinct_day_loop index_dirs.covers_range
  by simp

text \<open>
  With a service, the exporter lists a chunk of that service exactly when the day of the
  chunk's earliest entry lies within the days of the job's range, and no prefix is listed
  twice.
\<close>

theorem export_listed_iff:
  assumes "service \<noteq> ''''"
  shows "(listed (base @ chunkKey service t uid algo) (map ((@) base) (timePrefixes service start end))
      \<longleftrightarrow> day_number start \<le> day_number t \<and> day_number t \<le> day_number end)
    \<and> distinct (timePrefixes service start end)"
proof
  show "distinct (timePrefixes service start end)"
    unfolding timePrefixes_def by (rule export_dirs.distinct_day_loop)
qed (rule listed_chunk [OF assms])

text \<open>
  C29. An export job without a service lists no chunk at all: the prefixes then start with the
  year, while every chunk key starts with its service (no service name contains a slash).
\<close>

theorem export_without_service_lists_nothing:
  assumes "CHR ''/'' \<notin> set service"
  shows "\<not> listed (base @ chunkKey service t uid algo) (map ((@) base) (timePrefixes '''' start end))"
proof
  assume "listed (base @ chunkKey service t uid algo) (map ((@) base) (timePrefixes '''' start end))"
  then obtain d v where eq: "chunkKey service t uid algo = format_date ''/'' d @ ''/'' @ v"
    by (auto simp: listed_def timePrefixes_def day_loop_range HasPrefix_iff)
  obtain y m dd where d: "format_date ''/'' d = pad_int 4 y @ ''/'' @ pad_int 2 m @ ''/'' @ pad_int 2 dd"
    "1 \<le> m" "m \<le> 12" by (rule format_date_parts)
  obtain y' m' d' where t: "format_date ''/'' t = pad_int 4 y' @ ''/'' @ pad_int 2 m' @ ''/'' @ pad_int 2 d'"
    by (rule format_date_parts)
  have "service @ ''/'' @ pad_int 4 y' @ ''/'' @ pad_int 2 m' @ ''/'' @ pad_int 2 d' @ ''/''
      @ show_int (Unix t) @ ''-'' @ uid @ FileExtension algo
    = pad_int 4 y @ ''/'' @ pad_int 2 m @ ''/'' @ pad_int 2 dd @ ''/'' @ v"
    using eq d(1) t by (simp add: chunkKey_def)
  from no_slash_Cons [OF assms pad_int_no_slash this]
  have "pad_int 2 m @ ''/'' @ pad_int 2 dd @ ''/'' @ v = pad_int 4 y' @ ''/'' @ pad_int 2 m' @ ''/''
      @ pad_int 2 d' @ ''/'' @ show_int (Unix t) @ ''-'' @ uid @ FileExtension algo"
    by simp
  then show False using d(2,3) by (rule two_digits_slash)
qed

section \<open>Witnesses\<close>

theorem index_listed_iff_witness:
  "listed (indexKey ''index/'' (chunkKey ''myapp'' (1774274400 * second) ''abc'' CompressionGzip))
     (dayPrefixes ''index/'' (1774224000 * second) (1774310399 * second))
   \<and> \<not> listed (indexKey ''index/'' (chunkKey ''myapp'' (1774223999 * second) ''abc'' CompressionGzip))
     (dayPrefixes ''index/'' (1774224000 * second) (1774310399 * second))"
  using index_listed_iff [of "''myapp''" "''abc''" "''index/''" _ CompressionGzip "1774224000 * second" "1774310399 * second"]
  by (simp add: day_number_def zero_time_def day_ns_def second_def)

theorem dayPrefixes_days_witness:
  "length (dayPrefixes ''index/'' (1774180800 * second) (1774332000 * second)) = 3
   \<and> ''index/2026/03/23/'' \<in> set (dayPrefixes ''index/'' (1774180800 * second) (1774332000 * second))"
proof -
  have f: "format_date ''/'' (1774274400 * second) = ''2026/03/23''" by code_simp
  have n: "nat (day_number (1774332000 * second) - day_number (1774180800 * second) + 1) = 3"
    by (simp add: day_number_def zero_time_def day_ns_def second_def)
  from dayPrefixes_days [of "''index/''" "1774180800 * second" "1774332000 * second"]
  have l: "length (dayPrefixes ''index/'' (1774180800 * second) (1774332000 * second)) = 3"
    and c: "\<And>t. 1774180800 * second \<le> t \<and> t \<le> 1774332000 * second \<Longrightarrow>
      ''index/'' @ format_date ''/'' t @ ''/'' \<in> set (dayPrefixes ''index/'' (1774180800 * second) (1774332000 * second))"
    using n by auto
  from c [of "1774274400 * second"] l f show ?thesis by (simp add: second_def)
qed

theorem export_listed_iff_witness:
  "listed (''raw_logs/'' @ chunkKey ''myapp'' (1774274400 * second) ''abc'' CompressionSnappy)
     (map ((@) ''raw_logs/'') (timePrefixes ''myapp'' (1774224000 * second) (1774310399 * second)))"
  using export_listed_iff [of "''myapp''" "''raw_logs/''" "1774274400 * second" "''abc''" CompressionSnappy
      "1774224000 * second" "1774310399 * second"]
  by (simp add: day_number_def zero_time_def day_ns_def second_def)

theorem export_without_service_lists_nothing_witness:
  "\<not> listed (''raw_logs/'' @ chunkKey ''myapp'' (1774274400 * second) ''abc'' CompressionGzip)
     (map ((@) ''raw_logs/'') (timePrefixes '''' (1774224000 * second) (1774310399 * second)))"
  by (rule export_without_service_lists_nothing) simp

end
