(* ===== verification/GoUtf8.thy ===== *)
theory GoUtf8
  imports GoStrings
begin

text \<open>
  UTF-8 as the Go package \<open>unicode/utf8\<close> decodes and encodes it: a string is a sequence of bytes,
  and a prefix is either one well-formed encoding or a byte that stands for an error. The facts:
  a well-formed encoding is recognised whatever follows it, and ASCII strings are well-formed.
\<close>

definition byte_val :: "char \<Rightarrow> nat" where
  "byte_val c = of_char c"

fun tail_in :: "(nat \<times> nat) list \<Rightarrow> string \<Rightarrow> bool" where
  "tail_in [] s = True"
| "tail_in ((lo, hi) # rs) (c # s) = (lo \<le> byte_val c \<and> byte_val c \<le> hi \<and> tail_in rs s)"
| "tail_in (r # rs) [] = False"

text \<open>The ranges of the bytes after a first byte, if it can begin an encoding.\<close>

definition tail_ranges :: "nat \<Rightarrow> (nat \<times> nat) list option" where
  "tail_ranges n =
     (if n < 0x80 then Some []
      else if 0xC2 \<le> n \<and> n \<le> 0xDF then Some [(0x80, 0xBF)]
      else if n = 0xE0 then Some [(0xA0, 0xBF), (0x80, 0xBF)]
      else if n = 0xED then Some [(0x80, 0x9F), (0x80, 0xBF)]
      else if 0xE1 \<le> n \<and> n \<le> 0xEF then Some [(0x80, 0xBF), (0x80, 0xBF)]
      else if n = 0xF0 then Some [(0x90, 0xBF), (0x80, 0xBF), (0x80, 0xBF)]
      else if 0xF1 \<le> n \<and> n \<le> 0xF3 then Some [(0x80, 0xBF), (0x80, 0xBF), (0x80, 0xBF)]
      else if n = 0xF4 then Some [(0x80, 0x8F), (0x80, 0xBF), (0x80, 0xBF)]
      else None)"

text \<open>The length of the encoding at the front, 0 if there is none (\<open>RuneError\<close> of size 1).\<close>

definition rune_len :: "string \<Rightarrow> nat" where
  "rune_len s =
     (case s of
        [] \<Rightarrow> 0
      | c # r \<Rightarrow> (case tail_ranges (byte_val c) of
                    None \<Rightarrow> 0
                  | Some rs \<Rightarrow> if tail_in rs r then Suc (length rs) else 0))"

text \<open>\<open>utf8.AppendRune\<close>\<close>

definition encode_rune :: "nat \<Rightarrow> string" where
  "encode_rune n =
     map char_of
       (if n < 0x80 then [n]
        else if n < 0x800 then [0xC0 + n div 64, 0x80 + n mod 64]
        else if n < 0x10000 then [0xE0 + n div 4096, 0x80 + n div 64 mod 64, 0x80 + n mod 64]
        else [0xF0 + n div 262144, 0x80 + n div 4096 mod 64, 0x80 + n div 64 mod 64, 0x80 + n mod 64])"

text \<open>U+FFFD, which replaces what cannot be decoded\<close>

definition replacement :: string where
  "replacement = encode_rune 0xFFFD"

section \<open>Well-formed strings\<close>

definition is_rune :: "string \<Rightarrow> bool" where
  "is_rune r \<longleftrightarrow> r \<noteq> [] \<and> rune_len r = length r"

inductive utf8_ok :: "string \<Rightarrow> bool" where
  utf8_Nil: "utf8_ok []"
| utf8_rune: "is_rune r \<Longrightarrow> utf8_ok s \<Longrightarrow> utf8_ok (r @ s)"

lemma tail_in_append: "tail_in rs s \<Longrightarrow> tail_in rs (s @ t)"
  by (induction rs s rule: tail_in.induct) auto

lemma tail_in_length: "tail_in rs s \<Longrightarrow> length rs \<le> length s"
  by (induction rs s rule: tail_in.induct) auto

lemma rune_len_le: "rune_len s \<le> length s"
  by (auto simp: rune_len_def dest: tail_in_length split: list.splits option.splits)

lemma rune_len_append: "is_rune r \<Longrightarrow> rune_len (r @ s) = length r"
  by (auto simp: is_rune_def rune_len_def tail_in_append split: list.splits option.splits if_splits)

lemma rune_len_ascii: "byte_val c < 128 \<Longrightarrow> rune_len (c # s) = 1"
  by (simp add: rune_len_def tail_ranges_def)

lemma is_rune_ascii: "byte_val c < 128 \<Longrightarrow> is_rune [c]"
  by (simp add: is_rune_def rune_len_ascii)

text \<open>An encoding of more than one byte has none below 128.\<close>

lemma tail_ranges_high: "tail_ranges n = Some rs \<Longrightarrow> rs \<noteq> [] \<Longrightarrow> 128 \<le> n \<and> (\<forall>(lo, hi) \<in> set rs. 128 \<le> lo)"
  by (auto simp: tail_ranges_def split: if_splits)

lemma tail_in_high: "tail_in rs s \<Longrightarrow> \<forall>(lo, hi) \<in> set rs. 128 \<le> lo \<Longrightarrow> c \<in> set (take (length rs) s) \<Longrightarrow> 128 \<le> byte_val c"
  by (induction rs s rule: tail_in.induct) auto

lemma is_rune_cases:
  assumes "is_rune r"
  obtains (ascii) c where "r = [c]" "byte_val c < 128"
  | (multi) c s where "r = c # s" "s \<noteq> []" "\<forall>x \<in> set r. 128 \<le> byte_val x"
proof -
  obtain c s rs where r: "r = c # s" "tail_ranges (byte_val c) = Some rs" "tail_in rs s" "length rs = length s"
    using assms by (auto simp: is_rune_def rune_len_def split: list.splits option.splits if_splits)
  show ?thesis
  proof (cases "rs = []")
    case True
    then have "byte_val c < 128" using r(2) by (auto simp: tail_ranges_def split: if_splits)
    then show ?thesis using ascii r True by simp
  next
    case False
    have h: "128 \<le> byte_val c" "\<forall>(lo, hi) \<in> set rs. 128 \<le> lo" using tail_ranges_high [OF r(2) False] by auto
    have "128 \<le> byte_val x" if "x \<in> set s" for x
      using tail_in_high [OF r(3) h(2), of x] that r(4) by simp
    moreover have "s \<noteq> []" using False r(4) by auto
    ultimately show ?thesis using multi [OF r(1)] h(1) r(1) by simp
  qed
qed

lemma utf8_ok_append: "utf8_ok s \<Longrightarrow> utf8_ok t \<Longrightarrow> utf8_ok (s @ t)"
  by (induction rule: utf8_ok.induct) (auto intro: utf8_ok.intros)

lemma utf8_ok_ascii: "\<forall>c \<in> set s. byte_val c < 128 \<Longrightarrow> utf8_ok s"
proof (induction s)
  case (Cons c s)
  then show ?case using utf8_rune [of "[c]" s] is_rune_ascii by simp
qed (rule utf8_Nil)

end
