(* ===== verification/ChunkCodec.thy ===== *)
theory ChunkCodec
  imports Domain GoUtf8
begin

text \<open>
  The encoding of batches of entries: newline-delimited JSON, compressed with gzip or
  snappy, read back line by line with a \<open>bufio.Scanner\<close> of bounded token size. The JSON
  codec, the compressors and Unicode case folding are library code: they are the
  fields of the record \<open>env\<close>, a parameter of every operation that uses them, and what the
  code relies on is the contract \<open>codec\<close>. A reference environment shows that the contract
  can be met.
\<close>

section \<open>The environment\<close>

text \<open>
  \<open>gzip.Writer\<close> can fail at the write or at the close; reading a gzip stream can fail at
  the header or after some bytes.
\<close>

datatype gzip_result = GzWriteErr err | GzCloseErr err | GzOk bytes

record env =
  toLower :: "string \<Rightarrow> string"
  equalFold :: "string \<Rightarrow> string \<Rightarrow> bool"
  marshalEntry :: "LogEntry \<Rightarrow> bytes result"
  unmarshalEntry :: "bytes \<Rightarrow> LogEntry option"
  marshalIndex :: "ChunkIndex \<Rightarrow> bytes result"
  unmarshalIndex :: "bytes \<Rightarrow> ChunkIndex option"
  gzipEncode :: "bytes \<Rightarrow> gzip_result"
  gzipDecode :: "bytes \<Rightarrow> (bytes \<times> err option) result"
  snappyEncode :: "bytes \<Rightarrow> bytes"
  snappyDecode :: "bytes \<Rightarrow> bytes result"

section \<open>Lines\<close>

abbreviation newline :: char where
  "newline \<equiv> CHR 0x0A"

abbreviation carriage_return :: char where
  "carriage_return \<equiv> CHR 0x0D"

text \<open>\<open>make([]byte, 1024*1024)\<close> and the maximal token size of every scanner of sigyn\<close>

definition max_token :: nat where
  "max_token = 1024 * 1024"

definition drop_cr :: "string \<Rightarrow> string" where
  "drop_cr l = (if l \<noteq> [] \<and> last l = carriage_return then butlast l else l)"

text \<open>The lines of a byte stream; a last line without newline counts, an empty one does not.\<close>

definition cut_lines :: "bytes \<Rightarrow> string list" where
  "cut_lines s = (let ls = split_on newline s in if last ls = [] then butlast ls else ls)"

text \<open>
  \<open>bufio.Scanner\<close> with \<open>ScanLines\<close> over a stream that ends with the read error \<open>rerr\<close>
  (\<open>None\<close> for end of file): the tokens, and what \<open>Err()\<close> returns afterwards. A line that does
  not fit the buffer stops the scan.
\<close>

fun scan_lines :: "nat \<Rightarrow> string list \<Rightarrow> err option \<Rightarrow> string list \<times> err option" where
  "scan_lines lim [] rerr = ([], rerr)"
| "scan_lines lim (l # ls) rerr =
     (if length l < lim
      then (let (ts, e) = scan_lines lim ls rerr in (drop_cr l # ts, e))
      else ([], Some ''bufio.Scanner: token too long''))"

definition scanner :: "bytes \<Rightarrow> err option \<Rightarrow> string list \<times> err option" where
  "scanner s rerr = scan_lines max_token (cut_lines s) rerr"

text \<open>
  The loop \<open>for scanner.Scan() { if json.Unmarshal(...) != nil { continue } ... }\<close>: lines
  that do not parse are skipped.
\<close>

definition decode_lines :: "env \<Rightarrow> string list \<Rightarrow> LogEntry list" where
  "decode_lines E ts = List.map_filter (unmarshalEntry E) ts"

section \<open>Chunks\<close>

text \<open>\<open>json.Encoder.Encode\<close> of each entry in turn, into a buffer (\<open>compressEntries\<close>).\<close>

fun encode_entries :: "env \<Rightarrow> LogEntry list \<Rightarrow> bytes \<Rightarrow> bytes result" where
  "encode_entries E [] raw = Inr raw"
| "encode_entries E (e # es) raw =
     (case marshalEntry E e of
        Inl er \<Rightarrow> Inl (''json encode: '' @ er)
      | Inr s \<Rightarrow> encode_entries E es (raw @ s @ [newline]))"

definition compressEntries :: "env \<Rightarrow> LogEntry list \<Rightarrow> CompressionAlgo \<Rightarrow> bytes result" where
  "compressEntries E es algo =
     (case encode_entries E es [] of
        Inl er \<Rightarrow> Inl er
      | Inr raw \<Rightarrow>
          if algo = CompressionSnappy then Inr (snappyEncode E raw)
          else (case gzipEncode E raw of
                  GzWriteErr er \<Rightarrow> Inl (''gzip write: '' @ er)
                | GzCloseErr er \<Rightarrow> Inl (''gzip close: '' @ er)
                | GzOk z \<Rightarrow> Inr z))"

text \<open>
  \<open>decompress\<close>, the same function in the packages \<open>query\<close> and \<open>exporter\<close>: the reader, as the
  bytes it delivers and the error it ends with.
\<close>

definition decompress :: "env \<Rightarrow> bytes \<Rightarrow> string \<Rightarrow> (bytes \<times> err option) result" where
  "decompress E data key =
     (if HasSuffix key ''.sz''
      then (case snappyDecode E data of Inl er \<Rightarrow> Inl er | Inr d \<Rightarrow> Inr (d, None))
      else gzipDecode E data)"

section \<open>The contract of the environment\<close>

definition ascii :: "string \<Rightarrow> bool" where
  "ascii s \<longleftrightarrow> (\<forall>c \<in> set s. (of_char c :: nat) < 128)"

text \<open>Instants that RFC 3339 can write in any time zone: years 1 to 9998.\<close>

definition time_safe :: "time \<Rightarrow> bool" where
  "time_safe t \<longleftrightarrow> zero_time \<le> t \<and> t < 253370764800 * second"

definition labels_safe :: "labels \<Rightarrow> bool" where
  "labels_safe m \<longleftrightarrow> wf_labels m \<and> (\<forall>(k, v) \<in> set m. utf8_ok k \<and> utf8_ok v)"

definition entry_safe :: "LogEntry \<Rightarrow> bool" where
  "entry_safe e \<longleftrightarrow> time_safe (Timestamp e) \<and> \<bar>TZ e\<bar> < 24 * 60 \<and> utf8_ok (Service e) \<and> utf8_ok (Level e)
     \<and> utf8_ok (Message e) \<and> labels_safe (Labels e)"

definition index_safe :: "ChunkIndex \<Rightarrow> bool" where
  "index_safe i \<longleftrightarrow> utf8_ok (ix_ChunkKey i) \<and> utf8_ok (ix_Service i)
     \<and> time_safe (ix_MinTime i) \<and> time_safe (ix_MaxTime i)
     \<and> (\<forall>m \<in> set (ix_LabelSets i). labels_safe m) \<and> utf8_ok (ix_Compression i)
     \<and> \<bar>ix_EntryCount i\<bar> < 2 ^ 63 \<and> \<bar>ix_SizeBytes i\<bar> < 2 ^ 63"

text \<open>
  What the code relies on: gzip and snappy undo themselves and yield slices whose length is an
  \<open>int\<close>, case folding relates equal strings, and (\<open>codec\<close>) JSON of well-formed UTF-8 decodes to
  itself and has no line breaks inside. \<open>JsonCodec\<close> proves the latter of a model of
  \<open>encoding/json\<close>.
\<close>

locale compressors =
  fixes E :: env
  assumes gzip_roundtrip: "\<exists>z. gzipEncode E x = GzOk z \<and> gzipDecode E z = Inr (x, None)"
    and snappy_roundtrip: "length x < 2 ^ 31 \<Longrightarrow> snappyDecode E (snappyEncode E x) = Inr x"
    and compressed_int: "length x < 2 ^ 31 \<Longrightarrow> gzipEncode E x = GzOk z \<or> z = snappyEncode E x \<Longrightarrow> length z < 2 ^ 63"
    and fold_refl: "equalFold E a a"
    and lower_ascii: "ascii s \<Longrightarrow> \<forall>c \<in> set s. \<not> (65 \<le> (of_char c :: nat) \<and> of_char c \<le> (90 :: nat)) \<Longrightarrow>
      toLower E s = s"

locale codec = compressors +
  assumes entry_roundtrip: "entry_safe e \<Longrightarrow>
      \<exists>s. marshalEntry E e = Inr s \<and> newline \<notin> set s \<and> carriage_return \<notin> set s
          \<and> unmarshalEntry E s = Some e"
    and index_roundtrip: "index_safe i \<Longrightarrow>
      \<exists>s. marshalIndex E i = Inr s \<and> unmarshalIndex E s = Some i"

section \<open>Lemmas on scanning\<close>

lemma cut_lines_Nil [simp]: "cut_lines [] = []"
  by (simp add: cut_lines_def)

lemma cut_lines_line:
  "newline \<notin> set l \<Longrightarrow> cut_lines (l @ newline # s) = l # cut_lines s"
  by (simp add: cut_lines_def split_on_append Let_def)

lemma cut_lines_last: "newline \<notin> set l \<Longrightarrow> l \<noteq> [] \<Longrightarrow> cut_lines l = [l]"
  by (simp add: cut_lines_def split_on_plain)

lemma cut_lines_concat:
  "\<forall>l \<in> set ls. newline \<notin> set l \<Longrightarrow>
   cut_lines (concat (map (\<lambda>l. l @ [newline]) ls) @ s) = ls @ cut_lines s"
  by (induction ls) (auto simp: cut_lines_line)

lemma ascii_utf8: "ascii s \<Longrightarrow> utf8_ok s"
  by (rule utf8_ok_ascii) (simp add: ascii_def byte_val_def)

lemma drop_cr_plain: "carriage_return \<notin> set l \<Longrightarrow> drop_cr l = l"
  by (cases l rule: rev_cases) (auto simp: drop_cr_def)

lemma scan_lines_ok:
  "\<forall>l \<in> set ls. length l < lim \<and> carriage_return \<notin> set l \<Longrightarrow> scan_lines lim ls r = (ls, r)"
  by (induction ls) (auto simp: drop_cr_plain)

lemma scan_lines_append_ok:
  "\<forall>l \<in> set ls. length l < lim \<and> carriage_return \<notin> set l \<Longrightarrow>
   scan_lines lim (ls @ ms) r = (ls @ fst (scan_lines lim ms r), snd (scan_lines lim ms r))"
  by (induction ls) (auto simp: drop_cr_plain split: prod.splits)

lemma scan_lines_long:
  "l \<in> set ls \<Longrightarrow> lim \<le> length l \<Longrightarrow> snd (scan_lines lim ls r) \<noteq> None"
  by (induction ls) (auto split: prod.splits)

lemma scan_lines_no_error:
  "snd (scan_lines lim ls None) = None \<longleftrightarrow> (\<forall>l \<in> set ls. length l < lim)"
  by (induction ls) (auto split: prod.splits)

lemma scan_lines_length: "length (fst (scan_lines lim ls r)) \<le> length ls"
  by (induction ls) (auto split: prod.splits)

section \<open>Lemmas on chunks\<close>

lemma encode_entries_eq:
  "encode_entries E es raw =
     (case encode_entries E es [] of Inl er \<Rightarrow> Inl er | Inr s \<Rightarrow> Inr (raw @ s))"
proof (induction es arbitrary: raw)
  case (Cons e es)
  show ?case
  proof (cases "marshalEntry E e")
    case (Inr s)
    then show ?thesis
      using Cons.IH [of "raw @ s @ [newline]"] Cons.IH [of "s @ [newline]"]
      by (simp split: sum.splits)
  qed simp
qed simp

text \<open>The JSON text of an entry that the contract guarantees.\<close>

definition jline :: "env \<Rightarrow> LogEntry \<Rightarrow> string" where
  "jline E e = (case marshalEntry E e of Inr s \<Rightarrow> s | Inl _ \<Rightarrow> [])"

definition ndjson :: "env \<Rightarrow> LogEntry list \<Rightarrow> bytes" where
  "ndjson E es = concat (map (\<lambda>e. jline E e @ [newline]) es)"

definition fits :: "env \<Rightarrow> LogEntry \<Rightarrow> bool" where
  "fits E e \<longleftrightarrow> entry_safe e \<and> length (jline E e) < max_token"

lemma ndjson_append [simp]: "ndjson E (es @ fs) = ndjson E es @ ndjson E fs"
  by (simp add: ndjson_def)

lemma ndjson_Nil [simp]: "ndjson E [] = []"
  by (simp add: ndjson_def)

lemma ndjson_Cons: "ndjson E (e # es) = jline E e @ newline # ndjson E es"
  by (simp add: ndjson_def)

lemma length_ndjson: "length es \<le> length (ndjson E es)"
  by (induction es) (auto simp: ndjson_Cons)

text \<open>The entries that a chunk object yields, if it can be read to its end.\<close>

definition chunk_entries :: "env \<Rightarrow> string \<Rightarrow> bytes \<Rightarrow> LogEntry list option" where
  "chunk_entries E key data =
     (case decompress E data key of
        Inl _ \<Rightarrow> None
      | Inr (d, rerr) \<Rightarrow>
          (case scanner d rerr of
             (ts, None) \<Rightarrow> Some (decode_lines E ts)
           | (_, Some _) \<Rightarrow> None))"

lemma chunk_entriesI:
  "decompress E data key = Inr (d, rerr) \<Longrightarrow> scanner d rerr = (ts, None) \<Longrightarrow>
   chunk_entries E key data = Some (decode_lines E ts)"
  by (simp add: chunk_entries_def)

lemma compressEntries_error:
  "encode_entries E es [] = Inl er \<Longrightarrow> compressEntries E es algo = Inl er"
  by (simp add: compressEntries_def)

context codec
begin

lemma jline:
  assumes "entry_safe e"
  shows "marshalEntry E e = Inr (jline E e)" "newline \<notin> set (jline E e)"
    "carriage_return \<notin> set (jline E e)" "unmarshalEntry E (jline E e) = Some e"
  using entry_roundtrip [OF assms] by (auto simp: jline_def)

lemma encode_entries_ok:
  "\<forall>e \<in> set es. entry_safe e \<Longrightarrow> encode_entries E es raw = Inr (raw @ ndjson E es)"
  by (induction es arbitrary: raw) (auto simp: jline ndjson_Cons)

lemma decode_lines_ok:
  "\<forall>e \<in> set es. entry_safe e \<Longrightarrow> decode_lines E (map (jline E) es) = es"
  by (induction es) (auto simp: decode_lines_def List.map_filter_simps jline)

lemma ndjson_lines:
  "\<forall>e \<in> set es. entry_safe e \<Longrightarrow> cut_lines (ndjson E es @ s) = map (jline E) es @ cut_lines s"
  using cut_lines_concat [of "map (jline E) es" s] by (simp add: ndjson_def jline comp_def)

lemma scanner_ndjson:
  assumes "\<forall>e \<in> set es. fits E e"
  shows "scanner (ndjson E es) r = (map (jline E) es, r)"
proof -
  have safe: "\<forall>e \<in> set es. entry_safe e" using assms by (simp add: fits_def)
  then have "cut_lines (ndjson E es) = map (jline E) es"
    using ndjson_lines [of es "[]"] by simp
  then show ?thesis
    using assms safe by (simp add: scanner_def scan_lines_ok jline fits_def)
qed

lemma decode_ndjson:
  "\<forall>e \<in> set es. fits E e \<Longrightarrow> decode_lines E (fst (scanner (ndjson E es) r)) = es"
  by (simp add: scanner_ndjson decode_lines_ok fits_def)

lemma chunk_roundtrip:
  assumes safe: "\<forall>e \<in> set es. entry_safe e" and small: "length (ndjson E es) < 2 ^ 31"
    and key: "HasSuffix key (FileExtension algo)"
  shows "\<exists>data. compressEntries E es algo = Inr data
      \<and> decompress E data key = Inr (ndjson E es, None)"
proof (cases "algo = CompressionSnappy")
  case True
  then have "HasSuffix key ''.sz''" using key by (simp add: FileExtension_def)
  then show ?thesis
    using True small encode_entries_ok [OF safe, of "[]"]
    by (simp add: compressEntries_def decompress_def snappy_roundtrip)
next
  case False
  then obtain t where "key = t @ ''.gz''" using key by (auto simp: FileExtension_def HasSuffix_iff)
  then have "\<not> HasSuffix key ''.sz''" by (auto simp: HasSuffix_iff)
  moreover obtain z where "gzipEncode E (ndjson E es) = GzOk z"
    "gzipDecode E z = Inr (ndjson E es, None)"
    using gzip_roundtrip by blast
  ultimately show ?thesis
    using False encode_entries_ok [OF safe, of "[]"]
    by (simp add: compressEntries_def decompress_def)
qed

lemma compressEntries_int:
  assumes "\<forall>e \<in> set es. entry_safe e" "length (ndjson E es) < 2 ^ 31" "compressEntries E es algo = Inr z"
  shows "length z < 2 ^ 63"
  using assms(3) compressed_int [OF assms(2)] encode_entries_ok [OF assms(1), of "[]"]
  by (auto simp: compressEntries_def split: if_splits gzip_result.splits)

text \<open>What the buffer compresses, the query engine and the exporter read back.\<close>

lemma chunk_entries_roundtrip:
  assumes "\<forall>x \<in> set es. fits E x" "length (ndjson E es) < 2 ^ 31"
    and "HasSuffix key (FileExtension algo)" "compressEntries E es algo = Inr data"
  shows "chunk_entries E key data = Some es"
proof -
  have safe: "\<forall>x \<in> set es. entry_safe x" using assms(1) by (simp add: fits_def)
  have "decompress E data key = Inr (ndjson E es, None)"
    using chunk_roundtrip [OF safe assms(2,3)] assms(4) by auto
  from chunk_entriesI [OF this scanner_ndjson [OF assms(1)]] show ?thesis
    using decode_lines_ok [OF safe] by simp
qed

end

end
