(* ===== verification/RefEnv.thy ===== *)
theory RefEnv
  imports ChunkCodec
begin

text \<open>
  A concrete environment that meets the contract \<open>codec\<close>: a plain textual encoding of
  entries and index records without line breaks, compressors that do nothing, and ASCII
  case folding. It stands in for \<open>encoding/json\<close>, \<open>compress/gzip\<close> and \<open>snappy\<close> wherever a
  property has to be applied to concrete data.
\<close>

definition enc_str :: "string \<Rightarrow> string" where
  "enc_str s = str_join '' '' (map (\<lambda>c. dec (of_char c)) s @ ['''']) "

definition dec_str :: "string \<Rightarrow> string" where
  "dec_str t = map (\<lambda>w. char_of (undec w)) (butlast (split_on (CHR '' '') t))"

definition enc_fields :: "string list \<Rightarrow> string" where
  "enc_fields fs = str_join '','' (map enc_str fs)"

definition dec_fields :: "string \<Rightarrow> string list" where
  "dec_fields t = map dec_str (split_on (CHR '','') t)"

definition read_int :: "string \<Rightarrow> int" where
  "read_int s = (case s of c # t \<Rightarrow> if c = CHR ''-'' then - int (undec t) else int (undec s) | [] \<Rightarrow> 0)"

fun unpair :: "string list \<Rightarrow> labels" where
  "unpair (k # v # r) = (k, v) # unpair r"
| "unpair _ = []"

definition pairs :: "labels \<Rightarrow> string list" where
  "pairs m = concat (map (\<lambda>(k, v). [k, v]) m)"

fun unsets :: "nat \<Rightarrow> string list \<Rightarrow> labels list" where
  "unsets 0 r = []"
| "unsets (Suc n) r =
     (case r of [] \<Rightarrow> [] | x # r' \<Rightarrow> unpair (take (2 * undec x) r') # unsets n (drop (2 * undec x) r'))"

definition sets :: "labels list \<Rightarrow> string list" where
  "sets ms = concat (map (\<lambda>m. dec (length m) # pairs m) ms)"

definition ref_entry :: "LogEntry \<Rightarrow> string" where
  "ref_entry e = enc_fields
     ([show_int (Timestamp e), show_int (TZ e), Service e, Level e, Message e] @ pairs (Labels e))"

definition unref_entry :: "string \<Rightarrow> LogEntry option" where
  "unref_entry t =
     (case dec_fields t of
        ts # tz # svc # lv # msg # r \<Rightarrow>
          Some \<lparr>Timestamp = read_int ts, TZ = read_int tz, Service = svc, Level = lv, Message = msg, Labels = unpair r\<rparr>
      | _ \<Rightarrow> None)"

definition ref_index :: "ChunkIndex \<Rightarrow> string" where
  "ref_index i = enc_fields
     ([ix_ChunkKey i, ix_Service i, show_int (ix_MinTime i), show_int (ix_MaxTime i),
       show_int (ix_EntryCount i), show_int (ix_SizeBytes i), ix_Compression i,
       dec (length (ix_LabelSets i))] @ sets (ix_LabelSets i))"

definition unref_index :: "string \<Rightarrow> ChunkIndex option" where
  "unref_index t =
     (case dec_fields t of
        k # svc # t0 # t1 # n # sz # c # l # r \<Rightarrow>
          Some \<lparr>ix_ChunkKey = k, ix_Service = svc, ix_MinTime = read_int t0, ix_MaxTime = read_int t1,
                ix_LabelSets = unsets (undec l) r, ix_EntryCount = read_int n,
                ix_SizeBytes = read_int sz, ix_Compression = c\<rparr>
      | _ \<Rightarrow> None)"

definition ascii_lower :: "string \<Rightarrow> string" where
  "ascii_lower s =
     map (\<lambda>c. if 65 \<le> (of_char c :: nat) \<and> of_char c \<le> (90 :: nat)
              then char_of ((of_char c :: nat) + 32) else c) s"

definition ref_env :: env where
  "ref_env =
     \<lparr>toLower = ascii_lower, equalFold = (\<lambda>a b. ascii_lower a = ascii_lower b),
      marshalEntry = (\<lambda>e. Inr (ref_entry e)), unmarshalEntry = unref_entry,
      marshalIndex = (\<lambda>i. Inr (ref_index i)), unmarshalIndex = unref_index,
      gzipEncode = GzOk, gzipDecode = (\<lambda>z. Inr (z, None)),
      snappyEncode = (\<lambda>x. x), snappyDecode = Inr\<rparr>"

section \<open>It meets the contract\<close>

lemma enc_str_split: "split_on (CHR '' '') (enc_str s) = map (\<lambda>c. dec (of_char c)) s @ ['''']"
  unfolding enc_str_def
  by (rule split_on_join) (auto dest: dec_digits digit_neq(5))

lemma dec_enc_str [simp]: "dec_str (enc_str s) = s"
  by (simp add: dec_str_def enc_str_split comp_def)

lemma enc_str_chars: "c \<in> set (enc_str s) \<Longrightarrow> c = CHR '' '' \<or> is_digit c"
  using set_str_join [of "'' ''" "map (\<lambda>c. dec (of_char c)) s @ ['''']"]
  by (auto simp: enc_str_def dest: dec_digits)

lemma enc_fields_chars: "c \<in> set (enc_fields fs) \<Longrightarrow> c = CHR '','' \<or> c = CHR '' '' \<or> is_digit c"
  using set_str_join [of "'',''" "map enc_str fs"]
  by (auto simp: enc_fields_def dest: enc_str_chars)

lemma dec_enc_fields: "fs \<noteq> [] \<Longrightarrow> dec_fields (enc_fields fs) = fs"
proof -
  assume "fs \<noteq> []"
  then have "split_on (CHR '','') (enc_fields fs) = map enc_str fs"
    unfolding enc_fields_def
    by (intro split_on_join) (auto dest!: enc_str_chars dest: digit_neq(4))
  then show ?thesis by (simp add: dec_fields_def comp_def)
qed

lemma read_show_int [simp]: "read_int (show_int i) = i"
proof (cases "i < 0")
  case True
  then show ?thesis by (simp add: read_int_def show_int_def)
next
  case False
  obtain c t where d: "dec (nat i) = c # t" by (cases "dec (nat i)") auto
  then have "is_digit c" using dec_digits [of c "nat i"] by simp
  then have "read_int (show_int i) = int (undec (dec (nat i)))"
    using False d digit_neq(2) by (simp add: read_int_def show_int_def)
  then show ?thesis using False by simp
qed

lemma pairs_Cons [simp]: "pairs ((k, v) # m) = k # v # pairs m"
  by (simp add: pairs_def)

lemma unpair_pairs [simp]: "unpair (pairs m) = m"
  by (induction m) (auto simp: pairs_def)

lemma length_pairs [simp]: "length (pairs m) = 2 * length m"
  by (induction m) (auto simp: pairs_def)

lemma unsets_sets [simp]: "unsets (length ms) (sets ms) = ms"
  by (induction ms) (auto simp: sets_def)

lemma no_breaks: "newline \<notin> set (enc_fields fs)" "carriage_return \<notin> set (enc_fields fs)"
  using enc_fields_chars [of newline fs] enc_fields_chars [of carriage_return fs]
  by (auto simp: is_digit_def)

lemma unref_ref_entry: "unref_entry (ref_entry e) = Some e"
  by (simp add: unref_entry_def ref_entry_def dec_enc_fields)

lemma unref_ref_index: "unref_index (ref_index i) = Some i"
  by (simp add: unref_index_def ref_index_def dec_enc_fields)

lemma ascii_lower_id:
  "\<forall>c \<in> set s. \<not> (65 \<le> (of_char c :: nat) \<and> of_char c \<le> (90 :: nat)) \<Longrightarrow> ascii_lower s = s"
  unfolding ascii_lower_def by (rule map_idI) auto

interpretation ref_compressors: compressors ref_env
proof unfold_locales
  fix s assume "\<forall>c \<in> set s. \<not> (65 \<le> (of_char c :: nat) \<and> of_char c \<le> (90 :: nat))"
  then show "toLower ref_env s = s" by (simp add: ref_env_def ascii_lower_id)
next
  fix x z :: string assume "length x < 2 ^ 31" "gzipEncode ref_env x = GzOk z \<or> z = snappyEncode ref_env x"
  then show "length z < 2 ^ 63" by (auto simp: ref_env_def)
qed (simp_all add: ref_env_def)

interpretation ref: codec ref_env
  by unfold_locales (simp_all add: ref_env_def unref_ref_entry unref_ref_index, simp_all add: ref_entry_def no_breaks)

lemma ref_codec: "codec ref_env"
  by (rule ref.codec_axioms)

text \<open>A chunk with one entry, for concrete instances.\<close>

definition wit_log_entry :: LogEntry where
  "wit_log_entry = \<lparr>Timestamp = 5, TZ = 0, Service = ''a'', Level = ''info'', Message = ''m'', Labels = [(''k'', ''v'')]\<rparr>"

lemma wit_log_entry_fits: "fits ref_env wit_log_entry"
proof -
  have "entry_safe wit_log_entry"
    by (simp add: wit_log_entry_def entry_safe_def time_safe_def zero_time_def second_def utf8_ok_ascii byte_val_def labels_safe_def)
  moreover have "jline ref_env wit_log_entry = ''53 ,48 ,97 ,105 110 102 111 ,109 ,107 ,118 ''" by code_simp
  ultimately show ?thesis by (simp add: fits_def max_token_def)
qed

lemma wit_chunk_readable:
  assumes suf: "HasSuffix key (FileExtension ''gzip'')"
  shows "\<exists>z. chunk_entries ref_env key z = Some [wit_log_entry]"
proof -
  have line: "jline ref_env wit_log_entry = ''53 ,48 ,97 ,105 110 102 111 ,109 ,107 ,118 ''" by code_simp
  have small: "length (ndjson ref_env [wit_log_entry]) < 2 ^ 31" by (simp add: ndjson_def line)
  have fit: "\<forall>x \<in> set [wit_log_entry]. fits ref_env x" by (simp add: wit_log_entry_fits)
  then obtain z where "compressEntries ref_env [wit_log_entry] ''gzip'' = Inr z"
    using ref.chunk_roundtrip [OF _ small suf] by (auto simp: fits_def)
  from ref.chunk_entries_roundtrip [OF fit small suf this] show ?thesis by blast
qed

end
