(* ===== verification/Storage.thy ===== *)
theory Storage
  imports Domain "HOL-Library.AList"
begin

text \<open>
  \<open>internal/storage\<close>: the S3 client. The AWS SDK is not sigyn's code: its calls are the
  fields of the record \<open>s3api\<close>, a parameter of the client's operations, and what the code
  relies on is the contract \<open>object_store\<close> (a bucket is a map from keys to objects), with
  \<open>reliable_store\<close> for the case where no call fails. The client's operations are then shown
  to read and write that map at the configured prefix. An in-memory bucket meets both
  contracts.
\<close>

section \<open>The client\<close>

text \<open>
  \<open>api_get\<close> can fail at the request or while the body is read; \<open>api_list\<close> yields the pages
  of the paginator in turn, each of them a list of keys or an error.
\<close>

record 's s3api =
  api_put :: "string \<Rightarrow> string \<Rightarrow> bytes \<Rightarrow> 's \<Rightarrow> err option \<times> 's"
  api_get :: "string \<Rightarrow> string \<Rightarrow> 's \<Rightarrow> bytes result result \<times> 's"
  api_list :: "string \<Rightarrow> string \<Rightarrow> 's \<Rightarrow> string list result list \<times> 's"

record S3Client =
  s3_bucket :: string
  s3_prefix :: string

definition s3_metric :: "string \<Rightarrow> string \<Rightarrow> metrics \<Rightarrow> metrics" where
  "s3_metric operation status m =
     m\<lparr>S3Operations := inc2 (S3Operations m) operation status\<rparr>"

definition s3_observe :: "string \<Rightarrow> metrics \<Rightarrow> metrics" where
  "s3_observe operation m = m\<lparr>S3Duration := inc1 (S3Duration m) operation\<rparr>"

definition PutObject ::
  "'s s3api \<Rightarrow> S3Client \<Rightarrow> string \<Rightarrow> bytes \<Rightarrow> 's world \<Rightarrow> int result \<times> 's world" where
  "PutObject api c key data w =
     (let fullKey = s3_prefix c @ key;
          (er, s) = api_put api (s3_bucket c) fullKey data (ext w);
          m = s3_observe ''PutObject'' (mx w)
      in case er of
           Some e \<Rightarrow> (Inl (''s3 put '' @ fullKey @ '': '' @ e),
                      w\<lparr>ext := s, mx := s3_metric ''PutObject'' ''error'' m\<rparr>)
         | None \<Rightarrow> (Inr (int (length data)), w\<lparr>ext := s, mx := s3_metric ''PutObject'' ''ok'' m\<rparr>))"

definition getObject :: "'s s3api \<Rightarrow> S3Client \<Rightarrow> string \<Rightarrow> 's world \<Rightarrow> bytes result \<times> 's world" where
  "getObject api c fullKey w =
     (let (r, s) = api_get api (s3_bucket c) fullKey (ext w);
          m = s3_observe ''GetObject'' (mx w)
      in case r of
           Inl e \<Rightarrow> (Inl (''s3 get '' @ fullKey @ '': '' @ e),
                     w\<lparr>ext := s, mx := s3_metric ''GetObject'' ''error'' m\<rparr>)
         | Inr body \<Rightarrow> (body, w\<lparr>ext := s, mx := s3_metric ''GetObject'' ''ok'' m\<rparr>))"

definition GetObject :: "'s s3api \<Rightarrow> S3Client \<Rightarrow> string \<Rightarrow> 's world \<Rightarrow> bytes result \<times> 's world" where
  "GetObject api c key w = getObject api c (s3_prefix c @ key) w"

definition GetObjectRaw :: "'s s3api \<Rightarrow> S3Client \<Rightarrow> string \<Rightarrow> 's world \<Rightarrow> bytes result \<times> 's world" where
  "GetObjectRaw api c fullKey w = getObject api c fullKey w"

text \<open>The loop over the paginator: keys are collected until a page fails.\<close>

fun collect_pages :: "string list result list \<Rightarrow> string list \<Rightarrow> string list result" where
  "collect_pages [] keys = Inr keys"
| "collect_pages (Inl e # ps) keys = Inl e"
| "collect_pages (Inr ks # ps) keys = collect_pages ps (keys @ ks)"

definition ListObjects ::
  "'s s3api \<Rightarrow> S3Client \<Rightarrow> string \<Rightarrow> 's world \<Rightarrow> string list result \<times> 's world" where
  "ListObjects api c keyPrefix w =
     (let fullPrefix = s3_prefix c @ keyPrefix;
          (pages, s) = api_list api (s3_bucket c) fullPrefix (ext w)
      in case collect_pages pages [] of
           Inl e \<Rightarrow> (Inl (''s3 list '' @ fullPrefix @ '': '' @ e),
                     w\<lparr>ext := s, mx := s3_metric ''ListObjects'' ''error'' (mx w)\<rparr>)
         | Inr keys \<Rightarrow> (Inr keys,
                     w\<lparr>ext := s,
                       mx := s3_metric ''ListObjects'' ''ok'' (s3_observe ''ListObjects'' (mx w))\<rparr>))"

definition PutObjectRaw ::
  "'s s3api \<Rightarrow> S3Client \<Rightarrow> string \<Rightarrow> bytes \<Rightarrow> 's world \<Rightarrow> err option \<times> 's world" where
  "PutObjectRaw api c fullKey data w =
     (let (er, s) = api_put api (s3_bucket c) fullKey data (ext w)
      in (case er of Some e \<Rightarrow> Some (''s3 put '' @ fullKey @ '': '' @ e) | None \<Rightarrow> None,
          w\<lparr>ext := s\<rparr>))"

definition ListObjectsRaw ::
  "'s s3api \<Rightarrow> S3Client \<Rightarrow> string \<Rightarrow> 's world \<Rightarrow> string list result \<times> 's world" where
  "ListObjectsRaw api c pfx w =
     (let (pages, s) = api_list api (s3_bucket c) pfx (ext w)
      in case collect_pages pages [] of
           Inl e \<Rightarrow> (Inl (''s3 list '' @ pfx @ '': '' @ e), w\<lparr>ext := s\<rparr>)
         | Inr keys \<Rightarrow> (Inr keys, w\<lparr>ext := s\<rparr>))"

section \<open>The contract of the object store\<close>

definition pages_ok :: "string list result list \<Rightarrow> bool" where
  "pages_ok ps \<longleftrightarrow> (\<forall>p \<in> set ps. \<exists>ks. p = Inr ks)"

definition page_keys :: "string list result list \<Rightarrow> string list" where
  "page_keys ps = concat (List.map_filter (\<lambda>p. case p of Inl _ \<Rightarrow> None | Inr ks \<Rightarrow> Some ks) ps)"

text \<open>
  \<open>obj s b\<close> is the contents of bucket \<open>b\<close>. A put that reports success stores the object, one
  that reports an error may or may not have stored it, reads and listings change nothing and
  return what is stored.
\<close>

locale object_store =
  fixes api :: "'s s3api"
    and obj :: "'s \<Rightarrow> string \<Rightarrow> string \<rightharpoonup> bytes"
  assumes put_nil: "api_put api b k d s = (None, s') \<Longrightarrow> obj s' b = (obj s b)(k \<mapsto> d)"
    and put_err: "api_put api b k d s = (Some e, s') \<Longrightarrow>
          obj s' b = obj s b \<or> obj s' b = (obj s b)(k \<mapsto> d)"
    and put_frame: "api_put api b k d s = (er, s') \<Longrightarrow> b' \<noteq> b \<Longrightarrow> obj s' b' = obj s b'"
    and get_val: "api_get api b k s = (Inr (Inr d), s') \<Longrightarrow> obj s b k = Some d"
    and get_frame: "api_get api b k s = (r, s') \<Longrightarrow> obj s' = obj s"
    and list_keys: "api_list api b p s = (ps, s') \<Longrightarrow> pages_ok ps \<Longrightarrow>
          set (page_keys ps) = {k \<in> dom (obj s b). HasPrefix k p} \<and> distinct (page_keys ps)"
    and list_frame: "api_list api b p s = (ps, s') \<Longrightarrow> obj s' = obj s"

text \<open>A store whose calls succeed whenever they can.\<close>

locale reliable_store = object_store +
  assumes put_always: "fst (api_put api b k d s) = None"
    and get_always: "obj s b k = Some d \<Longrightarrow> fst (api_get api b k s) = Inr (Inr d)"
    and list_always: "pages_ok (fst (api_list api b p s))"

text \<open>The objects of a client's bucket in a world.\<close>

definition objects :: "('s \<Rightarrow> string \<Rightarrow> string \<rightharpoonup> bytes) \<Rightarrow> S3Client \<Rightarrow> 's world \<Rightarrow> string \<rightharpoonup> bytes" where
  "objects obj c w = obj (ext w) (s3_bucket c)"

section \<open>Lemmas\<close>

lemma collect_pages_eq:
  "collect_pages ps keys = (if pages_ok ps then Inr (keys @ page_keys ps)
     else collect_pages ps keys)"
  by (induction ps keys rule: collect_pages.induct)
    (auto simp: pages_ok_def page_keys_def List.map_filter_simps)

lemma collect_pages_Inr: "collect_pages ps keys = Inr ks \<Longrightarrow> pages_ok ps \<and> ks = keys @ page_keys ps"
  by (induction ps keys rule: collect_pages.induct)
    (auto simp: pages_ok_def page_keys_def List.map_filter_simps)

lemma collect_pages_Inl: "collect_pages ps keys = Inl e \<Longrightarrow> \<not> pages_ok ps"
  by (induction ps keys rule: collect_pages.induct) (auto simp: pages_ok_def)

context object_store
begin

lemma PutObject_ok:
  assumes "PutObject api c key data w = (Inr n, w')"
  shows "objects obj c w' = (objects obj c w)(s3_prefix c @ key \<mapsto> data) \<and> n = int (length data)"
  using assms by (auto simp: PutObject_def Let_def objects_def split: prod.splits option.splits dest: put_nil)

lemma PutObject_err:
  assumes "PutObject api c key data w = (Inl e, w')"
  shows "objects obj c w' = objects obj c w
    \<or> objects obj c w' = (objects obj c w)(s3_prefix c @ key \<mapsto> data)"
  using assms by (auto simp: PutObject_def Let_def objects_def split: prod.splits option.splits dest: put_err)

lemma PutObjectRaw_ok:
  assumes "PutObjectRaw api c key data w = (None, w')"
  shows "objects obj c w' = (objects obj c w)(key \<mapsto> data)"
  using assms by (auto simp: PutObjectRaw_def Let_def objects_def split: prod.splits option.splits dest: put_nil)

lemma PutObjectRaw_err:
  assumes "PutObjectRaw api c key data w = (Some e, w')"
  shows "objects obj c w' = objects obj c w \<or> objects obj c w' = (objects obj c w)(key \<mapsto> data)"
  using assms by (auto simp: PutObjectRaw_def Let_def objects_def split: prod.splits option.splits dest: put_err)

text \<open>No put removes an object, in any bucket.\<close>

lemma put_keeps:
  assumes "api_put api b k d s = (r, s')" "(b', k') \<noteq> (b, k)" "obj s b' k' = Some x"
  shows "obj s' b' k' = Some x"
  using assms put_frame [of b k d s r s' b'] put_nil [of b k d s s'] put_err [of b k d s _ s']
  by (cases r; cases "b' = b") auto

lemma PutObject_keeps:
  assumes "PutObject api c key data w = (r, w')" "(b', k') \<noteq> (s3_bucket c, s3_prefix c @ key)"
    "obj (ext w) b' k' = Some x"
  shows "obj (ext w') b' k' = Some x"
  using assms put_keeps by (auto simp: PutObject_def Let_def split: prod.splits option.splits)

lemma PutObjectRaw_keeps:
  assumes "PutObjectRaw api c key data w = (r, w')" "(b', k') \<noteq> (s3_bucket c, key)"
    "obj (ext w) b' k' = Some x"
  shows "obj (ext w') b' k' = Some x"
  using assms put_keeps by (auto simp: PutObjectRaw_def Let_def split: prod.splits option.splits)

lemma getObject_ok:
  "getObject api c k w = (Inr d, w') \<Longrightarrow> objects obj c w k = Some d"
  by (auto simp: getObject_def Let_def objects_def split: prod.splits sum.splits dest: get_val)

lemma getObject_obj: "getObject api c k w = (r, w') \<Longrightarrow> obj (ext w') = obj (ext w)"
  by (auto simp: getObject_def Let_def split: prod.splits sum.splits dest: get_frame)

lemma ListObjectsRaw_obj: "ListObjectsRaw api c p w = (r, w') \<Longrightarrow> obj (ext w') = obj (ext w)"
  by (auto simp: ListObjectsRaw_def Let_def split: prod.splits sum.splits dest: list_frame)

lemma ListObjects_obj: "ListObjects api c p w = (r, w') \<Longrightarrow> obj (ext w') = obj (ext w)"
  by (auto simp: ListObjects_def Let_def split: prod.splits sum.splits dest: list_frame)

lemma getObject_frame:
  "getObject api c k w = (r, w') \<Longrightarrow> objects obj c w' = objects obj c w"
  by (auto simp: getObject_def Let_def objects_def split: prod.splits sum.splits dest: get_frame)

lemma ListObjects_ok:
  assumes "ListObjects api c p w = (Inr ks, w')"
  shows "set ks = {k \<in> dom (objects obj c w). HasPrefix k (s3_prefix c @ p)} \<and> distinct ks"
  using assms
  by (auto simp: ListObjects_def Let_def objects_def split: prod.splits sum.splits
      dest!: collect_pages_Inr list_keys)

lemma ListObjects_frame:
  "ListObjects api c p w = (r, w') \<Longrightarrow> objects obj c w' = objects obj c w"
  by (auto simp: ListObjects_def Let_def objects_def split: prod.splits sum.splits dest: list_frame)

lemma ListObjectsRaw_ok:
  assumes "ListObjectsRaw api c p w = (Inr ks, w')"
  shows "set ks = {k \<in> dom (objects obj c w). HasPrefix k p} \<and> distinct ks"
  using assms
  by (auto simp: ListObjectsRaw_def Let_def objects_def split: prod.splits sum.splits
      dest!: collect_pages_Inr list_keys)

lemma ListObjectsRaw_frame:
  "ListObjectsRaw api c p w = (r, w') \<Longrightarrow> objects obj c w' = objects obj c w"
  by (auto simp: ListObjectsRaw_def Let_def objects_def split: prod.splits sum.splits dest: list_frame)

end

context reliable_store
begin

lemma PutObject_total: "\<exists>w'. PutObject api c key data w = (Inr (int (length data)), w')"
  using put_always [of "s3_bucket c" "s3_prefix c @ key" data "ext w"]
  by (auto simp: PutObject_def Let_def split: prod.splits option.splits)

lemma PutObjectRaw_total: "fst (PutObjectRaw api c key data w) = None"
  using put_always [of "s3_bucket c" key data "ext w"]
  by (auto simp: PutObjectRaw_def Let_def split: prod.splits option.splits)

lemma getObject_total:
  "objects obj c w k = Some d \<Longrightarrow> fst (getObject api c k w) = Inr d"
  using get_always [of "ext w" "s3_bucket c" k d]
  by (auto simp: getObject_def Let_def objects_def split: prod.splits sum.splits)

lemma ListObjects_total: "\<exists>ks w'. ListObjects api c p w = (Inr ks, w')"
proof -
  have "pages_ok (fst (api_list api (s3_bucket c) (s3_prefix c @ p) (ext w)))" by (rule list_always)
  then show ?thesis
    by (auto simp: ListObjects_def Let_def split: prod.splits sum.splits dest: collect_pages_Inl)
qed

lemma ListObjectsRaw_total: "\<exists>ks w'. ListObjectsRaw api c p w = (Inr ks, w')"
proof -
  have "pages_ok (fst (api_list api (s3_bucket c) p (ext w)))" by (rule list_always)
  then show ?thesis
    by (auto simp: ListObjectsRaw_def Let_def split: prod.splits sum.splits dest: collect_pages_Inl)
qed

end

section \<open>An in-memory bucket\<close>

type_synonym mem = "((string \<times> string) \<times> bytes) list"

definition mem_obj :: "mem \<Rightarrow> string \<Rightarrow> string \<rightharpoonup> bytes" where
  "mem_obj s b k = map_of s (b, k)"

definition mem_keys :: "mem \<Rightarrow> string \<Rightarrow> string \<Rightarrow> string list" where
  "mem_keys s b p = map snd (filter (\<lambda>(c, k). c = b \<and> HasPrefix k p) (remdups (map fst s)))"

definition mem_api :: "mem s3api" where
  "mem_api =
     \<lparr>api_put = (\<lambda>b k d s. (None, AList.update (b, k) d s)),
      api_get = (\<lambda>b k s. (case mem_obj s b k of
                            None \<Rightarrow> Inl ''NoSuchKey'' | Some d \<Rightarrow> Inr (Inr d), s)),
      api_list = (\<lambda>b p s. ([Inr (mem_keys s b p)], s))\<rparr>"

lemma mem_keys_set: "set (mem_keys s b p) = {k \<in> dom (mem_obj s b). HasPrefix k p}"
proof -
  have "k \<in> dom (mem_obj s b) \<longleftrightarrow> (b, k) \<in> fst ` set s" for k
    by (metis domIff map_of_eq_None_iff mem_obj_def)
  moreover have "k \<in> set (mem_keys s b p) \<longleftrightarrow> (b, k) \<in> fst ` set s \<and> HasPrefix k p" for k
    unfolding mem_keys_def by (simp add: image_iff)
  ultimately show ?thesis by blast
qed

lemma mem_keys_distinct: "distinct (mem_keys s b p)"
  unfolding mem_keys_def
  by (subst distinct_map) (auto simp: inj_on_def)

lemma mem_update: "mem_obj (AList.update (b, k) d s) b = (mem_obj s b)(k \<mapsto> d)"
  by (rule ext) (simp add: mem_obj_def update_conv')

lemma mem_update_other: "b' \<noteq> b \<Longrightarrow> mem_obj (AList.update (b, k) d s) b' = mem_obj s b'"
  by (rule ext) (simp add: mem_obj_def update_conv')

lemma mem_api_sel [simp]:
  "api_put mem_api b k d s = (None, AList.update (b, k) d s)"
  "api_get mem_api b k s =
     (case mem_obj s b k of None \<Rightarrow> Inl ''NoSuchKey'' | Some d \<Rightarrow> Inr (Inr d), s)"
  "api_list mem_api b p s = ([Inr (mem_keys s b p)], s)"
  by (simp_all add: mem_api_def)

lemma page_keys_single [simp]: "page_keys [Inr ks] = ks" "pages_ok [Inr ks]"
  by (simp_all add: page_keys_def pages_ok_def List.map_filter_simps)

interpretation mem: reliable_store mem_api mem_obj
proof unfold_locales
  fix b p s ps and s' :: mem
  assume "api_list mem_api b p s = (ps, s')"
  then show "set (page_keys ps) = {k \<in> dom (mem_obj s b). HasPrefix k p} \<and> distinct (page_keys ps)"
    using mem_keys_set [of s b p] mem_keys_distinct [of s b p] by auto
qed (auto simp: mem_update mem_update_other split: option.splits)

lemma mem_reliable: "reliable_store mem_api mem_obj"
  by (rule mem.reliable_store_axioms)

text \<open>A client and an empty world, for concrete instances.\<close>

definition wit_client :: S3Client where
  "wit_client = \<lparr>s3_bucket = ''logs'', s3_prefix = ''raw_logs/''\<rparr>"

definition wit_world :: "mem world" where
  "wit_world = \<lparr>ext = [], mx = metrics0\<rparr>"

end
