(* ===== verification/Index.thy ===== *)
theory Index
  imports KeyLayout RefEnv Storage
begin

text \<open>
  \<open>internal/index\<close>: the label index, one small record per chunk, stored under day
  directories. The facts: a query returns exactly the stored records of its days that
  overlap the range, belong to the service and have a label set containing the query labels;
  a record that was written is found again.
\<close>

section \<open>Operations\<close>

record Store =
  st_s3 :: S3Client
  st_prefix :: string

definition NewStore :: "S3Client \<Rightarrow> string \<Rightarrow> Store" where
  "NewStore c pfx =
     \<lparr>st_s3 = c, st_prefix = (if \<not> HasSuffix pfx ''/'' then pfx @ ''/'' else pfx)\<rparr>"

definition Write :: "env \<Rightarrow> 's s3api \<Rightarrow> Store \<Rightarrow> ChunkIndex \<Rightarrow> 's world \<Rightarrow> err option \<times> 's world" where
  "Write E api st ix w =
     (let key = indexKey (st_prefix st) (ix_ChunkKey ix)
      in case marshalIndex E ix of
           Inl e \<Rightarrow> (Some (''marshal index: '' @ e), w)
         | Inr data \<Rightarrow> PutObjectRaw api (st_s3 st) key data w)"

fun MatchLabels_loop :: "labels list \<Rightarrow> labels \<Rightarrow> bool" where
  "MatchLabels_loop [] query = False"
| "MatchLabels_loop (ls # rest) query = (if all_match query ls then True else MatchLabels_loop rest query)"

definition MatchLabels :: "labels list \<Rightarrow> labels \<Rightarrow> bool" where
  "MatchLabels labelSets query =
     (if length query = 0 then True
      else if length labelSets = 0 then False
      else MatchLabels_loop labelSets query)"

definition timeOverlaps :: "time \<Rightarrow> time \<Rightarrow> time \<Rightarrow> time \<Rightarrow> bool" where
  "timeOverlaps idxMin idxMax qStart qEnd \<longleftrightarrow> \<not> Before idxMax qStart \<and> \<not> After idxMin qEnd"

text \<open>The tests of the loop body of \<open>Query\<close>.\<close>

definition index_matches :: "env \<Rightarrow> time \<Rightarrow> time \<Rightarrow> string \<Rightarrow> labels \<Rightarrow> ChunkIndex \<Rightarrow> bool" where
  "index_matches E start end service labels ix =
     (if \<not> timeOverlaps (ix_MinTime ix) (ix_MaxTime ix) start end then False
      else if service \<noteq> '''' \<and> \<not> equalFold E (ix_Service ix) service then False
      else if \<not> MatchLabels (ix_LabelSets ix) labels then False
      else True)"

text \<open>The inner loop: index records that cannot be read or parsed are skipped.\<close>

fun query_keys ::
  "env \<Rightarrow> 's s3api \<Rightarrow> Store \<Rightarrow> (ChunkIndex \<Rightarrow> bool) \<Rightarrow> string list \<Rightarrow> ChunkIndex list \<Rightarrow> 's world \<Rightarrow>
   ChunkIndex list \<times> 's world" where
  "query_keys E api st P [] results w = (results, w)"
| "query_keys E api st P (key # keys) results w =
     (case GetObjectRaw api (st_s3 st) key w of
        (Inl e, w') \<Rightarrow> query_keys E api st P keys results w'
      | (Inr data, w') \<Rightarrow>
          (case unmarshalIndex E data of
             None \<Rightarrow> query_keys E api st P keys results w'
           | Some ix \<Rightarrow>
               query_keys E api st P keys (if P ix then results @ [ix] else results) w'))"

fun query_prefixes ::
  "env \<Rightarrow> 's s3api \<Rightarrow> Store \<Rightarrow> (ChunkIndex \<Rightarrow> bool) \<Rightarrow> string list \<Rightarrow> ChunkIndex list \<Rightarrow> 's world \<Rightarrow>
   ChunkIndex list result \<times> 's world" where
  "query_prefixes E api st P [] results w = (Inr results, w)"
| "query_prefixes E api st P (pfx # pfxs) results w =
     (case ListObjectsRaw api (st_s3 st) pfx w of
        (Inl e, w') \<Rightarrow> (Inl (''list index '' @ pfx @ '': '' @ e), w')
      | (Inr keys, w') \<Rightarrow>
          (case query_keys E api st P keys results w' of
             (results', w'') \<Rightarrow> query_prefixes E api st P pfxs results' w''))"

definition Query ::
  "env \<Rightarrow> 's s3api \<Rightarrow> Store \<Rightarrow> time \<Rightarrow> time \<Rightarrow> string \<Rightarrow> labels \<Rightarrow> 's world \<Rightarrow>
   ChunkIndex list result \<times> 's world" where
  "Query E api st start end service labels w =
     query_prefixes E api st (index_matches E start end service labels)
       (dayPrefixes (st_prefix st) start end) [] w"

section \<open>Matching\<close>

lemma MatchLabels_iff:
  "MatchLabels lss q \<longleftrightarrow> q = [] \<or> (\<exists>m \<in> set lss. all_match q m)"
proof -
  have "MatchLabels_loop lss q \<longleftrightarrow> (\<exists>m \<in> set lss. all_match q m)"
    by (induction lss) auto
  then show ?thesis by (auto simp: MatchLabels_def)
qed

lemma timeOverlaps_iff: "timeOverlaps a b s e \<longleftrightarrow> s \<le> b \<and> a \<le> e"
  by (auto simp: timeOverlaps_def Before_def After_def)

lemma index_matches_iff:
  "index_matches E s e svc q ix \<longleftrightarrow> timeOverlaps (ix_MinTime ix) (ix_MaxTime ix) s e
     \<and> (svc \<noteq> '''' \<longrightarrow> equalFold E (ix_Service ix) svc) \<and> MatchLabels (ix_LabelSets ix) q"
  by (simp add: index_matches_def)

section \<open>What a query returns\<close>

text \<open>The records that the objects of a bucket hold under a set of directories.\<close>

definition stored_indexes :: "env \<Rightarrow> (string \<rightharpoonup> bytes) \<Rightarrow> string list \<Rightarrow> ChunkIndex set" where
  "stored_indexes E objs pfxs =
     {ix. \<exists>k data. objs k = Some data \<and> listed k pfxs \<and> unmarshalIndex E data = Some ix}"

definition indexes_at :: "env \<Rightarrow> (string \<rightharpoonup> bytes) \<Rightarrow> string list \<Rightarrow> ChunkIndex set" where
  "indexes_at E objs keys =
     {ix. \<exists>k data. k \<in> set keys \<and> objs k = Some data \<and> unmarshalIndex E data = Some ix}"

lemma indexes_at_Cons: "indexes_at E objs keys \<subseteq> indexes_at E objs (k # keys)"
  by (auto simp: indexes_at_def)

lemma indexes_at_stored:
  "\<forall>k \<in> set keys. HasPrefix k p \<Longrightarrow> indexes_at E objs keys \<subseteq> stored_indexes E objs (p # ps)"
  by (auto simp: indexes_at_def stored_indexes_def listed_def)

lemma stored_indexes_Cons: "stored_indexes E objs ps \<subseteq> stored_indexes E objs (p # ps)"
  by (auto simp: stored_indexes_def listed_def)

context object_store
begin

lemma query_keys_frame:
  "query_keys E api st P keys rs w = (rs', w') \<Longrightarrow> objects obj (st_s3 st) w' = objects obj (st_s3 st) w"
proof (induction keys arbitrary: rs w)
  case (Cons key keys)
  obtain r w1 where g: "getObject api (st_s3 st) key w = (r, w1)" by fastforce
  then have f: "objects obj (st_s3 st) w1 = objects obj (st_s3 st) w" by (rule getObject_frame)
  show ?case
    using Cons.prems Cons.IH [of _ w1] g f
    by (auto simp: GetObjectRaw_def split: sum.splits option.splits)
qed simp

lemma query_keys_sound:
  assumes "query_keys E api st P keys rs w = (rs', w')"
  shows "set rs \<subseteq> set rs' \<and> set rs' \<subseteq> set rs \<union> {ix \<in> indexes_at E (objects obj (st_s3 st) w) keys. P ix}"
  using assms
proof (induction keys arbitrary: rs w)
  case (Cons key keys)
  obtain r w1 where g: "getObject api (st_s3 st) key w = (r, w1)" by fastforce
  then have f: "objects obj (st_s3 st) w1 = objects obj (st_s3 st) w" by (rule getObject_frame)
  show ?case
  proof (cases "\<exists>d ix. r = Inr d \<and> unmarshalIndex E d = Some ix")
    case False
    then have "query_keys E api st P keys rs w1 = (rs', w')"
      using Cons.prems g by (auto simp: GetObjectRaw_def split: sum.splits option.splits)
    from Cons.IH [OF this, unfolded f] indexes_at_Cons show ?thesis by blast
  next
    case True
    then obtain d ix where d: "r = Inr d" "unmarshalIndex E d = Some ix" by blast
    then have "query_keys E api st P keys (if P ix then rs @ [ix] else rs) w1 = (rs', w')"
      using Cons.prems g by (simp add: GetObjectRaw_def)
    note IH = Cons.IH [OF this, unfolded f]
    have "objects obj (st_s3 st) w key = Some d" using g d(1) getObject_ok by blast
    then have "ix \<in> indexes_at E (objects obj (st_s3 st) w) (key # keys)"
      using d(2) by (auto simp: indexes_at_def)
    moreover note indexes_at_Cons [of E "objects obj (st_s3 st) w" keys key]
    ultimately show ?thesis using IH by (cases "P ix") auto
  qed
qed simp

lemma query_prefixes_sound:
  assumes "query_prefixes E api st P pfxs rs w = (Inr rs', w')"
  shows "objects obj (st_s3 st) w' = objects obj (st_s3 st) w \<and> set rs \<subseteq> set rs'
     \<and> set rs' \<subseteq> set rs \<union> {ix \<in> stored_indexes E (objects obj (st_s3 st) w) pfxs. P ix}"
  using assms
proof (induction pfxs arbitrary: rs w)
  case (Cons pfx pfxs)
  obtain keys w1 where l: "ListObjectsRaw api (st_s3 st) pfx w = (Inr keys, w1)"
    using Cons.prems by (auto split: prod.splits sum.splits)
  obtain rs1 w2 where q: "query_keys E api st P keys rs w1 = (rs1, w2)" by fastforce
  have f: "objects obj (st_s3 st) w1 = objects obj (st_s3 st) w"
    "objects obj (st_s3 st) w2 = objects obj (st_s3 st) w1"
    using ListObjectsRaw_frame [OF l] query_keys_frame [OF q] by auto
  have keys: "k \<in> set keys \<Longrightarrow> HasPrefix k pfx" for k using ListObjectsRaw_ok [OF l] by auto
  have "query_prefixes E api st P pfxs rs1 w2 = (Inr rs', w')" using Cons.prems l q by simp
  note IH = Cons.IH [OF this, unfolded f]
  note S = query_keys_sound [OF q, unfolded f]
  show ?case
    using IH S indexes_at_stored [of keys pfx E "objects obj (st_s3 st) w" pfxs] keys
      stored_indexes_Cons [of E "objects obj (st_s3 st) w" pfxs pfx] by blast
qed simp

text \<open>A query changes no object in any bucket.\<close>

lemma query_keys_obj:
  "query_keys E api st P keys rs w = (rs', w') \<Longrightarrow> obj (ext w') = obj (ext w)"
proof (induction keys arbitrary: rs w)
  case (Cons key keys)
  obtain r w1 where g: "getObject api (st_s3 st) key w = (r, w1)" by fastforce
  then have f: "obj (ext w1) = obj (ext w)" by (rule getObject_obj)
  show ?case
    using Cons.prems Cons.IH [of _ w1] g f
    by (auto simp: GetObjectRaw_def split: sum.splits option.splits)
qed simp

lemma query_prefixes_obj:
  "query_prefixes E api st P pfxs rs w = (r, w') \<Longrightarrow> obj (ext w') = obj (ext w)"
proof (induction pfxs arbitrary: rs w)
  case (Cons pfx pfxs)
  obtain l w1 where l: "ListObjectsRaw api (st_s3 st) pfx w = (l, w1)" by fastforce
  note f = ListObjectsRaw_obj [OF l]
  show ?case
  proof (cases l)
    case (Inr keys)
    obtain rs1 w2 where q: "query_keys E api st P keys rs w1 = (rs1, w2)" by fastforce
    show ?thesis using Cons.prems Cons.IH [of rs1 w2] query_keys_obj [OF q] f l q Inr by simp
  qed (use Cons.prems f l in simp)
qed simp

lemma Query_frame: "Query E api st s e svc q w = (r, w') \<Longrightarrow> obj (ext w') = obj (ext w)"
  unfolding Query_def by (rule query_prefixes_obj)

end

context reliable_store
begin

lemma query_keys_complete:
  assumes "query_keys E api st P keys rs w = (rs', w')" "k \<in> set keys"
    "objects obj (st_s3 st) w k = Some data" "unmarshalIndex E data = Some ix" "P ix"
  shows "ix \<in> set rs'"
  using assms
proof (induction keys arbitrary: rs w)
  case (Cons key keys)
  obtain r w1 where g: "getObject api (st_s3 st) key w = (r, w1)" by fastforce
  then have f: "objects obj (st_s3 st) w1 = objects obj (st_s3 st) w" by (rule getObject_frame)
  show ?case
  proof (cases "k = key")
    case True
    then have "r = Inr data" using getObject_total [OF Cons.prems(3)] g by simp
    then have "query_keys E api st P keys (rs @ [ix]) w1 = (rs', w')"
      using Cons.prems g True by (simp add: GetObjectRaw_def)
    from query_keys_sound [OF this] show ?thesis by auto
  next
    case False
    then show ?thesis
      using Cons.prems Cons.IH [of _ w1] g f
      by (auto simp: GetObjectRaw_def split: sum.splits option.splits)
  qed
qed simp

lemma query_prefixes_complete:
  "\<exists>rs' w'. query_prefixes E api st P pfxs rs w = (Inr rs', w') \<and>
     {ix \<in> stored_indexes E (objects obj (st_s3 st) w) pfxs. P ix} \<subseteq> set rs'"
proof (induction pfxs arbitrary: rs w)
  case Nil
  then show ?case by (simp add: stored_indexes_def listed_def)
next
  case (Cons pfx pfxs)
  obtain keys w1 where l: "ListObjectsRaw api (st_s3 st) pfx w = (Inr keys, w1)"
    using ListObjectsRaw_total by blast
  obtain rs1 w2 where q: "query_keys E api st P keys rs w1 = (rs1, w2)" by fastforce
  have f: "objects obj (st_s3 st) w1 = objects obj (st_s3 st) w"
    "objects obj (st_s3 st) w2 = objects obj (st_s3 st) w"
    using ListObjectsRaw_frame [OF l] query_keys_frame [OF q] by auto
  obtain rs' w' where r: "query_prefixes E api st P pfxs rs1 w2 = (Inr rs', w')"
    "{ix \<in> stored_indexes E (objects obj (st_s3 st) w) pfxs. P ix} \<subseteq> set rs'"
    using Cons.IH [of rs1 w2] f by auto
  have "ix \<in> set rs'" if ix: "ix \<in> stored_indexes E (objects obj (st_s3 st) w) (pfx # pfxs)" "P ix" for ix
  proof -
    obtain k data where k: "objects obj (st_s3 st) w k = Some data" "listed k (pfx # pfxs)"
      "unmarshalIndex E data = Some ix" using ix(1) by (auto simp: stored_indexes_def)
    show ?thesis
    proof (cases "HasPrefix k pfx")
      case True
      then have "k \<in> set keys" using ListObjectsRaw_ok [OF l] k(1) by auto
      then have "ix \<in> set rs1" using query_keys_complete [OF q _ _ k(3) ix(2)] k(1) f(1) by simp
      then show ?thesis using query_prefixes_sound [OF r(1)] by auto
    next
      case False
      then have "ix \<in> stored_indexes E (objects obj (st_s3 st) w) pfxs"
        using k by (auto simp: stored_indexes_def listed_def)
      then show ?thesis using r(2) ix(2) by auto
    qed
  qed
  then show ?case using l q r(1) by auto
qed

lemma Query_set:
  "\<exists>rs w'. Query E api st s e svc q w = (Inr rs, w')
     \<and> objects obj (st_s3 st) w' = objects obj (st_s3 st) w
     \<and> set rs = {ix \<in> stored_indexes E (objects obj (st_s3 st) w) (dayPrefixes (st_prefix st) s e).
                 index_matches E s e svc q ix}"
proof -
  let ?P = "index_matches E s e svc q" and ?ps = "dayPrefixes (st_prefix st) s e"
  obtain rs w' where r: "query_prefixes E api st ?P ?ps [] w = (Inr rs, w')"
    "{ix \<in> stored_indexes E (objects obj (st_s3 st) w) ?ps. ?P ix} \<subseteq> set rs"
    using query_prefixes_complete by blast
  with query_prefixes_sound [OF r(1)] show ?thesis by (simp add: Query_def subset_antisym)
qed

end

section \<open>Properties\<close>

text \<open>
  On a store whose calls do not fail, \<open>Query\<close> succeeds and returns exactly the stored
  index records in the day directories of the range that overlap the range in time, belong
  to the service (if one is given) and have a label set with all the query labels (if any
  are given); it changes no object.
\<close>

theorem Query_exact:
  assumes "reliable_store api obj"
  shows "\<exists>rs w'. Query E api st s e svc q w = (Inr rs, w')
     \<and> objects obj (st_s3 st) w' = objects obj (st_s3 st) w
     \<and> set rs = {ix \<in> stored_indexes E (objects obj (st_s3 st) w) (dayPrefixes (st_prefix st) s e).
                 s \<le> ix_MaxTime ix \<and> ix_MinTime ix \<le> e
                 \<and> (svc \<noteq> '''' \<longrightarrow> equalFold E (ix_Service ix) svc)
                 \<and> (q = [] \<or> (\<exists>m \<in> set (ix_LabelSets ix). all_match q m))}"
  using reliable_store.Query_set [OF assms, of E st s e svc q w]
  by (simp add: index_matches_iff timeOverlaps_iff MatchLabels_iff)

text \<open>
  On any object store, whatever fails, a query that succeeds returns only records that
  are stored in the day directories of the range and match.
\<close>

theorem Query_sound:
  assumes "object_store api obj" "Query E api st s e svc q w = (Inr rs, w')" "ix \<in> set rs"
  shows "ix \<in> stored_indexes E (objects obj (st_s3 st) w) (dayPrefixes (st_prefix st) s e)
    \<and> index_matches E s e svc q ix"
  using object_store.query_prefixes_sound [OF assms(1)
      assms(2) [unfolded Query_def]] assms(3) by auto

text \<open>
  A record that was written is found: after a successful \<open>Write\<close> of the index of a
  chunk, the bucket holds the record, and every query whose days include the day of the
  chunk's key, whose range overlaps the chunk's and whose service and labels match it
  returns it.
\<close>

theorem Write_then_Query:
  assumes "codec E" "reliable_store api obj" "index_safe ix"
    and key: "ix_ChunkKey ix = chunkKey service t uid algo"
    and slash: "CHR ''/'' \<notin> set service" "CHR ''/'' \<notin> set uid"
    and days: "day_number s \<le> day_number t" "day_number t \<le> day_number e"
    and match: "index_matches E s e svc q ix"
  shows "\<exists>w1 rs w2. Write E api st ix w = (None, w1) \<and> Query E api st s e svc q w1 = (Inr rs, w2)
    \<and> ix \<in> set rs"
proof -
  obtain data where data: "marshalIndex E ix = Inr data" "unmarshalIndex E data = Some ix"
    using codec.index_roundtrip [OF assms(1,3)] by blast
  let ?key = "indexKey (st_prefix st) (ix_ChunkKey ix)"
  obtain w1 where w1: "PutObjectRaw api (st_s3 st) ?key data w = (None, w1)"
    using reliable_store.PutObjectRaw_total [OF assms(2)] by (metis prod.collapse)
  then have stored: "objects obj (st_s3 st) w1 ?key = Some data"
    using object_store.PutObjectRaw_ok [OF reliable_store.axioms(1) [OF assms(2)]] by simp
  have "listed ?key (dayPrefixes (st_prefix st) s e)"
    using listed_index [OF slash] days by (simp add: key)
  then have "ix \<in> stored_indexes E (objects obj (st_s3 st) w1) (dayPrefixes (st_prefix st) s e)"
    using stored data(2) by (auto simp: stored_indexes_def)
  moreover obtain rs w2 where "Query E api st s e svc q w1 = (Inr rs, w2)"
    "set rs = {ix \<in> stored_indexes E (objects obj (st_s3 st) w1) (dayPrefixes (st_prefix st) s e).
      index_matches E s e svc q ix}"
    using reliable_store.Query_set [OF assms(2)] by blast
  ultimately show ?thesis using w1 data(1) match by (auto simp: Write_def)
qed

section \<open>Witnesses\<close>

definition wit_store :: Store where
  "wit_store = NewStore wit_client ''index''"

definition wit_index :: ChunkIndex where
  "wit_index =
     \<lparr>ix_ChunkKey = chunkKey ''a'' 5 ''u'' CompressionGzip, ix_Service = ''a'', ix_MinTime = 5, ix_MaxTime = 9,
      ix_LabelSets = [[(''k'', ''v'')]], ix_EntryCount = 2, ix_SizeBytes = 40, ix_Compression = ''gzip''\<rparr>"

lemma wit_index_safe: "index_safe wit_index"
proof -
  have "chunkKey ''a'' 5 ''u'' CompressionGzip = ''a/1970/01/01/0-u.gz''" by code_simp
  then show ?thesis
    by (simp add: index_safe_def wit_index_def utf8_ok_ascii byte_val_def time_safe_def zero_time_def second_def labels_safe_def)
qed

lemma wit_index_matches: "index_matches ref_env 0 7 ''a'' [(''k'', ''v'')] wit_index"
  by (simp add: index_matches_iff timeOverlaps_iff MatchLabels_iff wit_index_def ref_compressors.fold_refl
      all_match_def lget_def)

theorem Query_exact_witness:
  "\<exists>rs w'. Query ref_env mem_api wit_store 0 7 ''a'' [] wit_world = (Inr rs, w')
     \<and> set rs \<subseteq> stored_indexes ref_env (\<lambda>k. None) (dayPrefixes ''index/'' 0 7)"
  using Query_exact [OF mem_reliable, of ref_env wit_store 0 7 "''a''" "[]" wit_world]
  by (auto simp: objects_def wit_world_def mem_obj_def wit_store_def NewStore_def wit_client_def
      HasSuffix_def)

theorem Query_sound_witness:
  "\<exists>w rs w'. Query ref_env mem_api wit_store 0 7 ''a'' [(''k'', ''v'')] w = (Inr rs, w')
     \<and> wit_index \<in> set rs \<and> index_matches ref_env 0 7 ''a'' [(''k'', ''v'')] wit_index"
proof -
  obtain data where d: "unmarshalIndex ref_env data = Some wit_index"
    using ref.index_roundtrip [OF wit_index_safe] by blast
  let ?k = "indexKey (st_prefix wit_store) (ix_ChunkKey wit_index)"
  let ?w = "\<lparr>ext = [((s3_bucket (st_s3 wit_store), ?k), data)], mx = metrics0\<rparr> :: mem world"
  have "listed ?k (dayPrefixes (st_prefix wit_store) 0 7)"
    using listed_index [of "''a''" "''u''" "st_prefix wit_store" 5 CompressionGzip 0 7]
    by (simp add: wit_index_def day_number_def zero_time_def day_ns_def second_def)
  then have "wit_index \<in> stored_indexes ref_env (objects mem_obj (st_s3 wit_store) ?w)
      (dayPrefixes (st_prefix wit_store) 0 7)"
    using d by (auto simp: stored_indexes_def objects_def mem_obj_def)
  then obtain rs w' where q: "Query ref_env mem_api wit_store 0 7 ''a'' [(''k'', ''v'')] ?w = (Inr rs, w')"
    and i: "wit_index \<in> set rs"
    using mem.Query_set [of ref_env wit_store 0 7 "''a''" "[(''k'', ''v'')]" ?w] wit_index_matches by auto
  from Query_sound [OF mem.object_store_axioms q i] q i show ?thesis by blast
qed

theorem Write_then_Query_witness:
  "\<exists>w1 rs w2. Write ref_env mem_api wit_store wit_index wit_world = (None, w1)
     \<and> Query ref_env mem_api wit_store 0 7 ''a'' [(''k'', ''v'')] w1 = (Inr rs, w2) \<and> wit_index \<in> set rs"
  by (rule Write_then_Query [OF ref_codec mem_reliable wit_index_safe, where service = "''a''" and t = 5
        and uid = "''u''" and algo = CompressionGzip])
    (simp_all add: wit_index_matches, simp_all add: wit_index_def day_number_def zero_time_def day_ns_def second_def)

end
