(* ===== verification/Retry.thy ===== *)
theory Retry
  imports Domain
begin

text \<open>
  \<open>internal/retry\<close>: exponential backoff with jitter. The retried function is a state
  transformer on an arbitrary state \<open>'w\<close>; a context reads its cancellation from that state
  and waits in it. The facts: a nil result comes from a successful call and leaves the state
  of that call, an error from the last call or from the context, the function is called at
  most \<open>MaxAttempts\<close> times, and the waits are bounded.
\<close>

section \<open>Definitions\<close>

text \<open>
  A context: \<open>ctx.Err()\<close> in a state, and the \<open>select\<close> between \<open>ctx.Done()\<close> and
  \<open>time.After(d)\<close>, which lets the outside go on and yields \<open>ctx.Err()\<close> if the context won.
\<close>

record 'w ctx =
  ctx_err :: "'w \<Rightarrow> err option"
  ctx_wait :: "duration \<Rightarrow> 'w \<Rightarrow> err option \<times> 'w"

record Options =
  MaxAttempts :: int
  BaseDelay :: duration
  MaxDelay :: duration

definition DefaultOptions :: Options where
  "DefaultOptions =
     \<lparr>MaxAttempts = 3, BaseDelay = 200 * millisecond, MaxDelay = 10 * second\<rparr>"

text \<open>
  The delay before the jitter. The code computes \<open>BaseDelay * 2^attempt\<close> in floating point,
  which is exact for base delays below 2^53 ns as long as the product is below 2^63 ns.
\<close>

definition backoff :: "Options \<Rightarrow> nat \<Rightarrow> duration" where
  "backoff opts attempt =
     (let delay = BaseDelay opts * 2 ^ attempt
      in if delay > MaxDelay opts then MaxDelay opts else delay)"

text \<open>
  \<open>rand.Float64()\<close> is \<open>k / 2^53\<close> for a random \<open>k\<close> below \<open>2^53\<close>; the jitter is the delay
  times one half plus that number, rounded down (exact arithmetic for the floating-point
  product).
\<close>

definition jitter :: "duration \<Rightarrow> int \<Rightarrow> duration" where
  "jitter delay k = delay * (2 ^ 52 + k) div 2 ^ 53"

fun do_attempts ::
  "'w ctx \<Rightarrow> Options \<Rightarrow> (nat \<Rightarrow> int) \<Rightarrow> ('w \<Rightarrow> err option \<times> 'w) \<Rightarrow>
   nat \<Rightarrow> nat \<Rightarrow> err option \<Rightarrow> 'w \<Rightarrow> err option \<times> 'w" where
  "do_attempts C opts rnd fn attempt 0 lastErr w = (lastErr, w)"
| "do_attempts C opts rnd fn attempt (Suc n) lastErr w =
     (case ctx_err C w of
        Some e \<Rightarrow> (Some e, w)
      | None \<Rightarrow>
          (case fn w of
             (None, w1) \<Rightarrow> (None, w1)
           | (Some e, w1) \<Rightarrow>
               if int attempt < MaxAttempts opts - 1
               then (case ctx_wait C (jitter (backoff opts attempt) (rnd attempt)) w1 of
                       (Some ce, w2) \<Rightarrow> (Some ce, w2)
                     | (None, w2) \<Rightarrow> do_attempts C opts rnd fn (Suc attempt) n (Some e) w2)
               else do_attempts C opts rnd fn (Suc attempt) n (Some e) w1))"

definition Do ::
  "'w ctx \<Rightarrow> Options \<Rightarrow> (nat \<Rightarrow> int) \<Rightarrow> ('w \<Rightarrow> err option \<times> 'w) \<Rightarrow> 'w \<Rightarrow> err option \<times> 'w" where
  "Do C opts rnd fn w = do_attempts C opts rnd fn 0 (nat (MaxAttempts opts)) None w"

text \<open>The function and the context with a counter of the calls next to the state.\<close>

definition counted :: "('w \<Rightarrow> err option \<times> 'w) \<Rightarrow> 'w \<times> nat \<Rightarrow> err option \<times> 'w \<times> nat" where
  "counted fn = (\<lambda>(w, n). case fn w of (r, w') \<Rightarrow> (r, w', Suc n))"

definition counted_ctx :: "'w ctx \<Rightarrow> ('w \<times> nat) ctx" where
  "counted_ctx C =
     \<lparr>ctx_err = (\<lambda>(w, n). ctx_err C w),
      ctx_wait = (\<lambda>d (w, n). case ctx_wait C d w of (r, w') \<Rightarrow> (r, w', n))\<rparr>"

text \<open>A context that is never cancelled.\<close>

definition background :: "'w ctx" where
  "background = \<lparr>ctx_err = (\<lambda>_. None), ctx_wait = (\<lambda>_ w. (None, w))\<rparr>"

section \<open>Lemmas\<close>

lemma do_attempts_SucE:
  assumes "do_attempts C opts rnd fn a (Suc n) l w = (r, w')"
  obtains (cancelled) e where "r = Some e" "w' = w"
  | (ok) "fn w = (None, w')" "r = None"
  | (waiting) e w1 d ce where "fn w = (Some e, w1)" "ctx_wait C d w1 = (Some ce, w')" "r = Some ce"
  | (again) e w1 w2 d where "fn w = (Some e, w1)" "w2 = w1 \<or> ctx_wait C d w1 = (None, w2)"
      "do_attempts C opts rnd fn (Suc a) n (Some e) w2 = (r, w')"
proof (cases "ctx_err C w")
  case None
  obtain x w1 where fn: "fn w = (x, w1)" by fastforce
  show ?thesis
  proof (cases x)
    case None
    then show ?thesis using assms fn \<open>ctx_err C w = None\<close> ok by simp
  next
    case (Some e)
    let ?d = "jitter (backoff opts a) (rnd a)"
    obtain y w2 where wait: "ctx_wait C ?d w1 = (y, w2)" by fastforce
    show ?thesis
    proof (cases "int a < MaxAttempts opts - 1")
      case True
      show ?thesis
      proof (cases y)
        case None
        then have "do_attempts C opts rnd fn (Suc a) n (Some e) w2 = (r, w')"
          using True assms fn wait Some \<open>ctx_err C w = None\<close> by simp
        then show ?thesis using again [of e w1 w2 ?d] fn Some wait None by blast
      next
        case (Some ce)
        then have "r = Some ce" "w' = w2"
          using True assms fn wait \<open>x = Some e\<close> \<open>ctx_err C w = None\<close> by simp_all
        then show ?thesis using waiting [of e w1 ?d ce] fn wait \<open>x = Some e\<close> Some by blast
      qed
    next
      case False
      then show ?thesis using assms fn Some \<open>ctx_err C w = None\<close> again [of e w1 w1] by simp
    qed
  qed
next
  case (Some e)
  then have "r = Some e" "w' = w" using assms by simp_all
  then show ?thesis by (rule cancelled)
qed

lemma do_attempts_preserves:
  assumes fn: "\<And>w r w'. fn w = (r, w') \<Longrightarrow> P w \<Longrightarrow> P w'"
    and wait: "\<And>d w r w'. ctx_wait C d w = (r, w') \<Longrightarrow> P w \<Longrightarrow> P w'"
  shows "do_attempts C opts rnd fn a n l w = (r, w') \<Longrightarrow> P w \<Longrightarrow> P w'"
proof (induction n arbitrary: a l w)
  case (Suc n)
  from Suc.prems(1) show ?case
  proof (cases rule: do_attempts_SucE)
    case again
    then show ?thesis using Suc fn wait by metis
  qed (use Suc.prems fn wait in metis)+
qed simp

lemma Do_preserves:
  assumes "\<And>w r w'. fn w = (r, w') \<Longrightarrow> P w \<Longrightarrow> P w'"
    and "\<And>d w r w'. ctx_wait C d w = (r, w') \<Longrightarrow> P w \<Longrightarrow> P w'"
  shows "P w \<Longrightarrow> P (snd (Do C opts rnd fn w))"
proof -
  assume "P w"
  obtain r w' where run: "do_attempts C opts rnd fn 0 (nat (MaxAttempts opts)) None w = (r, w')"
    by fastforce
  have "P w'"
    by (rule do_attempts_preserves [where P = P and fn = fn and C = C, OF _ _ run \<open>P w\<close>])
      (fact assms)+
  with run show ?thesis by (simp add: Do_def)
qed

lemma do_attempts_nil:
  "do_attempts C opts rnd fn a n l w = (None, w') \<Longrightarrow> l \<noteq> None \<or> 0 < n \<Longrightarrow>
   \<exists>v. fn v = (None, w')"
proof (induction n arbitrary: a l w)
  case (Suc n)
  from Suc.prems(1) show ?case
    by (cases rule: do_attempts_SucE) (auto dest: Suc.IH)
qed simp

lemma Do_nil:
  assumes "Do C opts rnd fn w = (None, w')" and "0 < MaxAttempts opts"
  shows "\<exists>v. fn v = (None, w')"
  using do_attempts_nil [of C opts rnd fn 0 "nat (MaxAttempts opts)" None w w'] assms
  by (simp add: Do_def)

text \<open>A success in a state that satisfies what every earlier failed call has preserved.\<close>

lemma do_attempts_nil_from:
  assumes "do_attempts C opts rnd fn a n l w = (None, w')" and "l \<noteq> None \<or> 0 < n"
    and "\<And>w e w'. fn w = (Some e, w') \<Longrightarrow> P w \<Longrightarrow> P w'"
    and "\<And>d w r w'. ctx_wait C d w = (r, w') \<Longrightarrow> P w \<Longrightarrow> P w'"
    and "P w"
  shows "\<exists>v. P v \<and> fn v = (None, w')"
  using assms(1,2,5)
proof (induction n arbitrary: a l w)
  case (Suc n)
  from Suc.prems(1) show ?case
  proof (cases rule: do_attempts_SucE)
    case ok
    then show ?thesis using Suc.prems(3) by blast
  next
    case (again e w1 w2 d)
    then have "P w2" using assms(3,4) Suc.prems(3) by blast
    then show ?thesis using Suc.IH again(3) by blast
  qed simp_all
qed simp

lemma Do_nil_from:
  assumes "Do C opts rnd fn w = (None, w')" and "0 < MaxAttempts opts"
    and "\<And>w e w'. fn w = (Some e, w') \<Longrightarrow> P w \<Longrightarrow> P w'"
    and "\<And>d w r w'. ctx_wait C d w = (r, w') \<Longrightarrow> P w \<Longrightarrow> P w'"
    and "P w"
  shows "\<exists>v. P v \<and> fn v = (None, w')"
  using do_attempts_nil_from [of C opts rnd fn 0 "nat (MaxAttempts opts)" None w w' P] assms
  by (simp add: Do_def)

lemma do_attempts_calls:
  "do_attempts (counted_ctx C) opts rnd (counted fn) a n l (w, k) = (r, w', k') \<Longrightarrow> k' \<le> k + n"
proof (induction n arbitrary: a l w k)
  case (Suc n)
  from Suc.prems show ?case
  proof (cases rule: do_attempts_SucE)
    case (again e w1 w2 d)
    obtain v where "w2 = (v, Suc k)"
      using again(1,2) by (auto simp: counted_def counted_ctx_def split: prod.splits)
    then show ?thesis using Suc.IH again(3) by fastforce
  qed (auto simp: counted_def counted_ctx_def split: prod.splits)
qed simp

lemma do_attempts_all_fail:
  assumes "\<And>w. \<exists>e w'. fn w = (Some e, w')"
  shows "l \<noteq> None \<or> 0 < n \<Longrightarrow>
     \<exists>e w'. do_attempts (counted_ctx background) opts rnd (counted fn) a n l (w, k) = (Some e, w', k + n)"
proof (induction n arbitrary: a l w k)
  case (Suc n)
  obtain e w1 where fn: "fn w = (Some e, w1)" using assms by blast
  from Suc.IH [of "Some e" "Suc a" w1 "Suc k"] obtain e' w' where
    "do_attempts (counted_ctx background) opts rnd (counted fn) (Suc a) n (Some e) (w1, Suc k)
      = (Some e', w', Suc k + n)" by auto
  with fn show ?case by (simp add: counted_def counted_ctx_def background_def)
qed (auto split: option.splits)

lemma do_attempts_fst_success:
  "ctx_err C w = None \<Longrightarrow> fn w = (None, w') \<Longrightarrow> 0 < n \<Longrightarrow> do_attempts C opts rnd fn a n l w = (None, w')"
  by (cases n) auto

lemma Do_fst_success:
  "ctx_err C w = None \<Longrightarrow> fn w = (None, w') \<Longrightarrow> 0 < MaxAttempts opts \<Longrightarrow>
   Do C opts rnd fn w = (None, w')"
  by (simp add: Do_def do_attempts_fst_success)

section \<open>Properties\<close>

text \<open>
  C34. Retrying calls the function at most \<open>MaxAttempts\<close> times (never for a limit that is
  not positive, in which case it reports success), and a nil error of a positive limit is
  the outcome of a call, whose state it leaves.
\<close>

theorem Do_sound:
  assumes "Do (counted_ctx C) opts rnd (counted fn) (w, 0) = (r, w', calls)"
  shows "calls \<le> nat (MaxAttempts opts)
    \<and> (MaxAttempts opts \<le> 0 \<longrightarrow> r = None \<and> w' = w)
    \<and> (r = None \<longrightarrow> 0 < MaxAttempts opts \<longrightarrow> (\<exists>v. fn v = (None, w')))"
proof (intro conjI impI)
  show "calls \<le> nat (MaxAttempts opts)"
    using do_attempts_calls [of C opts rnd fn 0 "nat (MaxAttempts opts)" None w 0 r w' calls] assms
    by (simp add: Do_def)
next
  assume "r = None" "0 < MaxAttempts opts"
  then obtain v where "counted fn v = (None, w', calls)"
    using Do_nil [of "counted_ctx C" opts rnd "counted fn" "(w, 0)" "(w', calls)"] assms by auto
  then show "\<exists>v. fn v = (None, w')" by (auto simp: counted_def split: prod.splits)
qed (use assms in \<open>auto simp: Do_def\<close>)

theorem Do_sound_witness:
  "Do (counted_ctx background) DefaultOptions (\<lambda>_. 0)
      (counted (\<lambda>n::nat. (if n < 2 then Some ''busy'' else None, Suc n))) (0, 0) = (None, 3, 3)
   \<and> (3::nat) \<le> nat (MaxAttempts DefaultOptions)"
proof -
  have run: "Do (counted_ctx background) DefaultOptions (\<lambda>_. 0)
      (counted (\<lambda>n::nat. (if n < 2 then Some ''busy'' else None, Suc n))) (0, 0) = (None, 3, 3)"
    by (simp add: Do_def DefaultOptions_def counted_def counted_ctx_def background_def
        numeral_3_eq_3 numeral_2_eq_2)
  show ?thesis using run Do_sound [OF run] by blast
qed

text \<open>
  If every call fails and the context is never cancelled, the function is called
  exactly \<open>MaxAttempts\<close> times and the result is an error.
\<close>

theorem Do_exhausts:
  assumes "\<And>w. \<exists>e w'. fn w = (Some e, w')" and "0 < MaxAttempts opts"
  shows "\<exists>e w'. Do (counted_ctx background) opts rnd (counted fn) (w, 0)
            = (Some e, w', nat (MaxAttempts opts))"
  using do_attempts_all_fail [of fn None "nat (MaxAttempts opts)" opts rnd 0 w 0] assms
  by (simp add: Do_def)

theorem Do_exhausts_witness:
  "\<exists>e w'. Do (counted_ctx background) DefaultOptions (\<lambda>_. 0)
      (counted (\<lambda>n::nat. (Some ''busy'', Suc n))) (0, 0) = (Some e, w', 3)"
  using Do_exhausts [of "\<lambda>n::nat. (Some ''busy'', Suc n)" DefaultOptions "\<lambda>_. 0" 0]
  by (simp add: DefaultOptions_def)

text \<open>
  The wait before a retry is between half and one and a half times the backoff delay,
  and the delay never exceeds \<open>MaxDelay\<close>, doubles from one attempt to the next until then,
  and starts at \<open>BaseDelay\<close> (all for \<open>0 \<le> BaseDelay \<le> MaxDelay\<close> and any random draw).
\<close>

theorem backoff_bounds:
  assumes "0 \<le> BaseDelay opts" "BaseDelay opts \<le> MaxDelay opts" "0 \<le> k" "k < 2 ^ 53"
  shows "backoff opts 0 = BaseDelay opts
    \<and> backoff opts (Suc a) = min (2 * backoff opts a) (MaxDelay opts)
    \<and> backoff opts a div 2 \<le> jitter (backoff opts a) k
    \<and> 2 * jitter (backoff opts a) k \<le> 3 * backoff opts a"
proof (intro conjI)
  show "backoff opts 0 = BaseDelay opts" using assms by (simp add: backoff_def)
  have pos: "0 \<le> BaseDelay opts * 2 ^ a" using assms by simp
  show "backoff opts (Suc a) = min (2 * backoff opts a) (MaxDelay opts)"
    using pos assms by (auto simp: backoff_def Let_def min_def)
  let ?d = "backoff opts a"
  have d: "0 \<le> ?d" using pos assms by (simp add: backoff_def Let_def)
  have "?d * 2 ^ 52 div 2 ^ 53 \<le> ?d * (2 ^ 52 + k) div 2 ^ 53"
    using d assms by (intro zdiv_mono1 mult_left_mono) auto
  moreover have "?d * 2 ^ 52 div 2 ^ 53 = ?d div 2"
    using div_mult_mult2 [of "2 ^ 52 :: int" ?d 2] by simp
  ultimately show "?d div 2 \<le> jitter ?d k" by (simp add: jitter_def)
  have "jitter ?d k * 2 ^ 53 \<le> ?d * (2 ^ 52 + k)"
    unfolding jitter_def using div_mult_mod_eq [of "?d * (2 ^ 52 + k)" "2 ^ 53"]
      pos_mod_sign [of "2 ^ 53" "?d * (2 ^ 52 + k)"] by simp
  also have "\<dots> \<le> ?d * (2 ^ 52 + 2 ^ 53)" using d assms by (intro mult_left_mono) auto
  also have "\<dots> = 3 * ?d * 2 ^ 52" by simp
  finally show "2 * jitter ?d k \<le> 3 * ?d" by simp
qed

theorem backoff_bounds_witness:
  "backoff DefaultOptions 1 = 400000000
   \<and> 200000000 \<le> jitter 400000000 (2 ^ 52) \<and> 2 * jitter 400000000 (2 ^ 52) \<le> 1200000000"
proof -
  have b: "backoff DefaultOptions 1 = 400000000"
    by (simp add: backoff_def DefaultOptions_def millisecond_def second_def)
  have "0 \<le> BaseDelay DefaultOptions" "BaseDelay DefaultOptions \<le> MaxDelay DefaultOptions"
    by (simp_all add: DefaultOptions_def millisecond_def second_def)
  from backoff_bounds [OF this, of "2 ^ 52" 1] b show ?thesis by simp
qed

end
