(* ===== verification/Flusher.thy ===== *)
theory Flusher
  imports Index Retry
begin

text \<open>
  \<open>internal/ingester/s3_flusher.go\<close>: a chunk is put with retries, then its index record is
  written once, best effort. The interface \<open>flusher\<close> is what the buffer relies on; the S3
  flusher meets it on every object store. The facts: a nil error means that the chunk is
  stored, and on a store that works the index record is stored too.
\<close>

section \<open>Operations\<close>

record S3Flusher =
  fl_client :: S3Client
  fl_indexStore :: "Store option"

definition NewS3Flusher :: "S3Client \<Rightarrow> Store option \<Rightarrow> S3Flusher" where
  "NewS3Flusher c ixs = \<lparr>fl_client = c, fl_indexStore = ixs\<rparr>"

text \<open>The index record that \<open>Flush\<close> builds from a chunk.\<close>

definition chunk_index :: "Chunk \<Rightarrow> ChunkIndex" where
  "chunk_index chunk =
     \<lparr>ix_ChunkKey = ck_Key chunk, ix_Service = ck_Service chunk, ix_MinTime = ck_MinTime chunk,
      ix_MaxTime = ck_MaxTime chunk, ix_LabelSets = ck_LabelSets chunk,
      ix_EntryCount = ck_EntryCount chunk, ix_SizeBytes = ck_SizeBytes chunk,
      ix_Compression = ck_Compression chunk\<rparr>"

text \<open>The function that \<open>Flush\<close> passes to \<open>retry.Do\<close>.\<close>

definition flush_put :: "'s s3api \<Rightarrow> S3Flusher \<Rightarrow> Chunk \<Rightarrow> bytes \<Rightarrow> 's world \<Rightarrow> err option \<times> 's world" where
  "flush_put api f chunk compressed w =
     (case PutObject api (fl_client f) (ck_Key chunk) compressed w of
        (Inl e, w') \<Rightarrow> (Some e, w')
      | (Inr _, w') \<Rightarrow> (None, w'))"

text \<open>\<open>C\<close> is the context with the timeout of 60 seconds, \<open>rnd\<close> the draws of the jitter.\<close>

definition Flush ::
  "env \<Rightarrow> 's s3api \<Rightarrow> 's world ctx \<Rightarrow> (nat \<Rightarrow> int) \<Rightarrow> S3Flusher \<Rightarrow> Chunk \<Rightarrow> bytes \<Rightarrow> 's world \<Rightarrow>
   err option \<times> 's world" where
  "Flush E api C rnd f chunk compressed w =
     (case Do C DefaultOptions rnd (flush_put api f chunk compressed) w of
        (Some e, w1) \<Rightarrow> (Some e, w1)
      | (None, w1) \<Rightarrow>
          (case fl_indexStore f of
             None \<Rightarrow> (None, w1)
           | Some st \<Rightarrow> (case Write E api st (chunk_index chunk) w1 of (_, w2) \<Rightarrow> (None, w2))))"

section \<open>Interfaces\<close>

text \<open>
  What the buffer relies on: after a flush that reports no error the chunk is stored, and no
  flush removes a chunk stored under another key. \<open>stored w k\<close> is the chunk object with key
  \<open>k\<close>, for keys that are chunk keys.
\<close>

definition is_chunk_key :: "string \<Rightarrow> bool" where
  "is_chunk_key k \<longleftrightarrow> HasSuffix k ''.gz'' \<or> HasSuffix k ''.sz''"

locale flusher =
  fixes flush :: "Chunk \<Rightarrow> bytes \<Rightarrow> 's world \<Rightarrow> err option \<times> 's world"
    and stored :: "'s world \<Rightarrow> string \<rightharpoonup> bytes"
  assumes flush_nil: "is_chunk_key (ck_Key ck) \<Longrightarrow> flush ck z w = (None, w') \<Longrightarrow>
        stored w' (ck_Key ck) = Some z"
    and flush_keeps: "is_chunk_key k \<Longrightarrow> k \<noteq> ck_Key ck \<Longrightarrow> stored w k = Some d \<Longrightarrow>
        stored (snd (flush ck z w)) k = Some d"
    and stored_ext: "ext w = ext w' \<Longrightarrow> stored w = stored w'"

text \<open>
  The store together with a context under which other writers may act while the flusher
  waits between attempts, as long as they remove nothing.
\<close>

locale waiting_store = object_store api obj
  for api :: "'s s3api" and obj :: "'s \<Rightarrow> string \<Rightarrow> string \<rightharpoonup> bytes" +
  fixes C :: "'s world ctx"
  assumes wait_keeps: "ctx_wait C d w = (r, w') \<Longrightarrow> obj (ext w) b k = Some x \<Longrightarrow>
        obj (ext w') b k = Some x"

text \<open>The object of a chunk key in a client's bucket.\<close>

definition chunk_object ::
  "('s \<Rightarrow> string \<Rightarrow> string \<rightharpoonup> bytes) \<Rightarrow> S3Client \<Rightarrow> 's world \<Rightarrow> string \<rightharpoonup> bytes" where
  "chunk_object obj c w k = objects obj c w (s3_prefix c @ k)"

section \<open>Lemmas\<close>

lemma chunkKey_is_chunk_key [simp]: "is_chunk_key (chunkKey service t uid algo)"
  by (auto simp: is_chunk_key_def chunkKey_def FileExtension_def HasSuffix_iff)

lemma is_chunk_key_append: "is_chunk_key k \<Longrightarrow> is_chunk_key (p @ k)"
  by (auto simp: is_chunk_key_def HasSuffix_iff)

lemma indexKey_not_chunk_key: "\<not> is_chunk_key (indexKey p k)"
proof -
  have "\<exists>t. indexKey p k = t @ ''.json''" by (simp add: indexKey_def Let_def)
  then show ?thesis by (auto simp: is_chunk_key_def HasSuffix_iff)
qed

context object_store
begin

lemma Write_keeps:
  assumes "Write E api st ix w = (r, w')" "is_chunk_key k" "obj (ext w) b k = Some x"
  shows "obj (ext w') b k = Some x"
proof (cases "marshalIndex E ix")
  case (Inr data)
  then have "PutObjectRaw api (st_s3 st) (indexKey (st_prefix st) (ix_ChunkKey ix)) data w = (r, w')"
    using assms(1) by (simp add: Write_def)
  then show ?thesis by (rule PutObjectRaw_keeps) (use assms indexKey_not_chunk_key in auto)
qed (use assms in \<open>simp add: Write_def\<close>)

lemma flush_put_nil:
  "flush_put api f ck z w = (None, w') \<Longrightarrow>
   objects obj (fl_client f) w' (s3_prefix (fl_client f) @ ck_Key ck) = Some z"
  by (auto simp: flush_put_def PutObject_ok split: prod.splits sum.splits)

lemma flush_put_keeps:
  "flush_put api f ck z w = (r, w') \<Longrightarrow>
   (b, k) \<noteq> (s3_bucket (fl_client f), s3_prefix (fl_client f) @ ck_Key ck) \<Longrightarrow>
   obj (ext w) b k = Some x \<Longrightarrow> obj (ext w') b k = Some x"
  by (auto simp: flush_put_def split: prod.splits sum.splits dest: PutObject_keeps)

lemma Flush_nil:
  assumes "Flush E api C rnd f ck z w = (None, w')" "is_chunk_key (ck_Key ck)"
  shows "objects obj (fl_client f) w' (s3_prefix (fl_client f) @ ck_Key ck) = Some z"
proof -
  obtain w1 where d: "Do C DefaultOptions rnd (flush_put api f ck z) w = (None, w1)"
    using assms(1) by (auto simp: Flush_def split: prod.splits option.splits)
  then obtain v where "flush_put api f ck z v = (None, w1)"
    using Do_nil [OF d] by (auto simp: DefaultOptions_def)
  then have s: "objects obj (fl_client f) w1 (s3_prefix (fl_client f) @ ck_Key ck) = Some z"
    by (rule flush_put_nil)
  show ?thesis
  proof (cases "fl_indexStore f")
    case None
    then show ?thesis using assms(1) d s by (simp add: Flush_def)
  next
    case (Some st)
    obtain r w2 where wr: "Write E api st (chunk_index ck) w1 = (r, w2)" by fastforce
    then have "w' = w2" using assms(1) d Some by (simp add: Flush_def)
    then show ?thesis
      using Write_keeps [OF wr is_chunk_key_append [OF assms(2)]] s by (simp add: objects_def)
  qed
qed

end

context waiting_store
begin

lemma Flush_keeps:
  assumes "is_chunk_key k" "(b, k) \<noteq> (s3_bucket (fl_client f), s3_prefix (fl_client f) @ ck_Key ck)"
    and "obj (ext w) b k = Some x"
  shows "obj (ext (snd (Flush E api C rnd f ck z w))) b k = Some x"
proof -
  obtain r w1 where d: "Do C DefaultOptions rnd (flush_put api f ck z) w = (r, w1)" by fastforce
  have "obj (ext (snd (Do C DefaultOptions rnd (flush_put api f ck z) w))) b k = Some x"
    by (rule Do_preserves [where P = "\<lambda>w. obj (ext w) b k = Some x"])
      (use assms flush_put_keeps wait_keeps in blast)+
  then have "obj (ext w1) b k = Some x" using d by simp
  then show ?thesis
    using d Write_keeps [OF _ assms(1)]
    by (auto simp: Flush_def split: option.splits prod.splits)
qed

text \<open>The S3 flusher meets the interface of the buffer.\<close>

lemma Flush_flusher: "flusher (Flush E api C rnd f) (chunk_object obj (fl_client f))"
proof
  show "chunk_object obj (fl_client f) w' (ck_Key ck) = Some z"
    if "is_chunk_key (ck_Key ck)" "Flush E api C rnd f ck z w = (None, w')" for ck z w w'
    using Flush_nil [OF that(2,1)] by (simp add: chunk_object_def)
  show "chunk_object obj (fl_client f) (snd (Flush E api C rnd f ck z w)) k = Some d"
    if "is_chunk_key k" "k \<noteq> ck_Key ck" "chunk_object obj (fl_client f) w k = Some d" for k ck w d z
    using Flush_keeps [of "s3_prefix (fl_client f) @ k" "s3_bucket (fl_client f)" f ck w d E rnd z] that
    by (simp add: chunk_object_def objects_def is_chunk_key_append)
qed (auto simp: chunk_object_def objects_def)

end

sublocale waiting_store \<subseteq> s3: flusher "Flush E api C rnd f" "chunk_object obj (fl_client f)" for E rnd f
  by (rule Flush_flusher)

interpretation mem_wait: waiting_store mem_api mem_obj background
  by unfold_locales (simp add: background_def)

lemma Flush_reliable:
  assumes "reliable_store api obj" "codec E" "index_safe (chunk_index ck)"
    and "ctx_err C w = None" "fl_indexStore f = Some st" "is_chunk_key (ck_Key ck)"
  shows "\<exists>w' data. Flush E api C rnd f ck z w = (None, w')
    \<and> objects obj (fl_client f) w' (s3_prefix (fl_client f) @ ck_Key ck) = Some z
    \<and> objects obj (st_s3 st) w' (indexKey (st_prefix st) (ck_Key ck)) = Some data
    \<and> unmarshalIndex E data = Some (chunk_index ck)"
proof -
  note os = reliable_store.axioms(1) [OF assms(1)]
  obtain w1 where put: "PutObject api (fl_client f) (ck_Key ck) z w = (Inr (int (length z)), w1)"
    using reliable_store.PutObject_total [OF assms(1)] by blast
  then have d: "Do C DefaultOptions rnd (flush_put api f ck z) w = (None, w1)"
    using assms(4) by (intro Do_fst_success) (simp_all add: flush_put_def DefaultOptions_def)
  obtain data where data: "marshalIndex E (chunk_index ck) = Inr data"
    "unmarshalIndex E data = Some (chunk_index ck)"
    using codec.index_roundtrip [OF assms(2,3)] by blast
  let ?k = "indexKey (st_prefix st) (ck_Key ck)"
  obtain w2 where w2: "PutObjectRaw api (st_s3 st) ?k data w1 = (None, w2)"
    using reliable_store.PutObjectRaw_total [OF assms(1)] by (metis prod.collapse)
  then have "Flush E api C rnd f ck z w = (None, w2)"
    using d data(1) assms(5) by (simp add: Flush_def Write_def chunk_index_def)
  moreover have "objects obj (st_s3 st) w2 ?k = Some data"
    using object_store.PutObjectRaw_ok [OF os w2] by simp
  ultimately show ?thesis
    using object_store.Flush_nil [OF os _ assms(6)] data(2) by blast
qed

section \<open>Properties\<close>

text \<open>
  A flush that reports no error has stored the chunk, whatever failed on the way (some
  attempts, or the write of the index record), and no flush touches a chunk that is stored
  under another key.
\<close>

theorem flush_nil_stored:
  assumes "waiting_store api obj C" "is_chunk_key (ck_Key ck)"
    and "Flush E api C rnd f ck z w = (er, w')"
  shows "(er = None \<longrightarrow> objects obj (fl_client f) w' (s3_prefix (fl_client f) @ ck_Key ck) = Some z)
    \<and> (\<forall>k d. is_chunk_key k \<and> k \<noteq> ck_Key ck
        \<and> objects obj (fl_client f) w (s3_prefix (fl_client f) @ k) = Some d
        \<longrightarrow> objects obj (fl_client f) w' (s3_prefix (fl_client f) @ k) = Some d)"
proof -
  note fl = waiting_store.Flush_flusher [OF assms(1), of E rnd f]
  show ?thesis
    using flusher.flush_nil [OF fl assms(2)] flusher.flush_keeps [OF fl, of _ ck w _ z] assms(3)
    by (auto simp: chunk_object_def)
qed

text \<open>
  On a store whose calls do not fail and within the timeout, a flush succeeds, stores the
  chunk and stores an index record that reads back as the chunk's key, service, time range,
  label sets, count, size and compression.
\<close>

theorem flush_stores_index:
  assumes "reliable_store api obj" "codec E" "index_safe (chunk_index ck)"
    and "ctx_err C w = None" "is_chunk_key (ck_Key ck)"
  shows "\<exists>w' data. Flush E api C rnd (NewS3Flusher c (Some st)) ck z w = (None, w')
    \<and> objects obj c w' (s3_prefix c @ ck_Key ck) = Some z
    \<and> objects obj (st_s3 st) w' (indexKey (st_prefix st) (ck_Key ck)) = Some data
    \<and> unmarshalIndex E data =
        Some \<lparr>ix_ChunkKey = ck_Key ck, ix_Service = ck_Service ck, ix_MinTime = ck_MinTime ck,
          ix_MaxTime = ck_MaxTime ck, ix_LabelSets = ck_LabelSets ck, ix_EntryCount = ck_EntryCount ck,
          ix_SizeBytes = ck_SizeBytes ck, ix_Compression = ck_Compression ck\<rparr>"
  using Flush_reliable [OF assms(1-4) _ assms(5), of "NewS3Flusher c (Some st)" st rnd z]
  by (simp add: NewS3Flusher_def chunk_index_def)

section \<open>Witnesses\<close>

definition wit_chunk :: Chunk where
  "wit_chunk =
     \<lparr>ck_Key = ix_ChunkKey wit_index, ck_Service = ix_Service wit_index, ck_MinTime = ix_MinTime wit_index,
      ck_MaxTime = ix_MaxTime wit_index, ck_EntryCount = 2, ck_SizeBytes = 40,
      ck_Compression = ''gzip'', ck_LabelSets = ix_LabelSets wit_index\<rparr>"

definition wit_flusher :: S3Flusher where
  "wit_flusher = NewS3Flusher wit_client (Some wit_store)"

lemma wit_chunk_ok:
  "is_chunk_key (ck_Key wit_chunk)" "chunk_index wit_chunk = wit_index" "index_safe (chunk_index wit_chunk)"
proof -
  show "chunk_index wit_chunk = wit_index" by (simp add: chunk_index_def wit_chunk_def wit_index_def)
  then show "index_safe (chunk_index wit_chunk)" by (simp add: wit_index_safe)
qed (simp add: wit_chunk_def wit_index_def)

theorem flush_nil_stored_witness:
  "\<exists>w'. Flush ref_env mem_api background (\<lambda>_. 0) wit_flusher wit_chunk ''data'' wit_world = (None, w')
     \<and> objects mem_obj wit_client w' (''raw_logs/'' @ ck_Key wit_chunk) = Some ''data''"
proof -
  have "ctx_err background wit_world = None" by (simp add: background_def)
  then obtain w' where
    r: "Flush ref_env mem_api background (\<lambda>_. 0) wit_flusher wit_chunk ''data'' wit_world = (None, w')"
    using Flush_reliable [OF mem_reliable ref_codec wit_chunk_ok(3) _ _ wit_chunk_ok(1),
        of background wit_world wit_flusher wit_store "\<lambda>_. 0" "''data''"]
    by (auto simp: wit_flusher_def NewS3Flusher_def)
  from flush_nil_stored [OF mem_wait.waiting_store_axioms wit_chunk_ok(1) r] r
  show ?thesis by (simp add: wit_flusher_def NewS3Flusher_def wit_client_def)
qed

theorem flush_stores_index_witness:
  "\<exists>w' data. Flush ref_env mem_api background (\<lambda>_. 0) (NewS3Flusher wit_client (Some wit_store)) wit_chunk
       ''data'' wit_world = (None, w')
     \<and> objects mem_obj (st_s3 wit_store) w' (indexKey (st_prefix wit_store) (ck_Key wit_chunk)) = Some data"
  using flush_stores_index [OF mem_reliable ref_codec wit_chunk_ok(3) _ wit_chunk_ok(1),
      of background wit_world "\<lambda>_. 0" wit_client wit_store "''data''"]
  by (auto simp: background_def)

end
