(* ===== verification/Wal.thy ===== *)
theory Wal
  imports RefEnv
begin

text \<open>
  \<open>internal/ingester/wal.go\<close>: the write-ahead log, a file of newline-delimited JSON. Every
  call of the operating system can fail; the failures of one operation are a parameter of
  its model, a torn write among them. The facts: what has been appended is what recovery
  returns, a torn last line costs at most that line, a write error disables the log until it
  is reset, and a line that the scanner cannot hold makes recovery return nothing.
\<close>

section \<open>State\<close>

text \<open>
  The file: its contents and whether the handle is open. Writes go to the end of the file
  (\<open>O_APPEND\<close>), so the file position matters to no operation. The encoder keeps the first
  write error it meets (\<open>json.Encoder\<close>).
\<close>

record WAL =
  w_file :: bytes
  w_open :: bool
  w_enc :: "err option"
  w_n :: int

text \<open>
  The failures of one operation: a write that stops after some bytes, and errors of \<open>Sync\<close>,
  \<open>Truncate\<close>, the two kinds of \<open>Seek\<close>, and of reading.
\<close>

record io_fault =
  f_write :: "(nat \<times> err) option"
  f_sync :: "err option"
  f_trunc :: "err option"
  f_seek :: "err option"
  f_seek_end :: "err option"
  f_read :: "err option"

definition no_fault :: io_fault where
  "no_fault = \<lparr>f_write = None, f_sync = None, f_trunc = None, f_seek = None, f_seek_end = None,
    f_read = None\<rparr>"

definition err_closed :: err where
  "err_closed = ''file already closed''"

definition guard_open :: "WAL \<Rightarrow> err option \<Rightarrow> err option" where
  "guard_open w f = (if w_open w then f else Some err_closed)"

section \<open>Operations\<close>

text \<open>
  \<open>OpenWAL\<close>: errors of \<open>MkdirAll\<close> and \<open>OpenFile\<close>, and the contents found on disk (empty if
  the file is created).
\<close>

definition path_join :: "string \<Rightarrow> string \<Rightarrow> string" where
  "path_join a b = (if a = '''' then path_clean b else path_clean (a @ ''/'' @ b))"

definition OpenWAL :: "string \<Rightarrow> err option \<Rightarrow> err option \<Rightarrow> bytes \<Rightarrow> WAL result" where
  "OpenWAL dir mkdir_err open_err contents =
     (case mkdir_err of
        Some e \<Rightarrow> Inl (''wal mkdir '' @ dir @ '': '' @ e)
      | None \<Rightarrow>
          (case open_err of
             Some e \<Rightarrow> Inl (''wal open '' @ path_join dir ''wal.ndjson'' @ '': '' @ e)
           | None \<Rightarrow> Inr \<lparr>w_file = contents, w_open = True, w_enc = None, w_n = 0\<rparr>))"

text \<open>\<open>w.enc.Encode(entry)\<close>\<close>

definition enc_encode :: "env \<Rightarrow> io_fault \<Rightarrow> WAL \<Rightarrow> LogEntry \<Rightarrow> err option \<times> WAL" where
  "enc_encode E f w e =
     (case w_enc w of
        Some er \<Rightarrow> (Some er, w)
      | None \<Rightarrow>
          (case marshalEntry E e of
             Inl er \<Rightarrow> (Some er, w)
           | Inr s \<Rightarrow>
               if \<not> w_open w then (Some err_closed, w\<lparr>w_enc := Some err_closed\<rparr>)
               else (case f_write f of
                       Some (k, er) \<Rightarrow>
                         (Some er, w\<lparr>w_file := w_file w @ take k (s @ [newline]), w_enc := Some er\<rparr>)
                     | None \<Rightarrow> (None, w\<lparr>w_file := w_file w @ s @ [newline]\<rparr>))))"

definition Append ::
  "env \<Rightarrow> io_fault \<Rightarrow> LogEntry \<Rightarrow> WAL \<Rightarrow> metrics \<Rightarrow> err option \<times> WAL \<times> metrics" where
  "Append E f e w m =
     (case enc_encode E f w e of
        (Some er, w') \<Rightarrow> (Some (''wal encode: '' @ er), w', m)
      | (None, w') \<Rightarrow>
          (case guard_open w' (f_sync f) of
             Some er \<Rightarrow> (Some (''wal sync: '' @ er), w', m)
           | None \<Rightarrow> (None, w'\<lparr>w_n := w_n w' + 1\<rparr>, m\<lparr>WALEntries := w_n w' + 1\<rparr>)))"

definition Reset :: "io_fault \<Rightarrow> WAL \<Rightarrow> metrics \<Rightarrow> err option \<times> WAL \<times> metrics" where
  "Reset f w m =
     (case guard_open w (f_trunc f) of
        Some er \<Rightarrow> (Some (''wal truncate: '' @ er), w, m)
      | None \<Rightarrow>
          (let w' = w\<lparr>w_file := []\<rparr>
           in case guard_open w' (f_seek f) of
                Some er \<Rightarrow> (Some (''wal seek: '' @ er), w', m)
              | None \<Rightarrow> (None, w'\<lparr>w_enc := None, w_n := 0\<rparr>, m\<lparr>WALEntries := 0\<rparr>)))"

definition Recover ::
  "env \<Rightarrow> io_fault \<Rightarrow> WAL \<Rightarrow> metrics \<Rightarrow> LogEntry list result \<times> WAL \<times> metrics" where
  "Recover E f w m =
     (case guard_open w (f_seek f) of
        Some er \<Rightarrow> (Inl (''wal seek: '' @ er), w, m)
      | None \<Rightarrow>
          (let (ts, serr) = scanner (w_file w) (f_read f); entries = decode_lines E ts
           in case serr of
                Some er \<Rightarrow> (Inl (''wal scan: '' @ er), w, m)
              | None \<Rightarrow>
                  (let m = (if entries \<noteq> []
                            then m\<lparr>WALRecovered := WALRecovered m + int (length entries)\<rparr> else m)
                   in case f_seek_end f of
                        Some er \<Rightarrow> (Inl (''wal seek end: '' @ er), w, m)
                      | None \<Rightarrow> (Inr entries, w\<lparr>w_n := int (length entries)\<rparr>,
                                 m\<lparr>WALEntries := int (length entries)\<rparr>))))"

definition Close :: "err option \<Rightarrow> WAL \<Rightarrow> err option \<times> WAL" where
  "Close close_err w = (guard_open w close_err, w\<lparr>w_open := False\<rparr>)"

text \<open>A sequence of appends without failures.\<close>

fun append_all :: "env \<Rightarrow> LogEntry list \<Rightarrow> WAL \<Rightarrow> metrics \<Rightarrow> WAL \<times> metrics" where
  "append_all E [] w m = (w, m)"
| "append_all E (e # es) w m = (case Append E no_fault e w m of (r, w', m') \<Rightarrow> append_all E es w' m')"

section \<open>The log as a list of entries\<close>

text \<open>
  What the file of a healthy log stands for: the entries appended since it was last empty.
\<close>

definition wal_holds :: "env \<Rightarrow> WAL \<Rightarrow> LogEntry list \<Rightarrow> bool" where
  "wal_holds E w es \<longleftrightarrow> w_file w = ndjson E es \<and> (\<forall>e \<in> set es. fits E e)
     \<and> w_open w \<and> w_enc w = None"

lemma no_fault_sel [simp]:
  "f_write no_fault = None" "f_sync no_fault = None" "f_trunc no_fault = None"
  "f_seek no_fault = None" "f_seek_end no_fault = None" "f_read no_fault = None"
  by (simp_all add: no_fault_def)

context codec
begin

lemma Append_holds:
  assumes "wal_holds E w es" "fits E e" "f_write f = None"
  obtains w' r m' where "Append E f e w m = (r, w', m')" "wal_holds E w' (es @ [e])"
    "r = None \<longleftrightarrow> f_sync f = None" "w_n w' = (if f_sync f = None then w_n w + 1 else w_n w)"
proof -
  have e: "marshalEntry E e = Inr (jline E e)" using assms(2) jline by (simp add: fits_def)
  let ?w = "w\<lparr>w_file := w_file w @ jline E e @ [newline]\<rparr>"
  have enc: "enc_encode E f w e = (None, ?w)"
    using assms e by (simp add: enc_encode_def wal_holds_def)
  have holds: "wal_holds E ?w (es @ [e])" "wal_holds E (?w\<lparr>w_n := n\<rparr>) (es @ [e])" for n
    using assms by (auto simp: wal_holds_def ndjson_def)
  show ?thesis
  proof (cases "f_sync f")
    case None
    have "Append E f e w m = (None, ?w\<lparr>w_n := w_n w + 1\<rparr>, m\<lparr>WALEntries := w_n w + 1\<rparr>)"
      using enc None assms(1) by (simp add: Append_def guard_open_def wal_holds_def)
    then show ?thesis by (rule that) (use holds None in auto)
  next
    case (Some er)
    have "Append E f e w m = (Some (''wal sync: '' @ er), ?w, m)"
      using enc Some assms(1) by (simp add: Append_def guard_open_def wal_holds_def)
    then show ?thesis by (rule that) (use holds Some in auto)
  qed
qed

lemma append_all_holds:
  assumes "wal_holds E w es" "\<forall>e \<in> set fs. fits E e"
  shows "wal_holds E (fst (append_all E fs w m)) (es @ fs)
    \<and> w_n (fst (append_all E fs w m)) = w_n w + int (length fs)"
  using assms
proof (induction fs arbitrary: w m es)
  case (Cons e fs)
  obtain w' r m' where a: "Append E no_fault e w m = (r, w', m')" "wal_holds E w' (es @ [e])"
      "w_n w' = w_n w + 1"
    by (rule Append_holds [of w es e no_fault m]) (use Cons.prems in auto)
  then show ?case using Cons.IH [of w' "es @ [e]" m'] Cons.prems by simp
qed simp

lemma Recover_holds:
  assumes "wal_holds E w es"
  shows "Recover E no_fault w m =
    (Inr es, w\<lparr>w_n := int (length es)\<rparr>,
     m\<lparr>WALRecovered := WALRecovered m + int (length es), WALEntries := int (length es)\<rparr>)"
proof -
  have "scanner (w_file w) None = (map (jline E) es, None)"
    "decode_lines E (map (jline E) es) = es"
    using assms scanner_ndjson decode_lines_ok by (auto simp: wal_holds_def fits_def)
  then show ?thesis
    using assms by (simp add: Recover_def guard_open_def wal_holds_def Let_def)
qed

text \<open>A last line that was cut off: the lines before it survive.\<close>

lemma Recover_torn:
  assumes es: "\<forall>e \<in> set es. fits E e" and w: "w_open w" and e: "fits E e"
    and contents: "w_file w = ndjson E es @ take k (jline E e @ [newline])"
  shows "\<exists>tl. length tl \<le> 1 \<and> fst (Recover E no_fault w m) = Inr (es @ tl)
     \<and> (length (jline E e) < k \<longrightarrow> tl = [e])"
proof -
  let ?t = "take k (jline E e @ [newline])"
  have safe: "\<forall>e \<in> set es. entry_safe e" "entry_safe e" using es e by (simp_all add: fits_def)
  obtain ls where ls: "cut_lines ?t = ls" "length ls \<le> 1"
      "\<forall>l \<in> set ls. length l < max_token \<and> carriage_return \<notin> set l"
      "length (jline E e) < k \<longrightarrow> ls = [jline E e]"
  proof (cases "length (jline E e) < k")
    case True
    then have "cut_lines ?t = [jline E e]" using jline [OF safe(2)] cut_lines_line [of "jline E e" "[]"] by simp
    then show ?thesis using that [of "[jline E e]"] jline [OF safe(2)] e by (simp add: fits_def)
  next
    case False
    then have t: "?t = take k (jline E e)" by simp
    have "set ?t \<subseteq> set (jline E e)" unfolding t by (rule set_take_subset)
    then have "newline \<notin> set ?t" "carriage_return \<notin> set ?t" "length ?t < max_token"
      using jline [OF safe(2)] e False by (auto simp: fits_def)
    then show ?thesis using that [of "if ?t = [] then [] else [?t]"] cut_lines_last [of ?t] False by auto
  qed
  have "cut_lines (w_file w) = map (jline E) es @ ls"
    using contents ndjson_lines [OF safe(1), of ?t] ls(1) by simp
  moreover have "\<forall>l \<in> set (map (jline E) es). length l < max_token \<and> carriage_return \<notin> set l"
    using es jline safe by (auto simp: fits_def)
  ultimately have scan: "scanner (w_file w) None = (map (jline E) es @ ls, None)"
    using ls(3) by (simp add: scanner_def scan_lines_append_ok scan_lines_ok)
  have dec: "decode_lines E (map (jline E) es @ ls) = es @ decode_lines E ls"
    using decode_lines_ok [OF safe(1)] by (simp add: decode_lines_def List.map_filter_def)
  have "length (decode_lines E ls) \<le> length ls" "ls = [jline E e] \<longrightarrow> decode_lines E ls = [e]"
    using jline [OF safe(2)] by (auto simp: decode_lines_def List.map_filter_def)
  then show ?thesis
    using w scan dec ls(2,4)
    by (intro exI [of _ "decode_lines E ls"]) (auto simp: Recover_def guard_open_def Let_def)
qed

end

section \<open>Failures\<close>

lemma Append_sticky:
  "w_enc w = Some er \<Longrightarrow> Append E f e w m = (Some (''wal encode: '' @ er), w, m)"
  by (simp add: Append_def enc_encode_def)

lemma Append_write_error:
  assumes "Append E f e w m = (r, w', m')" "f_write f = Some (k, er)" "w_enc w = None" "w_open w"
    "marshalEntry E e = Inr s"
  shows "r = Some (''wal encode: '' @ er) \<and> w_enc w' = Some er
    \<and> w_file w' = w_file w @ take k (s @ [newline])"
  using assms by (auto simp: Append_def enc_encode_def)

lemma Reset_ok:
  assumes "w_open w"
  shows "Reset no_fault w m = (None, w\<lparr>w_file := [], w_enc := None, w_n := 0\<rparr>, m\<lparr>WALEntries := 0\<rparr>)"
  using assms by (simp add: Reset_def guard_open_def)

lemma wal_holds_Reset:
  "w_open w \<Longrightarrow> Reset no_fault w m = (r, w', m') \<Longrightarrow> wal_holds E w' []"
  by (auto simp: Reset_ok wal_holds_def)

section \<open>Properties\<close>

text \<open>
  C31. Recovery returns what was appended: after any sequence of appends to a log that was
  opened empty or reset, closing it and opening it again, \<open>Recover\<close> returns exactly the
  appended entries in order, and counts them.
\<close>

theorem append_recover:
  assumes "codec E" "\<forall>e \<in> set es. fits E e"
    and "OpenWAL dir None None [] = Inr w" and "append_all E es w m = (w1, m1)"
    and "OpenWAL dir None None (w_file (snd (Close ce w1))) = Inr w2"
  shows "\<exists>w3 m3. Recover E no_fault w2 m2 = (Inr es, w3, m3) \<and> w_n w3 = int (length es)
    \<and> WALRecovered m3 = WALRecovered m2 + int (length es)"
proof -
  have "wal_holds E w []" using assms(3) by (auto simp: OpenWAL_def wal_holds_def)
  then have "wal_holds E w1 es"
    using codec.append_all_holds [OF assms(1) _ assms(2), of w "[]" m] assms(4) by simp
  then have "wal_holds E w2 es"
    using assms(5) by (auto simp: OpenWAL_def wal_holds_def Close_def)
  from codec.Recover_holds [OF assms(1) this] show ?thesis by simp
qed

text \<open>
  A crash in the middle of an append costs at most the entry being written: if the file
  ends in the first bytes of a line, recovery returns all entries before it, and the cut
  entry itself as soon as its whole line has been written.
\<close>

theorem torn_append_recover:
  assumes "codec E" "\<forall>x \<in> set es. fits E x" "fits E e" "wal_holds E w es"
    and "Append E (no_fault\<lparr>f_write := Some (k, er)\<rparr>) e w m = (r, w', m')"
  shows "\<exists>tl. length tl \<le> 1 \<and> fst (Recover E no_fault w' m'') = Inr (es @ tl)
     \<and> (length (jline E e) < k \<longrightarrow> tl = [e])"
proof -
  have "marshalEntry E e = Inr (jline E e)"
    using codec.jline(1) [OF assms(1)] assms(3) by (simp add: fits_def)
  then have "w_file w' = w_file w @ take k (jline E e @ [newline])" "w_open w'"
    using assms(4,5) by (auto simp: Append_def enc_encode_def wal_holds_def)
  then show ?thesis
    using codec.Recover_torn [OF assms(1,2) _ assms(3)] assms(4) by (simp add: wal_holds_def)
qed

text \<open>
  C33. One oversized line loses the whole log: if the file holds a line of \<open>max_token\<close> bytes
  (1 MiB) or more, recovery fails whatever else the file holds, so that the entries before and
  after the line are not replayed either. Nothing keeps \<open>Append\<close> from writing such a line.
\<close>

theorem oversized_line_loses_log:
  assumes "w_open w" "l \<in> set (cut_lines (w_file w))" "max_token \<le> length l"
  shows "\<exists>er. Recover E no_fault w m = (Inl (''wal scan: '' @ er), w, m)"
proof -
  have "snd (scanner (w_file w) None) \<noteq> None"
    unfolding scanner_def using assms(2,3) by (rule scan_lines_long)
  then show ?thesis
    using assms(1) by (auto simp: Recover_def guard_open_def Let_def split: prod.splits)
qed

text \<open>
  A failed write disables the log: after a write error no append reaches the file any
  more, every one reports the same error, until a successful \<open>Reset\<close>.
\<close>

theorem write_error_sticks:
  assumes "w_enc w = None" "w_open w" "marshalEntry E e = Inr s"
    and "Append E (no_fault\<lparr>f_write := Some (k, er)\<rparr>) e w m = (r, w1, m1)"
  shows "(\<forall>f e2 m2. Append E f e2 w1 m2 = (Some (''wal encode: '' @ er), w1, m2))
    \<and> (\<exists>w2. fst (snd (Reset no_fault w1 m)) = w2 \<and> wal_holds E w2 [])"
proof -
  have w1: "w_enc w1 = Some er" "w_open w1"
    using assms by (auto simp: Append_def enc_encode_def)
  then show ?thesis by (auto simp: Append_sticky Reset_ok wal_holds_def)
qed

section \<open>Witnesses\<close>

definition wit_entry :: LogEntry where
  "wit_entry = \<lparr>Timestamp = 5, TZ = 0, Service = ''a'', Level = ''info'', Message = ''m'', Labels = [(''k'', ''v'')]\<rparr>"

definition wit_wal :: WAL where
  "wit_wal = \<lparr>w_file = [], w_open = True, w_enc = None, w_n = 0\<rparr>"

lemma wit_entry_safe: "entry_safe wit_entry"
  by (simp add: wit_entry_def entry_safe_def time_safe_def zero_time_def second_def
      labels_safe_def utf8_ok_ascii byte_val_def)

lemma wit_line: "jline ref_env wit_entry = ''53 ,48 ,97 ,105 110 102 111 ,109 ,107 ,118 ''"
  by code_simp

lemma wit_entry_fits: "fits ref_env wit_entry"
  by (simp add: fits_def wit_entry_safe wit_line max_token_def)

theorem append_recover_witness:
  "\<exists>w3 m3. Recover ref_env no_fault
     (wit_wal\<lparr>w_file := ndjson ref_env [wit_entry, wit_entry]\<rparr>) metrics0
      = (Inr [wit_entry, wit_entry], w3, m3) \<and> w_n w3 = 2"
proof -
  have o: "OpenWAL ''d'' None None [] = Inr wit_wal" by (simp add: OpenWAL_def wit_wal_def)
  obtain w1 m1 where a: "append_all ref_env [wit_entry, wit_entry] wit_wal metrics0 = (w1, m1)" by fastforce
  have "wal_holds ref_env wit_wal []" by (simp add: wal_holds_def wit_wal_def)
  then have "w_file w1 = ndjson ref_env [wit_entry, wit_entry]"
    using ref.append_all_holds [of wit_wal "[]" "[wit_entry, wit_entry]" metrics0] a wit_entry_fits
    by (simp add: wal_holds_def)
  then have o2: "OpenWAL ''d'' None None (w_file (snd (Close None w1)))
      = Inr (wit_wal\<lparr>w_file := ndjson ref_env [wit_entry, wit_entry]\<rparr>)"
    by (simp add: OpenWAL_def wit_wal_def Close_def)
  from append_recover [OF ref_codec _ o a o2, of metrics0] wit_entry_fits show ?thesis by auto
qed

theorem torn_append_recover_witness:
  "\<exists>w' tl. w' = wit_wal\<lparr>w_file := ''53 ,48 ,97'', w_enc := Some ''disk full''\<rparr>
     \<and> length tl \<le> 1 \<and> fst (Recover ref_env no_fault w' metrics0) = Inr ([] @ tl)"
proof -
  have holds: "wal_holds ref_env wit_wal []" by (simp add: wal_holds_def wit_wal_def)
  let ?f = "no_fault\<lparr>f_write := Some (10, ''disk full'')\<rparr>"
  let ?w = "wit_wal\<lparr>w_file := ''53 ,48 ,97'', w_enc := Some ''disk full''\<rparr>"
  have m: "marshalEntry ref_env wit_entry = Inr (jline ref_env wit_entry)"
    using ref.jline(1) [OF wit_entry_safe] .
  have run: "Append ref_env ?f wit_entry wit_wal metrics0
      = (Some (''wal encode: disk full''), ?w, metrics0)"
    by (simp add: Append_def enc_encode_def m wit_line wit_wal_def)
  from torn_append_recover [OF ref_codec _ wit_entry_fits holds run] show ?thesis by auto
qed

theorem oversized_line_loses_log_witness:
  "\<exists>er. Recover ref_env no_fault
     (wit_wal\<lparr>w_file := replicate max_token (CHR ''x'')\<rparr>) metrics0
     = (Inl (''wal scan: '' @ er), wit_wal\<lparr>w_file := replicate max_token (CHR ''x'')\<rparr>, metrics0)"
proof -
  have "cut_lines (replicate max_token (CHR ''x'')) = [replicate max_token (CHR ''x'')]"
    by (rule cut_lines_last) (simp_all add: max_token_def)
  then show ?thesis
    by (intro oversized_line_loses_log [of _ "replicate max_token (CHR ''x'')"])
      (simp_all add: wit_wal_def)
qed

theorem write_error_sticks_witness:
  "\<exists>w1. fst (snd (Append ref_env (no_fault\<lparr>f_write := Some (0, ''disk full'')\<rparr>) wit_entry wit_wal metrics0)) = w1
     \<and> Append ref_env no_fault wit_entry w1 metrics0
        = (Some (''wal encode: disk full''), w1, metrics0)"
proof -
  have m: "marshalEntry ref_env wit_entry = Inr (jline ref_env wit_entry)"
    using ref.jline(1) [OF wit_entry_safe] .
  obtain r w1 m1 where run:
    "Append ref_env (no_fault\<lparr>f_write := Some (0, ''disk full'')\<rparr>) wit_entry wit_wal metrics0 = (r, w1, m1)"
    by (metis prod_cases3)
  have "Append ref_env no_fault wit_entry w1 metrics0 = (Some (''wal encode: '' @ ''disk full''), w1, metrics0)"
    using write_error_sticks [OF _ _ m run] by (simp add: wit_wal_def)
  with run show ?thesis by simp
qed

end
