(* ===== verification/Broker.thy ===== *)
theory Broker
  imports Domain "HOL-Library.AList" "HOL-Library.Sublist"
begin

text \<open>
  \<open>internal/ingester/broker.go\<close>: live-tail fan-out. A subscriber has a channel of 256 entries
  and a filter. The facts: publishing never blocks and reaches exactly the subscribers whose
  filter accepts the entry and whose channel has room; what a subscriber has received and
  still holds is, in every interleaving of publishers and readers, a subsequence of the
  matching entries, and all of them as long as it never falls 256 behind.
\<close>

section \<open>State and operations\<close>

text \<open>A nil filter is \<open>None\<close>.\<close>

record Subscription =
  sub_ID :: string
  sub_Ch :: "LogEntry chan"
  sub_Filter :: "(LogEntry \<Rightarrow> bool) option"

type_synonym broker = "(string \<times> Subscription) list"

definition NewBroker :: broker where
  "NewBroker = []"

text \<open>\<open>sid\<close> is the result of \<open>uuid.NewString()\<close>.\<close>

definition Subscribe :: "string \<Rightarrow> (LogEntry \<Rightarrow> bool) option \<Rightarrow> broker \<Rightarrow> Subscription \<times> broker" where
  "Subscribe sid flt b =
     (let sub = \<lparr>sub_ID = sid, sub_Ch = make_chan 256, sub_Filter = flt\<rparr>
      in (sub, AList.update sid sub b))"

definition Unsubscribe :: "string \<Rightarrow> broker \<Rightarrow> broker" where
  "Unsubscribe sid b = (if map_of b sid \<noteq> None then AList.delete sid b else b)"

definition accepts :: "Subscription \<Rightarrow> LogEntry \<Rightarrow> bool" where
  "accepts sub e \<longleftrightarrow> (case sub_Filter sub of None \<Rightarrow> True | Some f \<Rightarrow> f e)"

text \<open>The body of the loop of \<open>Publish\<close>; its \<open>default\<close> branch drops the entry.\<close>

definition offer :: "LogEntry \<Rightarrow> Subscription \<Rightarrow> Subscription" where
  "offer e sub = (if accepts sub e then sub\<lparr>sub_Ch := snd (try_send e (sub_Ch sub))\<rparr> else sub)"

definition Publish :: "LogEntry \<Rightarrow> broker \<Rightarrow> broker" where
  "Publish e b = map (\<lambda>(sid, sub). (sid, offer e sub)) b"

text \<open>A reader takes the next entry from its channel.\<close>

definition receive :: "Subscription \<Rightarrow> (LogEntry \<times> Subscription) option" where
  "receive sub =
     (case recv (sub_Ch sub) of None \<Rightarrow> None | Some (e, ch) \<Rightarrow> Some (e, sub\<lparr>sub_Ch := ch\<rparr>))"

text \<open>
  The life of one subscription: entries published by the ingester and entries taken by its
  reader, in any order. The history keeps the matching entries published so far and the
  entries received so far.
\<close>

record sub_run =
  r_sub :: Subscription
  r_matched :: "LogEntry list"
  r_got :: "LogEntry list"

definition sub_init :: "sub_run \<Rightarrow> bool" where
  "sub_init r \<longleftrightarrow> (\<exists>sid flt b. r_sub r = fst (Subscribe sid flt b)) \<and> r_matched r = [] \<and> r_got r = []"

inductive sub_step :: "sub_run \<Rightarrow> sub_run \<Rightarrow> bool" where
  publish: "sub_step r (r\<lparr>r_sub := offer e (r_sub r),
     r_matched := r_matched r @ (if accepts (r_sub r) e then [e] else [])\<rparr>)"
| receive: "receive (r_sub r) = Some (e, sub) \<Longrightarrow>
     sub_step r (r\<lparr>r_sub := sub, r_got := r_got r @ [e]\<rparr>)"

definition sub_inv :: "sub_run \<Rightarrow> bool" where
  "sub_inv r \<longleftrightarrow> chan_ok (sub_Ch (r_sub r)) \<and> ccap (sub_Ch (r_sub r)) = 256
     \<and> \<not> cclosed (sub_Ch (r_sub r))
     \<and> subseq (r_got r @ cbuf (sub_Ch (r_sub r))) (r_matched r)"

section \<open>Lemmas\<close>

lemma offer_filter [simp]: "sub_Filter (offer e sub) = sub_Filter sub" "sub_ID (offer e sub) = sub_ID sub"
  by (simp_all add: offer_def)

lemma accepts_offer [simp]: "accepts (offer d sub) e = accepts sub e"
  by (simp add: accepts_def)

lemma offer_chan:
  "cbuf (sub_Ch (offer e sub)) =
     cbuf (sub_Ch sub) @ (if accepts sub e \<and> \<not> cclosed (sub_Ch sub)
        \<and> length (cbuf (sub_Ch sub)) < ccap (sub_Ch sub) then [e] else [])"
  "ccap (sub_Ch (offer e sub)) = ccap (sub_Ch sub)"
  "cclosed (sub_Ch (offer e sub)) = cclosed (sub_Ch sub)"
  by (auto simp: offer_def try_send_def)

lemma Publish_lookup: "map_of (Publish e b) sid = map_option (offer e) (map_of b sid)"
  by (induction b) (auto simp: Publish_def)

lemma Subscribe_lookup:
  "map_of (snd (Subscribe sid flt b)) = (map_of b)(sid \<mapsto> fst (Subscribe sid flt b))"
  by (simp add: Subscribe_def Let_def update_conv')

lemma Unsubscribe_lookup: "map_of (Unsubscribe sid b) = (map_of b)(sid := None)"
  by (auto simp: Unsubscribe_def delete_conv' fun_eq_iff)

lemma publish_many:
  assumes "\<not> cclosed (sub_Ch sub)" "chan_ok (sub_Ch sub)"
  shows "cbuf (sub_Ch (fold offer es sub)) =
    take (ccap (sub_Ch sub)) (cbuf (sub_Ch sub) @ filter (accepts sub) es)"
  using assms
proof (induction es arbitrary: sub)
  case Nil
  then show ?case by (simp add: chan_ok_def)
next
  case (Cons e es)
  have "accepts (offer e sub) = accepts sub" by (rule ext) simp
  moreover have "chan_ok (sub_Ch (offer e sub))"
    using Cons.prems(2) by (auto simp: chan_ok_def offer_chan)
  ultimately show ?case
    using Cons.IH [of "offer e sub"] Cons.prems
    by (cases "length (cbuf (sub_Ch sub)) < ccap (sub_Ch sub)") (auto simp: offer_chan chan_ok_def take_Cons')
qed

lemma fold_Publish_lookup:
  "map_of (fold Publish es b) sid = map_option (fold offer es) (map_of b sid)"
  by (induction es arbitrary: b) (auto simp: Publish_lookup option.map_comp comp_def option.map_id)

interpretation tail: machine sub_init sub_step sub_inv
proof unfold_locales
  fix r assume "sub_init r"
  then show "sub_inv r" by (auto simp: sub_init_def sub_inv_def Subscribe_def Let_def)
next
  fix r r' assume inv: "sub_inv r" and "sub_step r r'"
  from this(2) show "sub_inv r'"
  proof cases
    case (publish e)
    have "subseq (r_got r @ cbuf (sub_Ch (r_sub r)) @ [e]) (r_matched r @ [e])"
      "subseq (r_got r @ cbuf (sub_Ch (r_sub r))) (r_matched r @ [e])"
      using inv list_emb_append_mono [of "(=)" "r_got r @ cbuf (sub_Ch (r_sub r))" "r_matched r" "[e]" "[e]"]
        list_emb_append2 [of "(=)" "r_got r @ cbuf (sub_Ch (r_sub r))" "r_matched r" "[e]"]
        subseq_rev_drop_many [of _ _ "[e]"]
      by (auto simp: sub_inv_def)
    then show ?thesis using inv publish by (auto simp: sub_inv_def offer_chan chan_ok_def)
  next
    case (receive e sub)
    then show ?thesis
      using inv by (auto simp: sub_inv_def chan_ok_def receive_def recv_def split: list.splits)
  qed
qed

section \<open>Properties\<close>

text \<open>
  Publishing a sequence of entries without any reader leaves in the channel of every
  subscriber the first 256 of what it held followed by the entries its filter accepts; no
  subscriber is added, removed or blocked, whatever the others do.
\<close>

theorem publish_fanout:
  assumes "map_of b sid = Some sub" "ccap (sub_Ch sub) = 256" "chan_ok (sub_Ch sub)" "\<not> cclosed (sub_Ch sub)"
  shows "\<exists>sub'. map_of (fold Publish es b) sid = Some sub'
    \<and> cbuf (sub_Ch sub') = take 256 (cbuf (sub_Ch sub) @ filter (accepts sub) es)
    \<and> dom (map_of (fold Publish es b)) = dom (map_of b)"
  using assms publish_many [of sub es]
  by (auto simp: fold_Publish_lookup dom_def)

text \<open>
  C35. Live tail delivers in order and invents nothing: in every reachable state of a
  subscription, with publishing and reading interleaved in any way, the entries received
  followed by the entries in the channel form a subsequence of the matching entries
  published, and at most 256 wait.
\<close>

theorem tail_in_order:
  assumes "reach sub_init sub_step r"
  shows "subseq (r_got r @ cbuf (sub_Ch (r_sub r))) (r_matched r)
    \<and> length (cbuf (sub_Ch (r_sub r))) \<le> 256"
  using tail.reach_inv [OF assms] by (auto simp: sub_inv_def chan_ok_def)

text \<open>
  A subscription is found under its id until it is removed, and removing it stops
  delivery to it while leaving all other subscriptions alone. (The channel itself is not
  closed by \<open>Unsubscribe\<close>, although its comment says so.)
\<close>

theorem unsubscribe_stops:
  "map_of (snd (Subscribe sid flt b)) sid = Some (fst (Subscribe sid flt b))
   \<and> map_of (fold Publish es (Unsubscribe sid b)) sid = None
   \<and> map_of (Unsubscribe sid b) = (map_of b)(sid := None)"
  by (simp add: Subscribe_lookup Unsubscribe_lookup fold_Publish_lookup)

section \<open>Witnesses\<close>

definition wit_sub :: Subscription where
  "wit_sub = fst (Subscribe ''s1'' (Some (\<lambda>e. Level e = ''error'')) [])"

definition wit_log :: "string \<Rightarrow> string \<Rightarrow> LogEntry" where
  "wit_log lv msg = \<lparr>Timestamp = 0, TZ = 0, Service = ''a'', Level = lv, Message = msg, Labels = []\<rparr>"

theorem publish_fanout_witness:
  "\<exists>sub'. map_of (fold Publish [wit_log ''info'' ''x'', wit_log ''error'' ''y''] [(''s1'', wit_sub)]) ''s1''
      = Some sub' \<and> cbuf (sub_Ch sub') = [wit_log ''error'' ''y'']"
proof -
  have "map_of [(''s1'', wit_sub)] ''s1'' = Some wit_sub" "ccap (sub_Ch wit_sub) = 256"
    "chan_ok (sub_Ch wit_sub)" "\<not> cclosed (sub_Ch wit_sub)"
    by (simp_all add: wit_sub_def Subscribe_def Let_def)
  from publish_fanout [OF this, of "[wit_log ''info'' ''x'', wit_log ''error'' ''y'']"]
  show ?thesis by (auto simp: wit_sub_def Subscribe_def Let_def accepts_def wit_log_def)
qed

theorem tail_in_order_witness:
  "\<exists>r. reach sub_init sub_step r \<and> r_matched r = [wit_log ''error'' ''y'']
     \<and> subseq (r_got r @ cbuf (sub_Ch (r_sub r))) (r_matched r)"
proof -
  let ?r = "\<lparr>r_sub = wit_sub, r_matched = [], r_got = []\<rparr>"
  have "sub_init ?r" by (auto simp: sub_init_def wit_sub_def)
  then have "reach sub_init sub_step ?r" by (rule reach_init)
  then have r: "reach sub_init sub_step (?r\<lparr>r_sub := offer (wit_log ''error'' ''y'') (r_sub ?r),
     r_matched := r_matched ?r @ (if accepts (r_sub ?r) (wit_log ''error'' ''y'') then [wit_log ''error'' ''y''] else [])\<rparr>)"
    by (rule reach_step) (rule sub_step.publish)
  have "accepts wit_sub (wit_log ''error'' ''y'')"
    by (simp add: wit_sub_def Subscribe_def Let_def accepts_def wit_log_def)
  then show ?thesis using r tail_in_order [OF r] by auto
qed

end
