(* ===== verification/Buffer.thy ===== *)
theory Buffer
  imports Flusher Wal Broker
begin

text \<open>
  \<open>internal/ingester/buffer.go\<close>: the batch buffer. This theory holds its operations, each the
  code of one critical section or goroutine body, and their sequential properties: the batch
  invariant (time bounds, service, size), level sampling, the write-ahead discipline of \<open>Add\<close>,
  the snapshot taken by \<open>dispatchFlush\<close>, and the label sets of a chunk. The goroutines that
  run these operations concurrently are in the theory \<open>BufferSystem\<close>.
\<close>

section \<open>State\<close>

text \<open>
  The pointers of \<open>BufferOpts\<close> to mutable objects, the log and the broker, are part of the
  buffer's state; the flusher is a function on the outside world.
\<close>

record 's BufferOpts =
  bo_MaxBytes :: int
  bo_MaxAge :: duration
  bo_Flusher :: "Chunk \<Rightarrow> bytes \<Rightarrow> 's world \<Rightarrow> err option \<times> 's world"
  bo_Compression :: CompressionAlgo
  bo_MinLevel :: string

record flushJob =
  fj_entries :: "LogEntry list"
  fj_service :: string
  fj_minTime :: time
  fj_maxTime :: time

text \<open>
  \<open>b_ticker\<close> is the period of the running ticker, if it runs; \<open>b_spawned\<close> holds the jobs of the
  goroutines started by \<open>go b.executeFlush(job)\<close>.
\<close>

record Buffer =
  b_entries :: "LogEntry list"
  b_sizeEst :: int
  b_minTime :: time
  b_maxTime :: time
  b_service :: string
  b_ticker :: "duration option"
  b_done :: bool
  b_flushCh :: "flushJob chan"
  b_spawned :: "flushJob list"
  b_WAL :: "WAL option"
  b_Broker :: "broker option"

section \<open>Operations\<close>

definition levelPriority :: "string \<Rightarrow> int" where
  "levelPriority l =
     (case map_of [(''debug'', 0), (''trace'', 0), (''info'', 1), (''warn'', 2), (''warning'', 2),
                   (''error'', 3), (''fatal'', 4), (''critical'', 4)] l of
        None \<Rightarrow> 0 | Some p \<Rightarrow> p)"

definition estimateSize :: "LogEntry \<Rightarrow> int" where
  "estimateSize e =
     80 + int (length (Service e) + length (Level e) + length (Message e))
     + sum_list (map (\<lambda>(k, v). int (length k + length v + 6)) (Labels e))"

definition addToBuffer :: "LogEntry \<Rightarrow> Buffer \<Rightarrow> Buffer" where
  "addToBuffer entry b0 =
     (let b1 = (if b_entries b0 = []
                then b0\<lparr>b_minTime := Timestamp entry, b_maxTime := Timestamp entry,
                        b_service := Service entry\<rparr> else b0);
          b2 = (if Before (Timestamp entry) (b_minTime b1) then b1\<lparr>b_minTime := Timestamp entry\<rparr> else b1);
          b3 = (if After (Timestamp entry) (b_maxTime b2) then b2\<lparr>b_maxTime := Timestamp entry\<rparr> else b2)
      in b3\<lparr>b_entries := b_entries b3 @ [entry]\<rparr>)"

text \<open>
  \<open>NewBuffer\<close>; \<open>None\<close> is the panic of \<open>time.NewTicker\<close> on a period that is not positive. An error
  of the recovery is logged and nothing is replayed.
\<close>

definition NewBuffer ::
  "env \<Rightarrow> io_fault \<Rightarrow> 's BufferOpts \<Rightarrow> WAL option \<Rightarrow> broker option \<Rightarrow> metrics \<Rightarrow> (Buffer \<times> metrics) option" where
  "NewBuffer E f opts wal br m =
     (if bo_MaxAge opts \<le> 0 then None
      else
        let b = \<lparr>b_entries = [], b_sizeEst = 0, b_minTime = zero_time, b_maxTime = zero_time, b_service = '''',
                 b_ticker = Some (bo_MaxAge opts), b_done = False, b_flushCh = make_chan 4,
                 b_spawned = [], b_WAL = wal, b_Broker = br\<rparr>
        in case wal of
             None \<Rightarrow> Some (b, m)
           | Some w \<Rightarrow>
               (case Recover E f w m of
                  (r, w', m') \<Rightarrow>
                    (let recovered = (case r of Inl _ \<Rightarrow> [] | Inr es \<Rightarrow> es)
                     in Some (fold addToBuffer recovered (b\<lparr>b_WAL := Some w'\<rparr>), m'))))"

text \<open>
  \<open>dispatchFlush\<close>; the boolean says whether it returned. A send on the closed queue panics
  after the buffer has been cleared.
\<close>

definition dispatchFlush :: "'s BufferOpts \<Rightarrow> Buffer \<Rightarrow> metrics \<Rightarrow> bool \<times> Buffer \<times> metrics" where
  "dispatchFlush opts b m =
     (let job = \<lparr>fj_entries = b_entries b, fj_service = b_service b,
                 fj_minTime = b_minTime b, fj_maxTime = b_maxTime b\<rparr>;
          b = b\<lparr>b_entries := [], b_sizeEst := 0\<rparr>;
          m = m\<lparr>EntriesBuffered := 0\<rparr>;
          b = b\<lparr>b_ticker := Some (bo_MaxAge opts)\<rparr>
      in case try_send job (b_flushCh b) of
           (Sent, ch) \<Rightarrow> (True, b\<lparr>b_flushCh := ch\<rparr>, m)
         | (Full, ch) \<Rightarrow> (True, b\<lparr>b_spawned := b_spawned b @ [job]\<rparr>, m)
         | (SendPanic, ch) \<Rightarrow> (False, b, m))"

text \<open>The test at the head of \<open>Add\<close>.\<close>

definition below_min_level :: "env \<Rightarrow> 's BufferOpts \<Rightarrow> LogEntry \<Rightarrow> bool" where
  "below_min_level E opts entry \<longleftrightarrow>
     bo_MinLevel opts \<noteq> '''' \<and>
     levelPriority (toLower E (Level entry)) < levelPriority (toLower E (bo_MinLevel opts))"

text \<open>
  \<open>Add\<close>: \<open>Some\<close> of its result, or \<open>None\<close> for a panic. \<open>f\<close> is the behaviour of the disk during
  the append to the log, whose errors are only logged.
\<close>

definition Add ::
  "env \<Rightarrow> io_fault \<Rightarrow> 's BufferOpts \<Rightarrow> LogEntry \<Rightarrow> Buffer \<Rightarrow> metrics \<Rightarrow> bool option \<times> Buffer \<times> metrics" where
  "Add E f opts entry b m =
     (if below_min_level E opts entry
      then (Some False, b, m\<lparr>EntriesDropped := inc1 (EntriesDropped m) ''below_min_level''\<rparr>)
      else
        let (b1, m1) = (case b_WAL b of
                          None \<Rightarrow> (b, m)
                        | Some w \<Rightarrow> (case Append E f entry w m of (_, w', m') \<Rightarrow> (b\<lparr>b_WAL := Some w'\<rparr>, m')));
            entrySize = estimateSize entry;
            (ok, b2, m2) = (if b_sizeEst b1 + entrySize > bo_MaxBytes opts \<and> 0 < length (b_entries b1)
                            then dispatchFlush opts b1 m1 else (True, b1, m1))
        in if \<not> ok then (None, b2, m2)
           else
             let b3 = addToBuffer entry b2;
                 b4 = b3\<lparr>b_sizeEst := b_sizeEst b3 + entrySize\<rparr>;
                 m4 = m2\<lparr>EntriesBuffered := int (length (b_entries b4))\<rparr>;
                 b5 = (case b_Broker b4 of None \<Rightarrow> b4 | Some br \<Rightarrow> b4\<lparr>b_Broker := Some (Publish entry br)\<rparr>)
             in (Some True, b5, m4))"

text \<open>The critical section of \<open>tickLoop\<close>.\<close>

definition tick :: "'s BufferOpts \<Rightarrow> Buffer \<Rightarrow> metrics \<Rightarrow> bool \<times> Buffer \<times> metrics" where
  "tick opts b m = (if 0 < length (b_entries b) then dispatchFlush opts b m else (True, b, m))"

text \<open>
  \<open>Stop\<close> in three parts: up to the end of its critical section (closing \<open>done\<close> twice panics),
  the closing of the queue, and what follows after the flush loop has ended.
\<close>

definition Stop_flush :: "'s BufferOpts \<Rightarrow> Buffer \<Rightarrow> metrics \<Rightarrow> bool \<times> Buffer \<times> metrics" where
  "Stop_flush opts b m =
     (let b = b\<lparr>b_ticker := None\<rparr>
      in if b_done b then (False, b, m)
         else let b = b\<lparr>b_done := True\<rparr>
              in if 0 < length (b_entries b) then dispatchFlush opts b m else (True, b, m))"

definition Stop_close :: "Buffer \<Rightarrow> Buffer" where
  "Stop_close b = b\<lparr>b_flushCh := close_chan (b_flushCh b)\<rparr>"

definition Stop_finish :: "io_fault \<Rightarrow> err option \<Rightarrow> Buffer \<Rightarrow> metrics \<Rightarrow> Buffer \<times> metrics" where
  "Stop_finish f cerr b m =
     (case b_WAL b of
        None \<Rightarrow> (b, m)
      | Some w \<Rightarrow> (case Reset f w m of
                     (_, w', m') \<Rightarrow> (b\<lparr>b_WAL := Some (snd (Close cerr w'))\<rparr>, m')))"

section \<open>Label sets and chunks\<close>

text \<open>
  Go iterates over a map in an order that changes from one loop to the next:
  \<open>mo_iter i\<close> is the order of the labels of the \<open>i\<close>-th entry in the loop that builds the key,
  \<open>mo_out\<close> the order of the final loop over \<open>seen\<close>.
\<close>

record map_order =
  mo_iter :: "nat \<Rightarrow> labels \<Rightarrow> labels"
  mo_out :: "labels list \<Rightarrow> labels list"

definition label_key :: "labels \<Rightarrow> string" where
  "label_key ls = concat (map (\<lambda>(k, v). k @ ''='' @ v @ '','') ls)"

fun collect_seen ::
  "(nat \<Rightarrow> labels \<Rightarrow> labels) \<Rightarrow> nat \<Rightarrow> LogEntry list \<Rightarrow> (string \<times> labels) list \<Rightarrow> (string \<times> labels) list" where
  "collect_seen ord i [] seen = seen"
| "collect_seen ord i (e # es) seen =
     (if length (Labels e) = 0 then collect_seen ord (Suc i) es seen
      else
        let k = label_key (ord i (Labels e))
        in if map_of seen k = None then collect_seen ord (Suc i) es (seen @ [(k, Labels e)])
           else collect_seen ord (Suc i) es seen)"

definition collectLabelSets :: "map_order \<Rightarrow> LogEntry list \<Rightarrow> labels list" where
  "collectLabelSets mo es = mo_out mo (map snd (collect_seen (mo_iter mo) 0 es []))"

definition job_chunk :: "'s BufferOpts \<Rightarrow> map_order \<Rightarrow> string \<Rightarrow> flushJob \<Rightarrow> bytes \<Rightarrow> Chunk" where
  "job_chunk opts mo uid job compressed =
     \<lparr>ck_Key = chunkKey (fj_service job) (fj_minTime job) uid (bo_Compression opts),
      ck_Service = fj_service job, ck_MinTime = fj_minTime job, ck_MaxTime = fj_maxTime job,
      ck_EntryCount = int (length (fj_entries job)), ck_SizeBytes = int (length compressed),
      ck_Compression = bo_Compression opts, ck_LabelSets = collectLabelSets mo (fj_entries job)\<rparr>"

text \<open>
  \<open>executeFlush\<close>; \<open>uid\<close> is \<open>uuid.NewString()\<close>. Next to the world it yields the chunk that the
  last log line reports, if it gets there.
\<close>

definition executeFlush ::
  "env \<Rightarrow> 's BufferOpts \<Rightarrow> map_order \<Rightarrow> string \<Rightarrow> flushJob \<Rightarrow> 's world \<Rightarrow> Chunk option \<times> 's world" where
  "executeFlush E opts mo uid job w =
     (case compressEntries E (fj_entries job) (bo_Compression opts) of
        Inl e \<Rightarrow> (None, w\<lparr>mx := (mx w)\<lparr>FlushErrors := FlushErrors (mx w) + 1\<rparr>\<rparr>)
      | Inr compressed \<Rightarrow>
          (let chunk = job_chunk opts mo uid job compressed
           in case bo_Flusher opts chunk compressed w of
                (Some e, w') \<Rightarrow> (None, w'\<lparr>mx := (mx w')\<lparr>FlushErrors := FlushErrors (mx w') + 1\<rparr>\<rparr>)
              | (None, w') \<Rightarrow>
                  (Some chunk,
                   w'\<lparr>mx := (mx w')\<lparr>ChunksFlushed := ChunksFlushed (mx w') + 1,
                       BytesFlushed := BytesFlushed (mx w') + ck_SizeBytes chunk,
                       FlushDuration := FlushDuration (mx w') + 1\<rparr>\<rparr>)))"

section \<open>Invariants\<close>

text \<open>
  A batch knows the exact time range of its entries; its service is that of its first entry.
\<close>

definition batch_ok :: "Buffer \<Rightarrow> bool" where [inv_defs]:
  "batch_ok b \<longleftrightarrow> b_entries b \<noteq> [] \<longrightarrow>
     b_minTime b = tmin (b_entries b) \<and> b_maxTime b = tmax (b_entries b)
     \<and> b_service b = Service (hd (b_entries b))"

definition job_ok :: "flushJob \<Rightarrow> bool" where [inv_defs]:
  "job_ok j \<longleftrightarrow> fj_entries j \<noteq> [] \<and> fj_minTime j = tmin (fj_entries j)
     \<and> fj_maxTime j = tmax (fj_entries j) \<and> fj_service j = Service (hd (fj_entries j))"

text \<open>The jobs that wait in the queue or in a goroutine of their own.\<close>

definition pending :: "Buffer \<Rightarrow> flushJob list" where
  "pending b = cbuf (b_flushCh b) @ b_spawned b"

definition entries_of :: "flushJob list \<Rightarrow> LogEntry multiset" where
  "entries_of js = sum_list (map (\<lambda>j. mset (fj_entries j)) js)"

definition total_size :: "LogEntry list \<Rightarrow> int" where
  "total_size es = sum_list (map estimateSize es)"

definition size_bounded :: "'s BufferOpts \<Rightarrow> LogEntry list \<Rightarrow> bool" where
  "size_bounded opts es \<longleftrightarrow> total_size es \<le> bo_MaxBytes opts \<or> length es \<le> 1"

text \<open>The size estimate of a buffer that was not filled by recovery.\<close>

definition size_ok :: "'s BufferOpts \<Rightarrow> Buffer \<Rightarrow> bool" where [inv_defs]:
  "size_ok opts b \<longleftrightarrow> b_sizeEst b = total_size (b_entries b) \<and> size_bounded opts (b_entries b)
     \<and> (\<forall>j \<in> set (pending b). size_bounded opts (fj_entries j))"

definition buffer_inv :: "Buffer \<Rightarrow> bool" where [inv_defs]:
  "buffer_inv b \<longleftrightarrow> batch_ok b \<and> (\<forall>j \<in> set (pending b). job_ok j)
     \<and> chan_ok (b_flushCh b) \<and> ccap (b_flushCh b) = 4"

section \<open>Lemmas on the operations\<close>

lemma entries_of_simps [simp]:
  "entries_of [] = {#}" "entries_of (j # js) = mset (fj_entries j) + entries_of js"
  "entries_of (js @ ks) = entries_of js + entries_of ks"
  by (simp_all add: entries_of_def)

lemma total_size_simps [simp]:
  "total_size [] = 0" "total_size (es @ fs) = total_size es + total_size fs"
  "total_size (e # es) = estimateSize e + total_size es"
  by (simp_all add: total_size_def)

lemma estimateSize_pos: "80 \<le> estimateSize e"
proof -
  have "0 \<le> sum_list (map (\<lambda>(k, v). int (length k + length v + 6)) (Labels e))"
    by (rule sum_list_nonneg) auto
  then show ?thesis by (simp add: estimateSize_def)
qed

lemma addToBuffer_sel [simp]:
  "b_entries (addToBuffer e b) = b_entries b @ [e]"
  "b_sizeEst (addToBuffer e b) = b_sizeEst b"
  "b_flushCh (addToBuffer e b) = b_flushCh b" "b_spawned (addToBuffer e b) = b_spawned b"
  "b_WAL (addToBuffer e b) = b_WAL b" "b_Broker (addToBuffer e b) = b_Broker b"
  "b_done (addToBuffer e b) = b_done b" "b_ticker (addToBuffer e b) = b_ticker b"
  by (simp_all add: addToBuffer_def Let_def)

lemma tmin_append1: "es \<noteq> [] \<Longrightarrow> tmin (es @ [e]) = min (tmin es) (Timestamp e)"
  by (simp add: tmin_def min.commute)

lemma tmax_append1: "es \<noteq> [] \<Longrightarrow> tmax (es @ [e]) = max (tmax es) (Timestamp e)"
  by (simp add: tmax_def max.commute)

lemma tmin_tmax_single [simp]: "tmin [e] = Timestamp e" "tmax [e] = Timestamp e"
  by (simp_all add: tmin_def tmax_def)

lemma addToBuffer_batch_ok: "batch_ok b \<Longrightarrow> batch_ok (addToBuffer e b)"
proof (cases "b_entries b = []")
  case True
  then show ?thesis by (simp add: batch_ok_def addToBuffer_def Let_def Before_def After_def)
next
  case False
  moreover assume "batch_ok b"
  ultimately show ?thesis
    by (auto simp: batch_ok_def addToBuffer_def Let_def Before_def After_def tmin_append1 tmax_append1)
qed

lemma fold_addToBuffer:
  "batch_ok b \<Longrightarrow> batch_ok (fold addToBuffer es b)"
  "b_entries (fold addToBuffer es b) = b_entries b @ es"
  "b_flushCh (fold addToBuffer es b) = b_flushCh b" "b_spawned (fold addToBuffer es b) = b_spawned b"
  "b_WAL (fold addToBuffer es b) = b_WAL b" "b_sizeEst (fold addToBuffer es b) = b_sizeEst b"
  "b_done (fold addToBuffer es b) = b_done b"
  by (induction es arbitrary: b) (auto simp: addToBuffer_batch_ok)

lemma pending_upd [simp]:
  "pending (b\<lparr>b_WAL := x\<rparr>) = pending b" "pending (b\<lparr>b_Broker := y\<rparr>) = pending b"
  "pending (b\<lparr>b_sizeEst := n\<rparr>) = pending b" "pending (addToBuffer e b) = pending b"
  "pending (b\<lparr>b_ticker := t\<rparr>) = pending b" "pending (b\<lparr>b_done := d\<rparr>) = pending b"
  by (simp_all add: pending_def)

text \<open>The snapshot of the current batch.\<close>

definition snapshot :: "Buffer \<Rightarrow> flushJob" where
  "snapshot b = \<lparr>fj_entries = b_entries b, fj_service = b_service b,
                 fj_minTime = b_minTime b, fj_maxTime = b_maxTime b\<rparr>"

lemma snapshot_sel [simp]: "fj_entries (snapshot b) = b_entries b"
  by (simp add: snapshot_def)

lemma snapshot_ok: "batch_ok b \<Longrightarrow> b_entries b \<noteq> [] \<Longrightarrow> job_ok (snapshot b)"
  by (simp add: batch_ok_def job_ok_def snapshot_def)

text \<open>What a dispatch does: all of its outcomes.\<close>

lemma dispatchFlush_cases:
  assumes "dispatchFlush opts b m = (ok, b', m')"
  obtains (queued) "ok" "\<not> cclosed (b_flushCh b)" "length (cbuf (b_flushCh b)) < ccap (b_flushCh b)"
      "b' = b\<lparr>b_entries := [], b_sizeEst := 0, b_ticker := Some (bo_MaxAge opts),
             b_flushCh := (b_flushCh b)\<lparr>cbuf := cbuf (b_flushCh b) @ [snapshot b]\<rparr>\<rparr>"
  | (spawned) "ok" "\<not> cclosed (b_flushCh b)" "ccap (b_flushCh b) \<le> length (cbuf (b_flushCh b))"
      "b' = b\<lparr>b_entries := [], b_sizeEst := 0, b_ticker := Some (bo_MaxAge opts),
             b_spawned := b_spawned b @ [snapshot b]\<rparr>"
  | (panicked) "\<not> ok" "cclosed (b_flushCh b)"
      "b' = b\<lparr>b_entries := [], b_sizeEst := 0, b_ticker := Some (bo_MaxAge opts)\<rparr>"
  using assms
  by (cases "cclosed (b_flushCh b)"; cases "length (cbuf (b_flushCh b)) < ccap (b_flushCh b)")
    (auto simp: dispatchFlush_def Let_def try_send_def snapshot_def)

lemma dispatchFlush_frame:
  assumes "dispatchFlush opts b m = (ok, b', m')"
  shows "b_entries b' = []" "b_sizeEst b' = 0" "b_WAL b' = b_WAL b" "b_Broker b' = b_Broker b"
    "b_done b' = b_done b" "cclosed (b_flushCh b') = cclosed (b_flushCh b)" "ok \<longleftrightarrow> \<not> cclosed (b_flushCh b)"
    "ccap (b_flushCh b') = ccap (b_flushCh b)" "chan_ok (b_flushCh b) \<Longrightarrow> chan_ok (b_flushCh b')"
  using assms by (cases rule: dispatchFlush_cases; auto simp: chan_ok_def)+

lemma dispatchFlush_pending:
  assumes "dispatchFlush opts b m = (ok, b', m')"
  shows "mset (pending b') = mset (pending b) + (if ok then {#snapshot b#} else {#})"
    "entries_of (pending b') = entries_of (pending b) + (if ok then mset (b_entries b) else {#})"
  using assms by (cases rule: dispatchFlush_cases; simp add: pending_def)+

lemma dispatchFlush_set:
  assumes "dispatchFlush opts b m = (ok, b', m')"
  shows "set (pending b') = set (pending b) \<union> (if ok then {snapshot b} else {})"
proof -
  have "set_mset (mset (pending b')) = set_mset (mset (pending b) + (if ok then {#snapshot b#} else {#}))"
    by (simp only: dispatchFlush_pending(1) [OF assms])
  then show ?thesis by auto
qed

lemma dispatchFlush_inv:
  assumes "dispatchFlush opts b m = (ok, b', m')" "buffer_inv b" "b_entries b \<noteq> []"
  shows "buffer_inv b'"
  using dispatchFlush_frame [OF assms(1)] dispatchFlush_set [OF assms(1)] assms(2,3) snapshot_ok [of b]
  by (auto simp: buffer_inv_def batch_ok_def)

lemma dispatchFlush_size:
  assumes "dispatchFlush opts b m = (ok, b', m')" "size_ok opts b"
  shows "size_ok opts b'"
  using dispatchFlush_frame [OF assms(1)] dispatchFlush_set [OF assms(1)] assms(2)
  by (auto simp: size_ok_def size_bounded_def)

lemma tick_cases:
  assumes "tick opts b m = (ok, b', m')"
  obtains (idle) "b_entries b = []" "ok" "b' = b" "m' = m"
  | (fires) "b_entries b \<noteq> []" "dispatchFlush opts b m = (ok, b', m')"
  using assms by (cases "b_entries b = []") (auto simp: tick_def)

text \<open>
  \<open>Add\<close> of an entry that is not sampled out, in three phases: the append to the log, a dispatch
  if the batch would get too big, and the insertion.
\<close>

definition logged :: "env \<Rightarrow> io_fault \<Rightarrow> LogEntry \<Rightarrow> Buffer \<Rightarrow> metrics \<Rightarrow> Buffer \<times> metrics" where
  "logged E f entry b m =
     (case b_WAL b of
        None \<Rightarrow> (b, m)
      | Some w \<Rightarrow> (case Append E f entry w m of (_, w', m') \<Rightarrow> (b\<lparr>b_WAL := Some w'\<rparr>, m')))"

definition inserted :: "LogEntry \<Rightarrow> Buffer \<Rightarrow> Buffer" where
  "inserted entry b =
     (let b3 = addToBuffer entry b; b4 = b3\<lparr>b_sizeEst := b_sizeEst b3 + estimateSize entry\<rparr>
      in case b_Broker b4 of None \<Rightarrow> b4 | Some br \<Rightarrow> b4\<lparr>b_Broker := Some (Publish entry br)\<rparr>)"

definition overflows :: "'s BufferOpts \<Rightarrow> LogEntry \<Rightarrow> Buffer \<Rightarrow> bool" where
  "overflows opts entry b \<longleftrightarrow> b_sizeEst b + estimateSize entry > bo_MaxBytes opts \<and> b_entries b \<noteq> []"

lemma logged_sel:
  assumes "logged E f entry b m = (b1, m1)"
  shows "b_entries b1 = b_entries b" "b_sizeEst b1 = b_sizeEst b" "pending b1 = pending b"
    "b_flushCh b1 = b_flushCh b" "b_spawned b1 = b_spawned b" "b_done b1 = b_done b" "b_Broker b1 = b_Broker b"
    "b_minTime b1 = b_minTime b" "b_maxTime b1 = b_maxTime b" "b_service b1 = b_service b"
    "snapshot b1 = snapshot b" "batch_ok b1 = batch_ok b"
  using assms by (auto simp: logged_def pending_def snapshot_def batch_ok_def split: option.splits prod.splits)

lemma inserted_sel [simp]:
  "b_entries (inserted e b) = b_entries b @ [e]" "b_sizeEst (inserted e b) = b_sizeEst b + estimateSize e"
  "pending (inserted e b) = pending b" "b_flushCh (inserted e b) = b_flushCh b"
  "b_spawned (inserted e b) = b_spawned b" "b_done (inserted e b) = b_done b" "b_WAL (inserted e b) = b_WAL b"
  "b_Broker (inserted e b) = map_option (Publish e) (b_Broker b)"
  by (simp_all add: inserted_def Let_def split: option.splits)

lemma inserted_alt:
  "inserted e b =
     (case b_Broker b of
        None \<Rightarrow> (addToBuffer e b)\<lparr>b_sizeEst := b_sizeEst (addToBuffer e b) + estimateSize e\<rparr>
      | Some br \<Rightarrow> (addToBuffer e b)\<lparr>b_sizeEst := b_sizeEst (addToBuffer e b) + estimateSize e, b_Broker := Some (Publish e br)\<rparr>)"
  by (simp add: inserted_def Let_def)

lemma inserted_batch_ok: "batch_ok b \<Longrightarrow> batch_ok (inserted e b)"
  using addToBuffer_batch_ok [of b e] by (simp add: inserted_def Let_def batch_ok_def split: option.splits)

lemma Add_cases:
  assumes "Add E f opts entry b m = (r, b', m')"
  obtains (dropped) "below_min_level E opts entry" "r = Some False" "b' = b"
      "m' = m\<lparr>EntriesDropped := inc1 (EntriesDropped m) ''below_min_level''\<rparr>"
  | (kept) b1 m1 where "\<not> below_min_level E opts entry" "logged E f entry b m = (b1, m1)"
      "\<not> overflows opts entry b" "r = Some True" "b' = inserted entry b1"
      "EntriesBuffered m' = int (length (b_entries b'))"
  | (flushed) b1 m1 b2 m2 where "\<not> below_min_level E opts entry" "logged E f entry b m = (b1, m1)"
      "overflows opts entry b" "dispatchFlush opts b1 m1 = (True, b2, m2)" "r = Some True"
      "b' = inserted entry b2" "EntriesBuffered m' = int (length (b_entries b'))"
  | (panicked) b1 m1 m2 where "\<not> below_min_level E opts entry" "logged E f entry b m = (b1, m1)"
      "overflows opts entry b" "dispatchFlush opts b1 m1 = (False, b', m2)" "r = None"
proof (cases "below_min_level E opts entry")
  case True
  then show ?thesis using assms dropped by (simp add: Add_def)
next
  case low: False
  obtain b1 m1 where l: "logged E f entry b m = (b1, m1)" by fastforce
  note sel = logged_sel [OF l]
  obtain ok b2 m2 where d: "dispatchFlush opts b1 m1 = (ok, b2, m2)" by (metis prod_cases3)
  have ovf: "(bo_MaxBytes opts < b_sizeEst b1 + estimateSize entry \<and> b_entries b1 \<noteq> [])
      = overflows opts entry b" by (simp add: overflows_def sel)
  have run: "Add E f opts entry b m =
      (let (ok, b2, m2) = (if overflows opts entry b then (ok, b2, m2) else (True, b1, m1))
       in if \<not> ok then (None, b2, m2)
          else (Some True, inserted entry b2, m2\<lparr>EntriesBuffered := int (length (b_entries (inserted entry b2)))\<rparr>))"
    using low by (simp add: Add_def logged_def [symmetric] l ovf d Let_def inserted_alt [symmetric])
  show ?thesis
  proof (cases "overflows opts entry b")
    case ov: True
    show ?thesis
    proof (cases ok)
      case True
      then show ?thesis using run assms ov d by (intro flushed [OF low l ov, of b2 m2]) auto
    next
      case False
      then show ?thesis using run assms ov d by (intro panicked [OF low l ov, of m2]) auto
    qed
  next
    case False
    then show ?thesis using run assms by (intro kept [OF low l False]) auto
  qed
qed

lemma logged_inv:
  "logged E f entry b m = (b1, m1) \<Longrightarrow> buffer_inv b1 = buffer_inv b"
  using logged_sel [of E f entry b m b1 m1] by (simp add: buffer_inv_def)

lemma logged_size: "logged E f entry b m = (b1, m1) \<Longrightarrow> size_ok opts b1 = size_ok opts b"
  using logged_sel [of E f entry b m b1 m1] by (simp add: size_ok_def)

lemma logged_overflow:
  "logged E f entry b m = (b1, m1) \<Longrightarrow> overflows opts entry b \<Longrightarrow> b_entries b1 \<noteq> []"
  using logged_sel(1) [of E f entry b m b1 m1] by (simp add: overflows_def)

lemma inserted_inv: "buffer_inv b \<Longrightarrow> buffer_inv (inserted e b)"
  by (simp add: buffer_inv_def inserted_batch_ok)

lemma overflows_logged:
  "logged E f entry b m = (b1, m1) \<Longrightarrow> overflows opts entry b1 = overflows opts entry b"
  using logged_sel [of E f entry b m b1 m1] by (simp add: overflows_def)

lemma inserted_size:
  assumes "size_ok opts b" "\<not> overflows opts e b"
  shows "size_ok opts (inserted e b)"
  using assms by (auto simp: size_ok_def size_bounded_def overflows_def)

lemma Add_inv:
  assumes "Add E f opts entry b m = (r, b', m')" "buffer_inv b"
  shows "buffer_inv b'"
  using assms(1)
proof (cases rule: Add_cases)
  case (flushed b1 m1 b2 m2)
  then show ?thesis
    using dispatchFlush_inv [OF flushed(4)] logged_inv [OF flushed(2)] logged_overflow [OF flushed(2,3)]
      assms(2) inserted_inv by simp
next
  case (panicked b1 m1 m2)
  then show ?thesis
    using dispatchFlush_inv [OF panicked(4)] logged_inv [OF panicked(2)] logged_overflow [OF panicked(2,3)]
      assms(2) by simp
next
  case (kept b1 m1)
  then show ?thesis using assms(2) logged_inv [OF kept(2)] inserted_inv by blast
qed (use assms(2) in simp)

lemma Add_size:
  assumes "Add E f opts entry b m = (r, b', m')" "size_ok opts b"
  shows "size_ok opts b'"
  using assms(1)
proof (cases rule: Add_cases)
  case (flushed b1 m1 b2 m2)
  then have "size_ok opts b2"
    using assms(2) logged_size [OF flushed(2)] dispatchFlush_size [OF flushed(4)] by blast
  moreover have "\<not> overflows opts entry b2"
    using dispatchFlush_frame(1) [OF flushed(4)] by (simp add: overflows_def)
  ultimately show ?thesis using flushed(6) inserted_size by blast
next
  case (panicked b1 m1 m2)
  then show ?thesis
    using assms(2) logged_size [OF panicked(2)] dispatchFlush_size [OF panicked(4)] by blast
next
  case (kept b1 m1)
  then show ?thesis
    using assms(2) logged_size [OF kept(2)] inserted_size overflows_logged [OF kept(2)] by blast
qed (use assms(2) in simp)

text \<open>Where the entries are: an accepted entry is in the batch, and no other entry moves but into a job.\<close>

definition held :: "Buffer \<Rightarrow> LogEntry multiset" where
  "held b = mset (b_entries b) + entries_of (pending b)"

lemma dispatchFlush_held:
  "dispatchFlush opts b m = (True, b', m') \<Longrightarrow> held b' = held b"
  using dispatchFlush_frame(1) [of opts b m True b' m'] dispatchFlush_pending(2) [of opts b m True b' m']
  by (simp add: held_def union_commute)

lemma dispatchFlush_panic_held:
  "dispatchFlush opts b m = (False, b', m') \<Longrightarrow> held b = held b' + mset (b_entries b)"
  using dispatchFlush_frame(1) [of opts b m False b' m'] dispatchFlush_pending(2) [of opts b m False b' m']
  by (simp add: held_def union_commute)

lemma inserted_held: "held (inserted e b) = held b + {#e#}"
  by (simp add: held_def)

lemma logged_held: "logged E f entry b m = (b1, m1) \<Longrightarrow> held b1 = held b"
  using logged_sel [of E f entry b m b1 m1] by (simp add: held_def)

lemma Add_held:
  assumes "Add E f opts entry b m = (r, b', m')"
  shows "held b' + (if r = None then mset (b_entries b) else {#}) = held b + (if r = Some True then {#entry#} else {#})"
  using assms
proof (cases rule: Add_cases)
  case (kept b1 m1)
  then show ?thesis using logged_held [OF kept(2)] inserted_held by simp
next
  case (flushed b1 m1 b2 m2)
  then show ?thesis using logged_held [OF flushed(2)] dispatchFlush_held [OF flushed(4)] inserted_held by simp
next
  case (panicked b1 m1 m2)
  then show ?thesis
    using logged_held [OF panicked(2)] dispatchFlush_panic_held [OF panicked(4)] logged_sel(1) [OF panicked(2)]
    by simp
qed simp

lemma Add_ok:
  assumes "Add E f opts entry b m = (r, b', m')" "\<not> cclosed (b_flushCh b)"
  shows "r = Some (\<not> below_min_level E opts entry) \<and> \<not> cclosed (b_flushCh b')"
  using assms(1)
proof (cases rule: Add_cases)
  case (kept b1 m1)
  then show ?thesis using logged_sel(4) [OF kept(2)] assms(2) by simp
next
  case (flushed b1 m1 b2 m2)
  then show ?thesis using logged_sel(4) [OF flushed(2)] dispatchFlush_frame(6) [OF flushed(4)] assms(2) by simp
next
  case (panicked b1 m1 m2)
  then show ?thesis using logged_sel(4) [OF panicked(2)] dispatchFlush_frame(7) [OF panicked(4)] assms(2) by simp
qed (use assms(2) in simp)

lemma Add_WAL:
  assumes "Add E f opts entry b m = (r, b', m')" "r \<noteq> Some False"
  shows "b_WAL b' = map_option (\<lambda>w. fst (snd (Append E f entry w m))) (b_WAL b)"
proof -
  have l: "b_WAL b1 = map_option (\<lambda>w. fst (snd (Append E f entry w m))) (b_WAL b)"
    if "logged E f entry b m = (b1, m1)" for b1 m1
    using that by (auto simp: logged_def split: option.splits prod.splits)
  from assms(1) show ?thesis
  proof (cases rule: Add_cases)
    case (flushed b1 m1 b2 m2)
    then show ?thesis using l dispatchFlush_frame(3) [OF flushed(4)] by simp
  next
    case (panicked b1 m1 m2)
    then show ?thesis using l dispatchFlush_frame(3) [OF panicked(4)] by simp
  qed (use l assms(2) in auto)
qed

lemma NewBuffer_inv:
  assumes "NewBuffer E f opts wal br m = Some (b, m')"
  shows "buffer_inv b" "pending b = []" "\<not> cclosed (b_flushCh b)" "\<not> b_done b" "b_sizeEst b = 0"
proof -
  have ok: "batch_ok c" if "b_entries c = []" for c using that by (simp add: batch_ok_def)
  show "buffer_inv b" "pending b = []" "\<not> cclosed (b_flushCh b)" "\<not> b_done b" "b_sizeEst b = 0"
    using assms
    by (auto simp: NewBuffer_def Let_def buffer_inv_def pending_def fold_addToBuffer ok
        split: if_splits option.splits prod.splits)
qed

section \<open>Lemmas on label sets\<close>

text \<open>Labels whose keys contain neither separator and whose values contain no comma.\<close>

definition plain_labels :: "labels \<Rightarrow> bool" where
  "plain_labels m \<longleftrightarrow> (\<forall>(k, v) \<in> set m. CHR ''='' \<notin> set k \<and> CHR '','' \<notin> set v)"

definition order_ok :: "map_order \<Rightarrow> bool" where
  "order_ok mo \<longleftrightarrow> (\<forall>i m. mset (mo_iter mo i m) = mset m) \<and> (\<forall>xs. mset (mo_out mo xs) = mset xs)"

lemma label_key_inj:
  "plain_labels xs \<Longrightarrow> plain_labels ys \<Longrightarrow> label_key xs = label_key ys \<Longrightarrow> xs = ys"
proof (induction xs arbitrary: ys)
  case Nil
  then show ?case by (cases ys) (auto simp: label_key_def)
next
  case (Cons x xs)
  obtain k v where x: "x = (k, v)" by fastforce
  from Cons.prems(3) obtain y zs where ys: "ys = y # zs"
    by (cases ys) (auto simp: label_key_def x)
  obtain k' v' where y: "y = (k', v')" by fastforce
  have eq: "k @ CHR ''='' # v @ CHR '','' # label_key xs = k' @ CHR ''='' # v' @ CHR '','' # label_key zs"
    using Cons.prems(3) by (simp add: label_key_def x ys y)
  have pl: "CHR ''='' \<notin> set k" "CHR ''='' \<notin> set k'" "CHR '','' \<notin> set v" "CHR '','' \<notin> set v'"
    using Cons.prems(1,2) by (auto simp: plain_labels_def x ys y)
  note 1 = sep_append_inj [OF pl(1,2) eq]
  note 2 = sep_append_inj [OF pl(3,4) conjunct2 [OF 1]]
  have "xs = zs" using Cons.IH [of zs] Cons.prems(1,2) 2 by (simp add: plain_labels_def ys)
  with 1 2 show ?case by (simp add: x y ys)
qed

lemma wf_labels_unique:
  assumes "wf_labels m" "wf_labels n" "mset m = mset n"
  shows "m = n"
proof -
  have s: "set m = set n" using assms(3) by (metis set_mset_mset)
  have keys: "map fst m = map fst n"
    using assms(1,2) s
    by (intro sorted_distinct_set_unique) (auto simp: wf_labels_def strict_sorted_iff)
  have "map_of m = map_of n"
    using s wf_labels_distinct [OF assms(1)] wf_labels_distinct [OF assms(2)] map_of_inject_set by metis
  with keys show ?thesis
    using wf_labels_distinct [OF assms(1)] wf_labels_distinct [OF assms(2)]
    by (metis map_of_eqI zip_map_fst_snd map_fst_zip map_snd_zip map_of_zip_inject length_map)
qed

lemma plain_labels_mset: "mset xs = mset ys \<Longrightarrow> plain_labels xs = plain_labels ys"
  unfolding plain_labels_def by (metis set_mset_mset)

text \<open>Every key of \<open>seen\<close> is the key of a permutation of the labels it stands for.\<close>

definition seen_ok :: "(string \<times> labels) list \<Rightarrow> bool" where
  "seen_ok seen \<longleftrightarrow> (\<forall>(k, ls) \<in> set seen. wf_labels ls \<and> plain_labels ls \<and> (\<exists>xs. mset xs = mset ls \<and> k = label_key xs))"

lemma collect_seen_values:
  assumes "\<And>i m. mset (ord i m) = mset m"
    and "\<forall>e \<in> set es. wf_labels (Labels e) \<and> plain_labels (Labels e)" and "seen_ok seen"
  shows "snd ` set (collect_seen ord i es seen) = snd ` set seen \<union> (Labels ` set es - {[]})"
  using assms(2,3)
proof (induction es arbitrary: i seen)
  case (Cons e es)
  let ?k = "label_key (ord i (Labels e))"
  show ?case
  proof (cases "Labels e = []")
    case True
    then show ?thesis using Cons by auto
  next
    case nonempty: False
    show ?thesis
    proof (cases "map_of seen ?k")
      case None
      have "seen_ok (seen @ [(?k, Labels e)])" using Cons.prems assms(1) by (auto simp: seen_ok_def)
      then show ?thesis using None nonempty Cons by (auto simp: Let_def)
    next
      case (Some ls)
      then have in_seen: "(?k, ls) \<in> set seen" by (rule map_of_SomeD)
      then obtain xs where xs: "mset xs = mset ls" "?k = label_key xs" "wf_labels ls" "plain_labels ls"
        using Cons.prems(2) by (auto simp: seen_ok_def)
      have "ord i (Labels e) = xs"
        using xs Cons.prems(1) plain_labels_mset [OF xs(1)] plain_labels_mset [OF assms(1) [of i "Labels e"]]
        by (intro label_key_inj) auto
      then have "ls = Labels e"
        using xs(1,3) assms(1) [of i "Labels e"] Cons.prems(1) by (intro wf_labels_unique) auto
      then have "Labels e \<in> snd ` set seen" using in_seen by force
      then show ?thesis using Some nonempty Cons by (auto simp: Let_def)
    qed
  qed
qed simp

lemma collectLabelSets_set:
  assumes "order_ok mo" "\<forall>e \<in> set es. wf_labels (Labels e) \<and> plain_labels (Labels e)"
  shows "set (collectLabelSets mo es) = Labels ` set es - {[]}"
proof -
  have "set (collectLabelSets mo es) = snd ` set (collect_seen (mo_iter mo) 0 es [])"
    using assms(1) unfolding order_ok_def collectLabelSets_def by (metis list.set_map set_mset_mset)
  also have "\<dots> = Labels ` set es - {[]}"
    using collect_seen_values [of "mo_iter mo" es "[]" 0] assms by (simp add: order_ok_def seen_ok_def)
  finally show ?thesis .
qed

text \<open>The entries with labels whose key no earlier entry with labels has.\<close>

definition first_of_key :: "(nat \<Rightarrow> labels \<Rightarrow> labels) \<Rightarrow> LogEntry list \<Rightarrow> nat \<Rightarrow> bool" where
  "first_of_key ord es j \<longleftrightarrow> j < length es \<and> Labels (es ! j) \<noteq> []
     \<and> (\<forall>i < j. Labels (es ! i) \<noteq> [] \<longrightarrow> label_key (ord i (Labels (es ! i))) \<noteq> label_key (ord j (Labels (es ! j))))"

lemma first_of_key_Cons:
  "first_of_key ord (e # es) 0 \<longleftrightarrow> Labels e \<noteq> []"
  "first_of_key ord (e # es) (Suc j) \<longleftrightarrow> first_of_key (\<lambda>i. ord (Suc i)) es j
     \<and> (Labels e \<noteq> [] \<longrightarrow> label_key (ord 0 (Labels e)) \<noteq> label_key (ord (Suc j) (Labels (es ! j))))"
  by (auto simp: first_of_key_def less_Suc_eq_0_disj)

lemma collect_seen_first:
  "(\<exists>k. (k, m) \<in> set (collect_seen ord n es seen)) \<longleftrightarrow> (\<exists>k. (k, m) \<in> set seen)
     \<or> (\<exists>j. first_of_key (\<lambda>i. ord (n + i)) es j \<and> m = Labels (es ! j)
          \<and> label_key (ord (n + j) (Labels (es ! j))) \<notin> fst ` set seen)"
proof (induction es arbitrary: n seen)
  case Nil
  then show ?case by (simp add: first_of_key_def)
next
  case (Cons e es)
  let ?k = "label_key (ord n (Labels e))"
  have split: "(\<exists>j. first_of_key (\<lambda>i. ord (n + i)) (e # es) j \<and> P j)
    \<longleftrightarrow> Labels e \<noteq> [] \<and> P 0 \<or> (\<exists>j. first_of_key (\<lambda>i. ord (n + i)) (e # es) (Suc j) \<and> P (Suc j))" for P
    by (metis first_of_key_Cons(1) not0_implies_Suc)
  show ?case
  proof (cases "Labels e \<noteq> [] \<and> ?k \<in> fst ` set seen")
    case True
    then have "label_key (ord (n + Suc j) (Labels (es ! j))) \<notin> fst ` set seen
        \<Longrightarrow> ?k \<noteq> label_key (ord (n + Suc j) (Labels (es ! j)))" for j by metis
    with True show ?thesis unfolding split unfolding first_of_key_Cons
      by (auto simp: Cons.IH Let_def map_of_eq_None_iff)
  next
    case False
    then show ?thesis unfolding split unfolding first_of_key_Cons
      by (auto simp: Cons.IH Let_def map_of_eq_None_iff)
  qed
qed

lemma collectLabelSets_first:
  assumes "order_ok mo"
  shows "set (collectLabelSets mo es) = {Labels (es ! j) |j. first_of_key (mo_iter mo) es j}"
proof -
  have "set (collectLabelSets mo es) = snd ` set (collect_seen (mo_iter mo) 0 es [])"
    using assms unfolding order_ok_def collectLabelSets_def by (metis list.set_map set_mset_mset)
  also have "\<dots> = {m. \<exists>k. (k, m) \<in> set (collect_seen (mo_iter mo) 0 es [])}" by force
  finally show ?thesis by (auto simp: collect_seen_first)
qed

lemma collect_seen_sound:
  "(k, ls) \<in> set (collect_seen ord i es seen) \<Longrightarrow>
   (k, ls) \<in> set seen \<or> (\<exists>e \<in> set es. Labels e = ls \<and> ls \<noteq> [])"
proof (induction es arbitrary: i seen)
  case (Cons e es)
  let ?k = "label_key (ord i (Labels e))"
  show ?case
  proof (cases "Labels e \<noteq> [] \<and> map_of seen ?k = None")
    case True
    then have "(k, ls) \<in> set (collect_seen ord (Suc i) es (seen @ [(?k, Labels e)]))"
      using Cons.prems by (simp add: Let_def)
    from Cons.IH [OF this] True show ?thesis by auto
  next
    case False
    then have "(k, ls) \<in> set (collect_seen ord (Suc i) es seen)"
      using Cons.prems by (auto simp: Let_def split: if_splits)
    from Cons.IH [OF this] show ?thesis by auto
  qed
qed simp

section \<open>Lemmas on flushing\<close>

lemma executeFlush_cases:
  assumes "executeFlush E opts mo uid job w = (r, w')"
  obtains (unencoded) e where "compressEntries E (fj_entries job) (bo_Compression opts) = Inl e"
      "r = None" "ext w' = ext w"
  | (failed) z e w1 where "compressEntries E (fj_entries job) (bo_Compression opts) = Inr z"
      "bo_Flusher opts (job_chunk opts mo uid job z) z w = (Some e, w1)" "r = None" "ext w' = ext w1"
  | (stored) z w1 where "compressEntries E (fj_entries job) (bo_Compression opts) = Inr z"
      "bo_Flusher opts (job_chunk opts mo uid job z) z w = (None, w1)"
      "r = Some (job_chunk opts mo uid job z)" "ext w' = ext w1"
  using assms by (auto simp: executeFlush_def Let_def split: sum.splits prod.splits option.splits)

lemma tick_inv: "tick opts b m = (ok, b', m') \<Longrightarrow> buffer_inv b \<Longrightarrow> buffer_inv b'"
  by (erule tick_cases) (auto intro: dispatchFlush_inv)

lemma Stop_flush_cases:
  assumes "Stop_flush opts b m = (ok, b', m')"
  obtains (again) "b_done b" "\<not> ok" "b' = b\<lparr>b_ticker := None\<rparr>" "m' = m"
  | (idle) "\<not> b_done b" "b_entries b = []" "ok" "b' = b\<lparr>b_ticker := None, b_done := True\<rparr>" "m' = m"
  | (fires) "\<not> b_done b" "b_entries b \<noteq> []"
      "dispatchFlush opts (b\<lparr>b_ticker := None, b_done := True\<rparr>) m = (ok, b', m')"
  using assms by (cases "b_done b"; cases "b_entries b = []") (auto simp: Stop_flush_def Let_def)

lemma buffer_inv_upd [simp]:
  "buffer_inv (b\<lparr>b_ticker := t\<rparr>) = buffer_inv b" "buffer_inv (b\<lparr>b_done := d\<rparr>) = buffer_inv b"
  by (simp_all add: buffer_inv_def batch_ok_def)

lemma Stop_flush_inv: "Stop_flush opts b m = (ok, b', m') \<Longrightarrow> buffer_inv b \<Longrightarrow> buffer_inv b'"
  by (erule Stop_flush_cases) (auto intro: dispatchFlush_inv)

text \<open>A sequence of calls of \<open>Add\<close>.\<close>

fun add_all :: "env \<Rightarrow> io_fault \<Rightarrow> 's BufferOpts \<Rightarrow> LogEntry list \<Rightarrow> Buffer \<Rightarrow> metrics \<Rightarrow> Buffer \<times> metrics" where
  "add_all E f opts [] b m = (b, m)"
| "add_all E f opts (e # es) b m = (case Add E f opts e b m of (_, b', m') \<Rightarrow> add_all E f opts es b' m')"

lemma add_all_size: "size_ok opts b \<Longrightarrow> size_ok opts (fst (add_all E f opts es b m))"
  by (induction es arbitrary: b m) (auto simp: Add_size split: prod.splits)

section \<open>Properties\<close>

text \<open>
  C26. The batch invariant: a new buffer satisfies it and every operation on the batch (\<open>Add\<close>, the
  ticker's, the flush of \<open>Stop\<close>) keeps it, whatever fails. A non-empty batch, in the buffer or in a job, knows the least and the greatest
  timestamp of its entries and the service of its first entry, no job is empty, and at most
  four jobs wait in the queue.
\<close>

theorem buffer_invariant:
  "(NewBuffer E f opts wal br m = Some (b0, m0) \<longrightarrow> buffer_inv b0)
   \<and> (buffer_inv b \<longrightarrow>
        (\<forall>e. buffer_inv (fst (snd (Add E f opts e b m)))) \<and> buffer_inv (fst (snd (tick opts b m)))
        \<and> buffer_inv (fst (snd (Stop_flush opts b m)))
        \<and> length (cbuf (b_flushCh b)) \<le> 4
        \<and> (\<forall>j \<in> set (pending b). fj_entries j \<noteq> [] \<and> fj_minTime j = Min (Timestamp ` set (fj_entries j))
            \<and> fj_maxTime j = Max (Timestamp ` set (fj_entries j)) \<and> fj_service j = Service (hd (fj_entries j))))"
proof (intro conjI impI allI)
  assume inv: "buffer_inv b"
  show "buffer_inv (fst (snd (Add E f opts e b m)))" for e
    using Add_inv [of E f opts e b m _ _ _, OF _ inv] by (metis prod.collapse)
  show "buffer_inv (fst (snd (tick opts b m)))" using tick_inv [OF _ inv] by (metis prod.collapse)
  show "buffer_inv (fst (snd (Stop_flush opts b m)))" using Stop_flush_inv [OF _ inv] by (metis prod.collapse)
  show "length (cbuf (b_flushCh b)) \<le> 4" using inv by (simp add: buffer_inv_def chan_ok_def)
  show "\<forall>j \<in> set (pending b). fj_entries j \<noteq> [] \<and> fj_minTime j = Min (Timestamp ` set (fj_entries j))
      \<and> fj_maxTime j = Max (Timestamp ` set (fj_entries j)) \<and> fj_service j = Service (hd (fj_entries j))"
    using inv by (auto simp: buffer_inv_def job_ok_def tmin_def tmax_def)
qed (rule NewBuffer_inv)

text \<open>
  \<open>Add\<close> before \<open>Stop\<close>: it returns, with true exactly if the entry is not below the minimum
  level (unknown levels rank lowest). An entry that is sampled out changes nothing but a
  counter. Any other entry ends up last in the current batch, after the old batch or, if the
  batch would outgrow \<open>MaxBytes\<close>, alone; the entries held by the buffer and its pending jobs
  are exactly those held before and the new one; and the gauge shows the batch size.
\<close>

theorem Add_result:
  assumes "Add E f opts entry b m = (r, b', m')" "\<not> cclosed (b_flushCh b)"
  shows "r = Some (\<not> below_min_level E opts entry)
    \<and> (below_min_level E opts entry \<longrightarrow> b' = b)
    \<and> (\<not> below_min_level E opts entry \<longrightarrow>
        b_entries b' = (if b_sizeEst b + estimateSize entry > bo_MaxBytes opts then [] else b_entries b) @ [entry]
        \<and> held b' = held b + {#entry#} \<and> EntriesBuffered m' = int (length (b_entries b')))"
proof -
  note ok = Add_ok [OF assms] and held = Add_held [OF assms(1)]
  from assms(1) show ?thesis
  proof (cases rule: Add_cases)
    case (kept b1 m1)
    then show ?thesis using held logged_sel(1) [OF kept(2)] by (auto simp: overflows_def)
  next
    case (flushed b1 m1 b2 m2)
    then show ?thesis using held dispatchFlush_frame(1) [OF flushed(4)] by (auto simp: overflows_def)
  qed (use ok in auto)
qed

text \<open>
  Write-ahead: if the disk accepts the bytes (even if syncing them fails), then when \<open>Add\<close>
  returns true, or panics, the log holds the entry after all earlier ones, and a process that
  starts on that log replays exactly these entries into its buffer, in order.
\<close>

theorem Add_survives_crash:
  assumes "codec E" "b_WAL b = Some w" "wal_holds E w es" "fits E entry" "f_write f = None"
    and "Add E f opts entry b m = (r, b', m')" "r \<noteq> Some False" "0 < bo_MaxAge opts2"
  shows "\<exists>w'. b_WAL b' = Some w' \<and> wal_holds E w' (es @ [entry])
    \<and> (\<forall>w2. OpenWAL dir None None (w_file w') = Inr w2 \<longrightarrow>
         (\<exists>b2 m2'. NewBuffer E no_fault opts2 (Some w2) br m2 = Some (b2, m2') \<and> b_entries b2 = es @ [entry]))"
proof -
  obtain w' where w': "b_WAL b' = Some w'" "wal_holds E w' (es @ [entry])"
    using Add_WAL [OF assms(6,7)] assms(2)
    by (rule_tac codec.Append_holds [OF assms(1,3,4,5), of m]) auto
  have "\<exists>b2 m2'. NewBuffer E no_fault opts2 (Some w2) br m2 = Some (b2, m2') \<and> b_entries b2 = es @ [entry]"
    if "OpenWAL dir None None (w_file w') = Inr w2" for w2
  proof -
    have "wal_holds E w2 (es @ [entry])" using that w'(2) by (auto simp: OpenWAL_def wal_holds_def)
    from codec.Recover_holds [OF assms(1) this] assms(8) show ?thesis
      by (simp add: NewBuffer_def Let_def fold_addToBuffer)
  qed
  with w' show ?thesis by blast
qed

text \<open>
  Batches are bounded: in a buffer that did not start from a recovered log, after any
  sequence of calls of \<open>Add\<close> the size estimate is the sum of the sizes of the batch, and the
  batch and every pending job stay within \<open>MaxBytes\<close> or consist of a single entry.
\<close>

theorem batches_bounded:
  assumes "NewBuffer E f opts None br m = Some (b0, m0)" "add_all E f opts es b0 m0 = (b, m1)"
  shows "b_sizeEst b = sum_list (map estimateSize (b_entries b))
    \<and> (sum_list (map estimateSize (b_entries b)) \<le> bo_MaxBytes opts \<or> length (b_entries b) \<le> 1)
    \<and> (\<forall>j \<in> set (pending b). sum_list (map estimateSize (fj_entries j)) \<le> bo_MaxBytes opts
         \<or> length (fj_entries j) \<le> 1)"
proof -
  have "b_entries b0 = []" using assms(1) by (auto simp: NewBuffer_def split: if_splits)
  then have "size_ok opts b0" using NewBuffer_inv [OF assms(1)] by (simp add: size_ok_def size_bounded_def)
  from add_all_size [OF this, of E f es m0] assms(2) show ?thesis
    by (simp add: size_ok_def size_bounded_def total_size_def)
qed

text \<open>
  The label sets of a chunk are exactly the non-empty label sets of its entries, in
  whatever order the runtime iterates over maps, provided no label key contains an equals
  sign and no label value a comma; so a query for labels that an entry carries never skips
  the chunk.
\<close>

theorem collectLabelSets_exact:
  assumes "order_ok mo" "\<forall>e \<in> set es. wf_labels (Labels e)"
    and "\<forall>e \<in> set es. \<forall>(k, v) \<in> set (Labels e). CHR ''='' \<notin> set k \<and> CHR '','' \<notin> set v"
  shows "set (collectLabelSets mo es) = Labels ` set es - {[]}
    \<and> (\<forall>e q. e \<in> set es \<and> Labels e \<noteq> [] \<and> all_match q (Labels e) \<longrightarrow> MatchLabels (collectLabelSets mo es) q)"
proof -
  have "set (collectLabelSets mo es) = Labels ` set es - {[]}"
    using assms by (intro collectLabelSets_set) (auto simp: plain_labels_def)
  then show ?thesis by (auto simp: MatchLabels_iff)
qed

definition in_order :: map_order where
  "in_order = \<lparr>mo_iter = (\<lambda>i m. m), mo_out = (\<lambda>xs. xs)\<rparr>"

definition labelled :: "labels \<Rightarrow> LogEntry" where
  "labelled m = \<lparr>Timestamp = 0, TZ = 0, Service = ''a'', Level = ''info'', Message = ''m'', Labels = m\<rparr>"

text \<open>
  C27. What the chunk of a batch says of its labels, and when that is not enough. Whatever order the
  maps are walked in, it records the labels of exactly those entries whose deduplication key no
  earlier entry of the batch has. Since the key joins names and values without quoting them, an
  entry may be dropped for one with other labels: if it has the key of an earlier entry and is the
  only one of the batch that a label query matches, that query skips the chunk. Such entries exist
  for all names and values: the labels \<open>{k: "v,k2=v2"}\<close> have the key of \<open>{k: "v", k2: "v2"}\<close>, so
  after an entry with the former the latter is not found by a query for \<open>k2=v2\<close>.
\<close>

theorem collectLabelSets_collision:
  assumes "order_ok mo"
  shows "set (collectLabelSets mo es) = {Labels (es ! j) |j. first_of_key (mo_iter mo) es j}
    \<and> (\<forall>i j q. i < j \<and> j < length es \<and> Labels (es ! i) \<noteq> []
          \<and> label_key (mo_iter mo i (Labels (es ! i))) = label_key (mo_iter mo j (Labels (es ! j)))
          \<and> q \<noteq> [] \<and> all_match q (Labels (es ! j)) \<and> (\<forall>l < length es. all_match q (Labels (es ! l)) \<longrightarrow> l = j)
        \<longrightarrow> \<not> MatchLabels (collectLabelSets mo es) q)
    \<and> (\<forall>e1 e2 k v k2 v2. Labels e1 = [(k, v @ '','' @ k2 @ ''='' @ v2)] \<and> Labels e2 = [(k, v), (k2, v2)] \<and> k \<noteq> k2 \<and> v2 \<noteq> ''''
        \<longrightarrow> all_match [(k2, v2)] (Labels e2) \<and> \<not> MatchLabels (collectLabelSets in_order [e1, e2]) [(k2, v2)])"
proof (intro conjI allI impI)
  show exact: "set (collectLabelSets mo es) = {Labels (es ! j) |j. first_of_key (mo_iter mo) es j}"
    by (rule collectLabelSets_first [OF assms])
  fix i j q
  assume "i < j \<and> j < length es \<and> Labels (es ! i) \<noteq> []
          \<and> label_key (mo_iter mo i (Labels (es ! i))) = label_key (mo_iter mo j (Labels (es ! j)))
          \<and> q \<noteq> [] \<and> all_match q (Labels (es ! j)) \<and> (\<forall>l < length es. all_match q (Labels (es ! l)) \<longrightarrow> l = j)"
  then have "\<not> first_of_key (mo_iter mo) es j" "q \<noteq> []" "\<And>l. first_of_key (mo_iter mo) es l \<Longrightarrow> all_match q (Labels (es ! l)) \<Longrightarrow> l = j"
    by (auto simp: first_of_key_def)
  then show "\<not> MatchLabels (collectLabelSets mo es) q" unfolding MatchLabels_iff exact by blast
next
  fix e1 e2 :: LogEntry and k v k2 v2
  assume e: "Labels e1 = [(k, v @ '','' @ k2 @ ''='' @ v2)] \<and> Labels e2 = [(k, v), (k2, v2)] \<and> k \<noteq> k2 \<and> v2 \<noteq> ''''"
  then show "all_match [(k2, v2)] (Labels e2)" by (auto simp: all_match_def lget_def)
  have "collectLabelSets in_order [e1, e2] = [Labels e1]"
    using e by (simp add: collectLabelSets_def in_order_def label_key_def Let_def)
  then show "\<not> MatchLabels (collectLabelSets in_order [e1, e2]) [(k2, v2)]"
    using e by (auto simp: MatchLabels_iff all_match_def lget_def)
qed

section \<open>Witnesses\<close>

text \<open>A small buffer without a log, whose flusher always succeeds.\<close>

definition wit_opts :: "mem BufferOpts" where
  "wit_opts =
     \<lparr>bo_MaxBytes = 100, bo_MaxAge = 30 * second, bo_Flusher = (\<lambda>ck z w. (None, w)),
      bo_Compression = ''gzip'', bo_MinLevel = ''info''\<rparr>"

definition wit_buffer :: Buffer where
  "wit_buffer =
     \<lparr>b_entries = [], b_sizeEst = 0, b_minTime = zero_time, b_maxTime = zero_time, b_service = '''',
      b_ticker = Some (30 * second), b_done = False, b_flushCh = make_chan 4, b_spawned = [],
      b_WAL = None, b_Broker = None\<rparr>"

lemma wit_new: "NewBuffer ref_env no_fault wit_opts None None metrics0 = Some (wit_buffer, metrics0)"
  by (simp add: NewBuffer_def wit_opts_def wit_buffer_def second_def)

lemma wit_below:
  "\<not> below_min_level ref_env wit_opts wit_entry"
  "below_min_level ref_env wit_opts (wit_entry\<lparr>Level := ''DEBUG''\<rparr>)"
  by code_simp+

theorem buffer_invariant_witness:
  "buffer_inv wit_buffer \<and> buffer_inv (fst (snd (Add ref_env no_fault wit_opts wit_entry wit_buffer metrics0)))"
  using buffer_invariant [of ref_env no_fault wit_opts None None metrics0 wit_buffer metrics0 wit_buffer] wit_new
  by blast

theorem Add_result_witness:
  "\<exists>b' m'. Add ref_env no_fault wit_opts wit_entry wit_buffer metrics0 = (Some True, b', m')
     \<and> b_entries b' = [wit_entry] \<and> EntriesBuffered m' = 1"
proof -
  obtain r b' m' where a: "Add ref_env no_fault wit_opts wit_entry wit_buffer metrics0 = (r, b', m')"
    by (metis prod_cases3)
  from Add_result [OF a] a wit_below(1) show ?thesis by (auto simp: wit_buffer_def)
qed

theorem Add_survives_crash_witness:
  "\<exists>b' m' w'. Add ref_env no_fault wit_opts wit_entry (wit_buffer\<lparr>b_WAL := Some wit_wal\<rparr>) metrics0 = (Some True, b', m')
     \<and> b_WAL b' = Some w' \<and> wal_holds ref_env w' [wit_entry]"
proof -
  let ?b = "wit_buffer\<lparr>b_WAL := Some wit_wal\<rparr>"
  obtain r b' m' where a: "Add ref_env no_fault wit_opts wit_entry ?b metrics0 = (r, b', m')"
    by (metis prod_cases3)
  then have r: "r = Some True" using Add_ok [OF a] wit_below(1) by (simp add: wit_buffer_def)
  have "wal_holds ref_env wit_wal []" by (simp add: wal_holds_def wit_wal_def)
  from Add_survives_crash [OF ref_codec _ this wit_entry_fits _ a, of wit_opts "''d''" None metrics0] r a
  show ?thesis by (auto simp: wit_opts_def second_def)
qed

theorem batches_bounded_witness:
  "\<exists>b m1. add_all ref_env no_fault wit_opts [wit_entry, wit_entry] wit_buffer metrics0 = (b, m1)
     \<and> b_sizeEst b = sum_list (map estimateSize (b_entries b))"
proof -
  obtain b m1 where a: "add_all ref_env no_fault wit_opts [wit_entry, wit_entry] wit_buffer metrics0 = (b, m1)"
    by fastforce
  from batches_bounded [OF wit_new a] a show ?thesis by blast
qed

theorem collectLabelSets_collision_witness:
  "\<not> MatchLabels (collectLabelSets in_order [labelled [(''a'', ''b,c=d'')], labelled [(''a'', ''b''), (''c'', ''d'')]]) [(''c'', ''d'')]"
proof -
  let ?e = "[labelled [(''a'', ''b,c=d'')], labelled [(''a'', ''b''), (''c'', ''d'')]]"
  have "order_ok in_order" by (simp add: order_ok_def in_order_def)
  from collectLabelSets_collision [OF this, of ?e, THEN conjunct2, THEN conjunct1, rule_format, of 0 1 "[(''c'', ''d'')]"]
  show ?thesis by (simp add: in_order_def labelled_def label_key_def all_match_def lget_def less_Suc_eq_0_disj)
qed

theorem collectLabelSets_exact_witness:
  "set (collectLabelSets in_order [labelled [(''a'', ''b'')], labelled [], labelled [(''a'', ''b'')]])
     = {[(''a'', ''b'')]}"
  using collectLabelSets_exact [of in_order "[labelled [(''a'', ''b'')], labelled [], labelled [(''a'', ''b'')]]"]
  by (simp add: in_order_def order_ok_def labelled_def insert_Diff_if)

end
