(* ===== verification/BufferSystem.thy ===== *)
theory BufferSystem
  imports Buffer
begin

text \<open>
  The buffer at work: the goroutines of \<open>buffer.go\<close> as a state machine whose steps are the
  critical sections and goroutine bodies of the theory \<open>Buffer\<close>, interleaved in any order:
  handlers that add entries, the ticker, the flush loop, the goroutines started when the
  queue is full, and \<open>Stop\<close>. A flush is one step, and so are the \<open>Reset\<close> and the \<open>Close\<close> of the log at
  the end of \<open>Stop\<close>, which are two sections of the log's mutex. The facts: no accepted entry ever vanishes unaccounted for, a
  flushed chunk is stored with truthful metadata, the log covers everything accepted until
  \<open>Stop\<close> has finished, and \<open>Stop\<close> gets through its queue.
\<close>

section \<open>States and steps\<close>

datatype stop_phase = Live | Stopping | Draining | Stopped

text \<open>
  \<open>y_running\<close> is the job of the flush loop. The last five components are history: the entries
  accepted (or recovered) so far and the entries given to the log, the chunks flushed with
  their entries, the batches whose flush failed or that went down with a panic, and whether a
  panic of the ticker goroutine has ended the process.
\<close>

record 's sys =
  y_buf :: Buffer
  y_world :: "'s world"
  y_running :: "flushJob option"
  y_stop :: stop_phase
  y_accepted :: "LogEntry list"
  y_logged :: "LogEntry list"
  y_flushed :: "(Chunk \<times> LogEntry list) list"
  y_lost :: "LogEntry list list"
  y_crashed :: bool

definition set_mx :: "metrics \<Rightarrow> 's world \<Rightarrow> 's world" where
  "set_mx m w = w\<lparr>mx := m\<rparr>"

text \<open>What a job's end adds to the history.\<close>

definition flush_done :: "flushJob \<Rightarrow> Chunk option \<Rightarrow> 's sys \<Rightarrow> 's sys" where
  "flush_done job r y =
     (case r of
        Some ck \<Rightarrow> y\<lparr>y_flushed := y_flushed y @ [(ck, fj_entries job)]\<rparr>
      | None \<Rightarrow> y\<lparr>y_lost := y_lost y @ [fj_entries job]\<rparr>)"

text \<open>A new uuid: it leads to a key that no flushed chunk has.\<close>

definition fresh_uid :: "'s BufferOpts \<Rightarrow> string \<Rightarrow> flushJob \<Rightarrow> 's sys \<Rightarrow> bool" where
  "fresh_uid opts uid job y \<longleftrightarrow>
     (\<forall>p \<in> set (y_flushed y). ck_Key (fst p) \<noteq> chunkKey (fj_service job) (fj_minTime job) uid (bo_Compression opts))"

text \<open>
  The steps, for disks that behave as in \<open>F\<close> and clients that send entries of \<open>A\<close>. A panic of
  \<open>Add\<close> is caught by the HTTP server; one of the ticker goroutine ends the process.
\<close>

inductive sys_step ::
  "env \<Rightarrow> 's BufferOpts \<Rightarrow> io_fault set \<Rightarrow> LogEntry set \<Rightarrow> 's sys \<Rightarrow> 's sys \<Rightarrow> bool"
  for E opts F A where
  add: "\<lbrakk>\<not> y_crashed y; f \<in> F; e \<in> A; Add E f opts e (y_buf y) (mx (y_world y)) = (Some True, b', m')\<rbrakk> \<Longrightarrow>
    sys_step E opts F A y (y\<lparr>y_buf := b', y_world := set_mx m' (y_world y),
      y_accepted := y_accepted y @ [e], y_logged := y_logged y @ [e]\<rparr>)"
| add_dropped: "\<lbrakk>\<not> y_crashed y; f \<in> F; e \<in> A; Add E f opts e (y_buf y) (mx (y_world y)) = (Some False, b', m')\<rbrakk> \<Longrightarrow>
    sys_step E opts F A y (y\<lparr>y_buf := b', y_world := set_mx m' (y_world y)\<rparr>)"
| add_panic: "\<lbrakk>\<not> y_crashed y; f \<in> F; e \<in> A; Add E f opts e (y_buf y) (mx (y_world y)) = (None, b', m')\<rbrakk> \<Longrightarrow>
    sys_step E opts F A y (y\<lparr>y_buf := b', y_world := set_mx m' (y_world y),
      y_logged := y_logged y @ [e], y_lost := y_lost y @ [b_entries (y_buf y)]\<rparr>)"
| tick: "\<lbrakk>\<not> y_crashed y; tick opts (y_buf y) (mx (y_world y)) = (True, b', m')\<rbrakk> \<Longrightarrow>
    sys_step E opts F A y (y\<lparr>y_buf := b', y_world := set_mx m' (y_world y)\<rparr>)"
| tick_panic: "\<lbrakk>\<not> y_crashed y; tick opts (y_buf y) (mx (y_world y)) = (False, b', m')\<rbrakk> \<Longrightarrow>
    sys_step E opts F A y (y\<lparr>y_buf := b', y_world := set_mx m' (y_world y),
      y_lost := y_lost y @ [b_entries (y_buf y)], y_crashed := True\<rparr>)"
| take_job: "\<lbrakk>\<not> y_crashed y; y_running y = None; recv (b_flushCh (y_buf y)) = Some (job, ch)\<rbrakk> \<Longrightarrow>
    sys_step E opts F A y (y\<lparr>y_buf := (y_buf y)\<lparr>b_flushCh := ch\<rparr>, y_running := Some job\<rparr>)"
| flush: "\<lbrakk>\<not> y_crashed y; y_running y = Some job; order_ok mo; fresh_uid opts uid job y;
     executeFlush E opts mo uid job (y_world y) = (r, w')\<rbrakk> \<Longrightarrow>
    sys_step E opts F A y (flush_done job r (y\<lparr>y_running := None, y_world := w'\<rparr>))"
| flush_spawned: "\<lbrakk>\<not> y_crashed y; b_spawned (y_buf y) = js @ job # ks; order_ok mo; fresh_uid opts uid job y;
     executeFlush E opts mo uid job (y_world y) = (r, w')\<rbrakk> \<Longrightarrow>
    sys_step E opts F A y (flush_done job r
      (y\<lparr>y_buf := (y_buf y)\<lparr>b_spawned := js @ ks\<rparr>, y_world := w'\<rparr>))"
| stop_flush: "\<lbrakk>\<not> y_crashed y; y_stop y = Live; Stop_flush opts (y_buf y) (mx (y_world y)) = (True, b', m')\<rbrakk> \<Longrightarrow>
    sys_step E opts F A y (y\<lparr>y_buf := b', y_world := set_mx m' (y_world y), y_stop := Stopping\<rparr>)"
| stop_close: "\<lbrakk>\<not> y_crashed y; y_stop y = Stopping\<rbrakk> \<Longrightarrow>
    sys_step E opts F A y (y\<lparr>y_buf := Stop_close (y_buf y), y_stop := Draining\<rparr>)"
| stop_finish: "\<lbrakk>\<not> y_crashed y; y_stop y = Draining; cbuf (b_flushCh (y_buf y)) = []; y_running y = None; f \<in> F;
     Stop_finish f cerr (y_buf y) (mx (y_world y)) = (b', m')\<rbrakk> \<Longrightarrow>
    sys_step E opts F A y (y\<lparr>y_buf := b', y_world := set_mx m' (y_world y), y_stop := Stopped\<rparr>)"

definition sys_start :: "Buffer \<Rightarrow> 's world \<Rightarrow> 's sys" where
  "sys_start b w =
     \<lparr>y_buf = b, y_world = w, y_running = None, y_stop = Live, y_accepted = b_entries b,
      y_logged = b_entries b, y_flushed = [], y_lost = [], y_crashed = False\<rparr>"

definition sys_init :: "env \<Rightarrow> 's BufferOpts \<Rightarrow> 's sys \<Rightarrow> bool" where
  "sys_init E opts y \<longleftrightarrow>
     (\<exists>f wal br m b m' w. NewBuffer E f opts wal br m = Some (b, m') \<and> y = sys_start b (set_mx m' w))"

section \<open>Invariants\<close>

definition running_entries :: "'s sys \<Rightarrow> LogEntry multiset" where
  "running_entries y = (case y_running y of None \<Rightarrow> {#} | Some j \<Rightarrow> mset (fj_entries j))"

definition shipped :: "'s sys \<Rightarrow> LogEntry multiset" where
  "shipped y = sum_list (map (\<lambda>p. mset (snd p)) (y_flushed y))"

definition lost :: "'s sys \<Rightarrow> LogEntry multiset" where
  "lost y = sum_list (map mset (y_lost y))"

definition conserved :: "'s sys \<Rightarrow> bool" where
  "conserved y \<longleftrightarrow> mset (y_accepted y) = held (y_buf y) + running_entries y + shipped y + lost y"

definition phase_ok :: "'s sys \<Rightarrow> bool" where
  "phase_ok y \<longleftrightarrow> (b_done (y_buf y) \<longleftrightarrow> y_stop y \<noteq> Live)
     \<and> (cclosed (b_flushCh (y_buf y)) \<longleftrightarrow> y_stop y = Draining \<or> y_stop y = Stopped)
     \<and> (y_stop y = Stopped \<longrightarrow> cbuf (b_flushCh (y_buf y)) = [] \<and> y_running y = None)"

definition sys_inv :: "'s sys \<Rightarrow> bool" where
  "sys_inv y \<longleftrightarrow> conserved y \<and> phase_ok y \<and> buffer_inv (y_buf y)
     \<and> (\<forall>j. y_running y = Some j \<longrightarrow> job_ok j)"

section \<open>Frames of the operations\<close>

text \<open>What no operation of the buffer but \<open>Stop\<close> changes: the phase flags, and a closed queue.\<close>

definition same_phase :: "Buffer \<Rightarrow> Buffer \<Rightarrow> bool" where
  "same_phase b b' \<longleftrightarrow> b_done b' = b_done b \<and> cclosed (b_flushCh b') = cclosed (b_flushCh b)
     \<and> (cclosed (b_flushCh b) \<longrightarrow> cbuf (b_flushCh b') = cbuf (b_flushCh b))"

lemma same_phase_refl [simp]: "same_phase b b"
  by (simp add: same_phase_def)

lemma dispatchFlush_phase: "dispatchFlush opts b m = (ok, b', m') \<Longrightarrow> same_phase b b'"
  by (erule dispatchFlush_cases) (auto simp: same_phase_def)

lemma logged_phase: "logged E f e b m = (b1, m1) \<Longrightarrow> same_phase b1 = same_phase b"
  using logged_sel [of E f e b m b1 m1] by (simp add: same_phase_def fun_eq_iff)

lemma inserted_phase: "same_phase b (inserted e c) = same_phase b c"
  by (simp add: same_phase_def)

lemma Add_phase: "Add E f opts e b m = (r, b', m') \<Longrightarrow> same_phase b b'"
proof (erule Add_cases)
  fix b1 m1 assume l: "logged E f e b m = (b1, m1)" and "b' = inserted e b1"
  then show ?thesis using logged_phase [OF l] same_phase_refl [of b1] by (simp add: inserted_phase)
next
  fix b1 m1 b2 m2 assume l: "logged E f e b m = (b1, m1)"
    and "dispatchFlush opts b1 m1 = (True, b2, m2)" "b' = inserted e b2"
  then show ?thesis using logged_phase [OF l] dispatchFlush_phase [of opts b1 m1] by (simp add: inserted_phase)
next
  fix b1 m1 m2 assume l: "logged E f e b m = (b1, m1)" and "dispatchFlush opts b1 m1 = (False, b', m2)"
  then show ?thesis using logged_phase [OF l] dispatchFlush_phase [of opts b1 m1 False] by simp
qed simp

lemma tick_phase: "tick opts b m = (ok, b', m') \<Longrightarrow> same_phase b b'"
  by (erule tick_cases) (auto dest: dispatchFlush_phase)

lemma tick_held:
  "tick opts b m = (ok, b', m') \<Longrightarrow> held b' + (if ok then {#} else mset (b_entries b)) = held b"
  by (erule tick_cases; cases ok) (auto dest: dispatchFlush_held dispatchFlush_panic_held)

lemma held_upd [simp]: "held (b\<lparr>b_ticker := t\<rparr>) = held b" "held (b\<lparr>b_done := d\<rparr>) = held b"
  by (simp_all add: held_def)

lemma Stop_flush_ok:
  assumes "Stop_flush opts b m = (True, b', m')"
  shows "held b' = held b" "b_done b'" "cclosed (b_flushCh b') = cclosed (b_flushCh b)"
  using assms by (auto elim!: Stop_flush_cases dest: dispatchFlush_held dispatchFlush_frame(5,6))

lemma Stop_close_sel [simp]:
  "held (Stop_close b) = held b" "b_done (Stop_close b) = b_done b" "cclosed (b_flushCh (Stop_close b))"
  "buffer_inv (Stop_close b) = buffer_inv b" "b_WAL (Stop_close b) = b_WAL b"
  by (simp_all add: Stop_close_def held_def pending_def buffer_inv_def batch_ok_def chan_ok_def)

lemma Stop_finish_sel:
  assumes "Stop_finish f cerr b m = (b', m')"
  shows "\<exists>x. b' = b\<lparr>b_WAL := x\<rparr>"
proof (cases "b_WAL b")
  case None
  then have "b' = b\<lparr>b_WAL := None\<rparr>" using assms by (simp add: Stop_finish_def)
  then show ?thesis ..
qed (use assms in \<open>auto simp: Stop_finish_def split: prod.splits\<close>)

lemma WAL_upd [simp]:
  "held (b\<lparr>b_WAL := x\<rparr>) = held b" "buffer_inv (b\<lparr>b_WAL := x\<rparr>) = buffer_inv b"
  by (simp_all add: held_def buffer_inv_def batch_ok_def)

text \<open>Taking a job from the queue or from the goroutines leaves the other jobs.\<close>

lemma take_job_held:
  assumes "recv (b_flushCh b) = Some (job, ch)"
  shows "held b = held (b\<lparr>b_flushCh := ch\<rparr>) + mset (fj_entries job)"
  using chan.take1_Some [OF assms] by (simp add: held_def pending_def)

lemma take_job_inv:
  assumes "recv (b_flushCh b) = Some (job, ch)" "buffer_inv b"
  shows "buffer_inv (b\<lparr>b_flushCh := ch\<rparr>)" "job_ok job"
  using chan.take1_Some [OF assms(1)] chan.take1_ok [OF _ assms(1)] assms(2)
  by (auto simp: buffer_inv_def pending_def batch_ok_def)

lemma take_spawned_held:
  assumes "b_spawned b = js @ job # ks"
  shows "held b = held (b\<lparr>b_spawned := js @ ks\<rparr>) + mset (fj_entries job)"
  using assms by (simp add: held_def pending_def)

lemma take_spawned_inv:
  assumes "b_spawned b = js @ job # ks" "buffer_inv b"
  shows "buffer_inv (b\<lparr>b_spawned := js @ ks\<rparr>)" "job_ok job"
  using assms by (auto simp: buffer_inv_def pending_def batch_ok_def)

lemma flush_done_sel [simp]:
  "y_buf (flush_done job r y) = y_buf y" "y_running (flush_done job r y) = y_running y"
  "y_stop (flush_done job r y) = y_stop y" "y_accepted (flush_done job r y) = y_accepted y"
  "y_logged (flush_done job r y) = y_logged y" "y_world (flush_done job r y) = y_world y"
  "y_crashed (flush_done job r y) = y_crashed y"
  by (simp_all add: flush_done_def split: option.splits)

lemma flush_done_where:
  "shipped (flush_done job r y) + lost (flush_done job r y) = shipped y + lost y + mset (fj_entries job)"
  by (simp add: flush_done_def shipped_def lost_def split: option.splits)

section \<open>The invariant of the system\<close>

lemmas conserved_defs = conserved_def running_entries_def shipped_def lost_def

lemma conserved_step:
  assumes "sys_step E opts F A y y'" "conserved y"
  shows "conserved y'"
  using assms
proof cases
  case (add f e b' m')
  then show ?thesis using assms(2) Add_held [OF add(5)] by (simp add: conserved_defs)
next
  case (add_dropped f e b' m')
  then show ?thesis using assms(2) Add_held [OF add_dropped(5)] by (simp add: conserved_defs)
next
  case (add_panic f e b' m')
  then show ?thesis using assms(2) Add_held [OF add_panic(5)] by (simp add: conserved_defs ac_simps)
next
  case (tick b' m')
  then show ?thesis using assms(2) tick_held [OF tick(3)] by (simp add: conserved_defs)
next
  case (tick_panic b' m')
  then show ?thesis using assms(2) tick_held [OF tick_panic(3)] by (simp add: conserved_defs ac_simps)
next
  case (take_job job ch)
  then show ?thesis using assms(2) take_job_held [OF take_job(4)] by (simp add: conserved_defs ac_simps)
next
  case (flush job mo uid r w')
  then show ?thesis
    using assms(2) flush_done_where [of job r "y\<lparr>y_running := None, y_world := w'\<rparr>"]
    by (simp add: conserved_defs ac_simps)
next
  case (flush_spawned js job ks mo uid r w')
  then show ?thesis
    using assms(2) take_spawned_held [OF flush_spawned(3)]
      flush_done_where [of job r "y\<lparr>y_buf := (y_buf y)\<lparr>b_spawned := js @ ks\<rparr>, y_world := w'\<rparr>"]
    by (simp add: conserved_defs ac_simps)
next
  case (stop_flush b' m')
  then show ?thesis using assms(2) Stop_flush_ok(1) [OF stop_flush(4)] by (simp add: conserved_defs)
next
  case (stop_finish f cerr b' m')
  then show ?thesis using assms(2) Stop_finish_sel [OF stop_finish(7)] by (auto simp: conserved_defs)
qed (use assms(2) in \<open>simp add: conserved_defs\<close>)

lemma phase_step:
  assumes "sys_step E opts F A y y'" "phase_ok y"
  shows "phase_ok y'"
proof -
  have same: "phase_ok y2"
    if "same_phase (y_buf y) (y_buf y2)" "y_stop y2 = y_stop y" "y_running y2 = y_running y" for y2 :: "'a sys"
    using assms(2) that by (auto simp: phase_ok_def same_phase_def)
  from assms(1) show ?thesis
  proof cases
    case (add f e b' m')
    then show ?thesis using Add_phase [OF add(5)] by (intro same) simp_all
  next
    case (add_dropped f e b' m')
    then show ?thesis using Add_phase [OF add_dropped(5)] by (intro same) simp_all
  next
    case (add_panic f e b' m')
    then show ?thesis using Add_phase [OF add_panic(5)] by (intro same) simp_all
  next
    case (tick b' m')
    then show ?thesis using tick_phase [OF tick(3)] by (intro same) simp_all
  next
    case (tick_panic b' m')
    then show ?thesis using tick_phase [OF tick_panic(3)] by (intro same) simp_all
  next
    case (take_job job ch)
    then show ?thesis
      using assms(2) chan.take1_Some [OF take_job(4)] by (auto simp: phase_ok_def)
  next
    case (stop_flush b' m')
    then show ?thesis using assms(2) Stop_flush_ok [OF stop_flush(4)] by (simp add: phase_ok_def)
  next
    case (stop_finish f cerr b' m')
    then show ?thesis
      using assms(2) Stop_finish_sel [OF stop_finish(7)] by (auto simp: phase_ok_def)
  qed (use assms(2) in \<open>auto simp: phase_ok_def\<close>)
qed

lemma jobs_step:
  assumes "sys_step E opts F A y y'" "buffer_inv (y_buf y) \<and> (\<forall>j. y_running y = Some j \<longrightarrow> job_ok j)"
  shows "buffer_inv (y_buf y') \<and> (\<forall>j. y_running y' = Some j \<longrightarrow> job_ok j)"
  using assms
proof cases
  case (take_job job ch)
  then show ?thesis using assms(2) take_job_inv [OF take_job(4)] by simp
next
  case (flush_spawned js job ks mo uid r w')
  then show ?thesis using assms(2) take_spawned_inv [OF flush_spawned(3)] by simp
next
  case (stop_finish f cerr b' m')
  then show ?thesis using assms(2) Stop_finish_sel [OF stop_finish(7)] by auto
qed (use assms(2) in \<open>auto dest: Add_inv tick_inv Stop_flush_inv\<close>)

lemma sys_inv_init: "sys_init E opts y \<Longrightarrow> sys_inv y"
  by (auto simp: sys_init_def sys_start_def sys_inv_def conserved_defs phase_ok_def held_def
      dest: NewBuffer_inv)

interpretation sysm: machine "sys_init E opts" "sys_step E opts F A" sys_inv
  for E and opts :: "'s BufferOpts" and F A
  by unfold_locales
    (auto simp: sys_inv_init, auto simp: sys_inv_def dest: conserved_step phase_step jobs_step)

section \<open>Flushed chunks are stored\<close>

text \<open>What is known of a chunk that was flushed with the entries \<open>es\<close>, in a world.\<close>

definition chunk_ok ::
  "env \<Rightarrow> 's BufferOpts \<Rightarrow> ('s world \<Rightarrow> string \<rightharpoonup> bytes) \<Rightarrow> 's world \<Rightarrow> Chunk \<Rightarrow> LogEntry list \<Rightarrow> bool" where
  "chunk_ok E opts stored w ck es \<longleftrightarrow>
     (\<exists>z job mo uid. job_ok job \<and> fj_entries job = es \<and> order_ok mo
        \<and> compressEntries E es (bo_Compression opts) = Inr z \<and> ck = job_chunk opts mo uid job z
        \<and> stored w (ck_Key ck) = Some z)"

definition flushed_ok ::
  "env \<Rightarrow> 's BufferOpts \<Rightarrow> ('s world \<Rightarrow> string \<rightharpoonup> bytes) \<Rightarrow> 's sys \<Rightarrow> bool" where
  "flushed_ok E opts stored y \<longleftrightarrow>
     (\<forall>p \<in> set (y_flushed y). chunk_ok E opts stored (y_world y) (fst p) (snd p))
     \<and> distinct (map (ck_Key \<circ> fst) (y_flushed y))"

lemma job_chunk_sel [simp]:
  "ck_Key (job_chunk opts mo uid job z) = chunkKey (fj_service job) (fj_minTime job) uid (bo_Compression opts)"
  "ck_Service (job_chunk opts mo uid job z) = fj_service job"
  "ck_MinTime (job_chunk opts mo uid job z) = fj_minTime job"
  "ck_MaxTime (job_chunk opts mo uid job z) = fj_maxTime job"
  "ck_EntryCount (job_chunk opts mo uid job z) = int (length (fj_entries job))"
  "ck_SizeBytes (job_chunk opts mo uid job z) = int (length z)"
  "ck_LabelSets (job_chunk opts mo uid job z) = collectLabelSets mo (fj_entries job)"
  by (simp_all add: job_chunk_def)

lemma chunk_ok_is_chunk_key: "chunk_ok E opts stored w ck es \<Longrightarrow> is_chunk_key (ck_Key ck)"
  by (auto simp: chunk_ok_def)

lemma chunk_ok_mono:
  "chunk_ok E opts stored w ck es \<Longrightarrow>
   (\<And>z. stored w (ck_Key ck) = Some z \<Longrightarrow> stored w' (ck_Key ck) = Some z) \<Longrightarrow> chunk_ok E opts stored w' ck es"
  unfolding chunk_ok_def by blast

context flusher
begin

lemma executeFlush_keeps:
  assumes "executeFlush E (opts\<lparr>bo_Flusher := flush\<rparr>) mo uid job w = (r, w')" "is_chunk_key k"
    and "k \<noteq> chunkKey (fj_service job) (fj_minTime job) uid (bo_Compression opts)" "stored w k = Some d"
  shows "stored w' k = Some d"
  using assms(1)
proof (cases rule: executeFlush_cases)
  case (unencoded e)
  then show ?thesis using assms(4) stored_ext by metis
next
  case (failed z e w1)
  then have "stored w1 k = Some d"
    using flush_keeps [OF assms(2) _ assms(4), of "job_chunk (opts\<lparr>bo_Flusher := flush\<rparr>) mo uid job z" z] assms(3)
    by simp
  then show ?thesis using failed(4) stored_ext by metis
next
  case (stored z w1)
  then have "stored w1 k = Some d"
    using flush_keeps [OF assms(2) _ assms(4), of "job_chunk (opts\<lparr>bo_Flusher := flush\<rparr>) mo uid job z" z] assms(3)
    by simp
  then show ?thesis using stored(4) stored_ext by metis
qed

lemma executeFlush_stores:
  assumes "executeFlush E (opts\<lparr>bo_Flusher := flush\<rparr>) mo uid job w = (Some ck, w')" "job_ok job" "order_ok mo"
  shows "chunk_ok E (opts\<lparr>bo_Flusher := flush\<rparr>) stored w' ck (fj_entries job)
    \<and> ck_Key ck = chunkKey (fj_service job) (fj_minTime job) uid (bo_Compression opts)"
  using assms(1)
proof (cases rule: executeFlush_cases)
  case (stored z w1)
  then have "stored w1 (ck_Key ck) = Some z"
    using flush_nil [of ck z w w1] by simp
  then have "stored w' (ck_Key ck) = Some z" using stored(4) stored_ext by metis
  then show ?thesis using stored assms(2,3) unfolding chunk_ok_def by auto
qed simp_all

lemma flushed_ok_flush:
  assumes run: "executeFlush E (opts\<lparr>bo_Flusher := flush\<rparr>) mo uid job (y_world y) = (r, w')"
    and "job_ok job" "order_ok mo" "fresh_uid (opts\<lparr>bo_Flusher := flush\<rparr>) uid job y"
    and ok: "flushed_ok E (opts\<lparr>bo_Flusher := flush\<rparr>) stored y"
    and y2: "y_flushed y2 = y_flushed y" "y_world y2 = w'"
  shows "flushed_ok E (opts\<lparr>bo_Flusher := flush\<rparr>) stored (flush_done job r y2)"
proof -
  let ?o = "opts\<lparr>bo_Flusher := flush\<rparr>"
  have old: "chunk_ok E ?o stored w' (fst p) (snd p)" if p: "p \<in> set (y_flushed y)" for p
  proof -
    have c: "chunk_ok E ?o stored (y_world y) (fst p) (snd p)" using ok p by (simp add: flushed_ok_def)
    have "ck_Key (fst p) \<noteq> chunkKey (fj_service job) (fj_minTime job) uid (bo_Compression opts)"
      using assms(4) p by (simp add: fresh_uid_def)
    then show ?thesis using executeFlush_keeps [OF run chunk_ok_is_chunk_key [OF c]] c by (blast intro: chunk_ok_mono)
  qed
  show ?thesis
  proof (cases r)
    case None
    then show ?thesis using ok old y2 by (simp add: flushed_ok_def flush_done_def)
  next
    case (Some ck)
    note st = executeFlush_stores [OF run [unfolded Some] assms(2,3)]
    have "ck_Key ck \<notin> (ck_Key \<circ> fst) ` set (y_flushed y)"
      using assms(4) st by (force simp: fresh_uid_def)
    then show ?thesis using Some ok old st y2 by (auto simp: flushed_ok_def flush_done_def)
  qed
qed

lemma flushed_ok_same:
  assumes "flushed_ok E opts stored y" "y_flushed y2 = y_flushed y" "ext (y_world y2) = ext (y_world y)"
  shows "flushed_ok E opts stored y2"
  using assms stored_ext [OF assms(3)] by (simp add: flushed_ok_def chunk_ok_def)

lemma flushed_step:
  assumes "sys_step E (opts\<lparr>bo_Flusher := flush\<rparr>) F A y y'" "sys_inv y"
    and "flushed_ok E (opts\<lparr>bo_Flusher := flush\<rparr>) stored y"
  shows "flushed_ok E (opts\<lparr>bo_Flusher := flush\<rparr>) stored y'"
  using assms(1)
proof cases
  case (flush job mo uid r w')
  then show ?thesis
    using assms(2,3) flushed_ok_flush [OF flush(6) _ flush(4,5) assms(3)] by (simp add: sys_inv_def)
next
  case (flush_spawned js job ks mo uid r w')
  have "job_ok job" using assms(2) take_spawned_inv(2) [OF flush_spawned(3)] by (simp add: sys_inv_def)
  then show ?thesis
    using flush_spawned flushed_ok_flush [OF flush_spawned(6) _ flush_spawned(4,5) assms(3)] by simp
qed ((rule flushed_ok_same [OF assms(3)]; simp add: set_mx_def)+)

lemma flushed_machine:
  "machine (sys_init E (opts\<lparr>bo_Flusher := flush\<rparr>)) (sys_step E (opts\<lparr>bo_Flusher := flush\<rparr>) F A)
     (\<lambda>y. sys_inv y \<and> flushed_ok E (opts\<lparr>bo_Flusher := flush\<rparr>) stored y)"
proof
  fix y assume init: "sys_init E (opts\<lparr>bo_Flusher := flush\<rparr>) y"
  then have "y_flushed y = []" by (auto simp: sys_init_def sys_start_def)
  then show "sys_inv y \<and> flushed_ok E (opts\<lparr>bo_Flusher := flush\<rparr>) stored y"
    using sys_inv_init [OF init] by (simp add: flushed_ok_def)
next
  fix y y' assume "sys_inv y \<and> flushed_ok E (opts\<lparr>bo_Flusher := flush\<rparr>) stored y"
    and step: "sys_step E (opts\<lparr>bo_Flusher := flush\<rparr>) F A y y'"
  then show "sys_inv y' \<and> flushed_ok E (opts\<lparr>bo_Flusher := flush\<rparr>) stored y'"
    using flushed_step [OF step] sysm.inv_step [OF _ step] by blast
qed

end

sublocale flusher \<subseteq> flushm: machine "sys_init E (opts\<lparr>bo_Flusher := flush\<rparr>)"
  "sys_step E (opts\<lparr>bo_Flusher := flush\<rparr>) F A"
  "\<lambda>y. sys_inv y \<and> flushed_ok E (opts\<lparr>bo_Flusher := flush\<rparr>) stored y" for E opts F A
  by (rule flushed_machine)

section \<open>The log covers what was accepted\<close>

definition wal_inv :: "env \<Rightarrow> 's sys \<Rightarrow> bool" where
  "wal_inv E y \<longleftrightarrow> subseq (y_accepted y) (y_logged y)
     \<and> (y_stop y \<noteq> Stopped \<longrightarrow> (\<exists>w. b_WAL (y_buf y) = Some w \<and> wal_holds E w (y_logged y)))"

text \<open>A process that starts on a healthy log.\<close>

definition sys_init_wal :: "env \<Rightarrow> 's BufferOpts \<Rightarrow> 's sys \<Rightarrow> bool" where
  "sys_init_wal E opts y \<longleftrightarrow>
     (\<exists>w es br m b m' wd. wal_holds E w es \<and> NewBuffer E no_fault opts (Some w) br m = Some (b, m')
        \<and> y = sys_start b (set_mx m' wd))"

text \<open>Disks that take every write, whether or not they manage to sync it.\<close>

definition writes_ok :: "io_fault set" where
  "writes_ok = {f. f_write f = None}"

context codec
begin

lemma wal_init: "sys_init_wal E opts y \<Longrightarrow> wal_inv E y"
proof -
  assume "sys_init_wal E opts y"
  then obtain w es br m b m' wd where w: "wal_holds E w es"
    "NewBuffer E no_fault opts (Some w) br m = Some (b, m')" "y = sys_start b (set_mx m' wd)"
    by (auto simp: sys_init_wal_def)
  have "b_entries b = es \<and> b_WAL b = Some (w\<lparr>w_n := int (length es)\<rparr>)"
    using w(2) Recover_holds [OF w(1), of m]
    by (auto simp: NewBuffer_def Let_def fold_addToBuffer split: if_splits)
  then show ?thesis using w(1,3) by (simp add: wal_inv_def sys_start_def wal_holds_def)
qed

lemma wal_add:
  assumes "Add E f opts e (y_buf y) m = (r, b', m')" "r \<noteq> Some False" "f \<in> writes_ok" "fits E e"
    and "b_WAL (y_buf y) = Some w" "wal_holds E w ls"
  shows "\<exists>w'. b_WAL b' = Some w' \<and> wal_holds E w' (ls @ [e])"
  using Add_WAL [OF assms(1,2)] assms(5)
  by (rule_tac Append_holds [OF assms(6,4), of f m]) (use assms(3) in \<open>auto simp: writes_ok_def\<close>)

lemma tick_WAL: "tick opts b m = (ok, b', m') \<Longrightarrow> b_WAL b' = b_WAL b"
  by (erule tick_cases) (auto dest: dispatchFlush_frame(3))

lemma Stop_flush_WAL: "Stop_flush opts b m = (ok, b', m') \<Longrightarrow> b_WAL b' = b_WAL b"
  by (erule Stop_flush_cases) (auto dest: dispatchFlush_frame(3))

lemma subseq_snoc: "subseq xs ys \<Longrightarrow> subseq (xs @ [e]) (ys @ [e])" "subseq xs ys \<Longrightarrow> subseq xs (ys @ [e])"
  by (auto intro: list_emb_append_mono subseq_rev_drop_many)

lemma wal_step:
  assumes "sys_step E opts writes_ok (Collect (fits E)) y y'" "wal_inv E y"
  shows "wal_inv E y'"
proof -
  have same: "wal_inv E y2"
    if "b_WAL (y_buf y2) = b_WAL (y_buf y)" "y_stop y2 = Stopped \<or> y_stop y \<noteq> Stopped"
      "y_accepted y2 = y_accepted y" "y_logged y2 = y_logged y" for y2 :: "'a sys"
    using assms(2) that by (auto simp: wal_inv_def)
  have log: "wal_inv E y2"
    if "Add E f opts e (y_buf y) m = (r, b', m')" "r \<noteq> Some False" "f \<in> writes_ok" "e \<in> Collect (fits E)"
      "y_buf y2 = b'" "y_stop y2 = y_stop y" "subseq (y_accepted y2) (y_logged y @ [e])"
      "y_logged y2 = y_logged y @ [e]" for y2 :: "'a sys" and f e m r b' m'
    using assms(2) that wal_add [OF that(1-3)] by (auto simp: wal_inv_def)
  have sub: "subseq (y_accepted y) (y_logged y)" using assms(2) by (simp add: wal_inv_def)
  from assms(1) show ?thesis
  proof cases
    case (add f e b' m')
    then show ?thesis using subseq_snoc [OF sub] by (intro log [OF add(5)]) auto
  next
    case (add_dropped f e b' m')
    then have "b' = y_buf y" by (auto elim: Add_cases)
    then show ?thesis using add_dropped by (intro same) auto
  next
    case (add_panic f e b' m')
    then show ?thesis using subseq_snoc [OF sub] by (intro log [OF add_panic(5)]) auto
  next
    case (tick b' m')
    then show ?thesis using tick_WAL by (intro same) auto
  next
    case (tick_panic b' m')
    then show ?thesis using tick_WAL by (intro same) auto
  next
    case (stop_flush b' m')
    then show ?thesis using Stop_flush_WAL by (intro same) auto
  next
    case (stop_finish f cerr b' m')
    then show ?thesis using sub by (simp add: wal_inv_def)
  qed (rule same; simp)+
qed

lemma wal_machine: "machine (sys_init_wal E opts) (sys_step E opts writes_ok (Collect (fits E))) (wal_inv E)"
  by unfold_locales (auto intro: wal_init wal_step)

end

sublocale codec \<subseteq> walm: machine "sys_init_wal E opts" "sys_step E opts writes_ok (Collect (fits E))" "wal_inv E"
  for opts
  by (rule wal_machine)

section \<open>Draining the queue\<close>

definition backlog :: "'s sys \<Rightarrow> nat" where
  "backlog y = 2 * length (cbuf (b_flushCh (y_buf y))) + (case y_running y of None \<Rightarrow> 0 | Some _ \<Rightarrow> 1)"

lemma fresh_uid_exists: "\<exists>uid. fresh_uid opts uid job y"
proof -
  let ?key = "\<lambda>uid. chunkKey (fj_service job) (fj_minTime job) uid (bo_Compression opts)"
  have "inj ?key" by (rule injI) (simp add: chunkKey_def)
  then have "infinite (range ?key)" using infinite_UNIV_listI finite_imageD by blast
  then have "\<not> range ?key \<subseteq> (ck_Key \<circ> fst) ` set (y_flushed y)" using finite_subset by blast
  then obtain uid where "?key uid \<notin> (ck_Key \<circ> fst) ` set (y_flushed y)" by blast
  then have "fresh_uid opts uid job y" by (force simp: fresh_uid_def)
  then show ?thesis ..
qed

lemma in_order_ok: "order_ok in_order"
  by (simp add: order_ok_def in_order_def)

lemma backlog_flush_done [simp]: "backlog (flush_done job r y) = backlog y"
  by (simp add: backlog_def)

lemma drain_step:
  assumes "sys_inv y" "y_stop y = Draining" "\<not> y_crashed y" "f \<in> F"
  shows "\<exists>y'. sys_step E opts F A y y' \<and> (y_stop y' = Stopped \<or> y_stop y' = Draining \<and> backlog y' < backlog y)"
proof (cases "y_running y")
  case (Some job)
  obtain uid where uid: "fresh_uid opts uid job y" using fresh_uid_exists by blast
  obtain r w' where "executeFlush E opts in_order uid job (y_world y) = (r, w')" by fastforce
  from sys_step.flush [OF assms(3) Some in_order_ok uid this] show ?thesis
    using assms(2) Some by (intro exI conjI) (assumption, simp add: backlog_def)
next
  case None
  show ?thesis
  proof (cases "recv (b_flushCh (y_buf y))")
    case (Some p)
    obtain job ch where p: "p = (job, ch)" by fastforce
    note t = Some [unfolded p]
    from sys_step.take_job [OF assms(3) None t] show ?thesis
      using assms(2) None chan.take1_Some [OF t] by (intro exI conjI) (assumption, simp add: backlog_def)
  next
    case empty: None
    obtain b' m' where "Stop_finish f None (y_buf y) (mx (y_world y)) = (b', m')" by fastforce
    from sys_step.stop_finish [OF assms(3,2) _ None assms(4) this] empty show ?thesis
      by (intro exI conjI) (auto simp: chan.take1_None)
  qed
qed

lemma drain_mono:
  assumes "sys_step E opts F A y y'" "sys_inv y" "y_stop y = Draining"
  shows "y_stop y' \<in> {Draining, Stopped} \<and> backlog y' \<le> backlog y"
proof -
  have closed: "cclosed (b_flushCh (y_buf y))" using assms(2,3) by (simp add: sys_inv_def phase_ok_def)
  have same: "y_stop y2 \<in> {Draining, Stopped} \<and> backlog y2 \<le> backlog y"
    if "same_phase (y_buf y) (y_buf y2)" "y_stop y2 = y_stop y" "y_running y2 = y_running y" for y2 :: "'a sys"
    using that closed assms(3) by (simp add: same_phase_def backlog_def)
  from assms(1) show ?thesis
  proof cases
    case (take_job job ch)
    then show ?thesis using assms(3) chan.take1_Some [OF take_job(4)] by (simp add: backlog_def)
  next
    case (stop_finish f cerr b' m')
    then show ?thesis using Stop_finish_sel [OF stop_finish(7)] by (auto simp: backlog_def)
  next
    case (add f e b' m')
    then show ?thesis using Add_phase by (intro same) auto
  next
    case (add_dropped f e b' m')
    then show ?thesis using Add_phase by (intro same) auto
  next
    case (add_panic f e b' m')
    then show ?thesis using Add_phase by (intro same) auto
  next
    case (tick b' m')
    then show ?thesis using tick_phase by (intro same) auto
  next
    case (tick_panic b' m')
    then show ?thesis using tick_phase by (intro same) auto
  qed (use assms(3) in \<open>simp_all add: backlog_def\<close>)
qed

lemma wal_recovered:
  assumes "codec E" "reach (sys_init_wal E opts) (sys_step E opts writes_ok (Collect (fits E))) y"
    and "y_stop y \<noteq> Stopped" "0 < bo_MaxAge opts2"
  shows "\<exists>w w2 b2 m3. b_WAL (y_buf y) = Some w \<and> OpenWAL dir None None (w_file w) = Inr w2
    \<and> NewBuffer E no_fault opts2 (Some w2) br m2 = Some (b2, m3)
    \<and> b_entries b2 = y_logged y \<and> subseq (y_accepted y) (y_logged y)"
proof -
  have "wal_inv E y" using machine.reach_inv [OF codec.wal_machine [OF assms(1)] assms(2)] .
  then obtain w where w: "b_WAL (y_buf y) = Some w" "wal_holds E w (y_logged y)" "subseq (y_accepted y) (y_logged y)"
    using assms(3) by (auto simp: wal_inv_def)
  let ?w = "\<lparr>w_file = w_file w, w_open = True, w_enc = None, w_n = 0\<rparr>"
  have "wal_holds E ?w (y_logged y)" using w(2) by (simp add: wal_holds_def)
  from codec.Recover_holds [OF assms(1) this, of m2] assms(4) w show ?thesis
    by (simp add: OpenWAL_def NewBuffer_def Let_def fold_addToBuffer)
qed

section \<open>Properties\<close>

text \<open>
  C1. No accepted entry vanishes: in every reachable state, whatever fails, the accepted and
  recovered entries are exactly those in the batch, in pending jobs (at most four of them in
  the queue), in the job of the flush loop, in flushed chunks, and in batches whose flush
  failed or that a panic dropped.
\<close>

theorem no_entry_vanishes:
  assumes "reach (sys_init E opts) (sys_step E opts F A) y"
  shows "mset (y_accepted y) = mset (b_entries (y_buf y)) + entries_of (pending (y_buf y))
      + (case y_running y of None \<Rightarrow> {#} | Some j \<Rightarrow> mset (fj_entries j))
      + (\<Sum>p\<leftarrow>y_flushed y. mset (snd p)) + (\<Sum>es\<leftarrow>y_lost y. mset es)
    \<and> length (cbuf (b_flushCh (y_buf y))) \<le> 4"
  using sysm.reach_inv [OF assms]
  by (simp add: sys_inv_def conserved_defs held_def buffer_inv_def chan_ok_def)

text \<open>
  C6. What the S3 flusher reported as flushed is stored: in every reachable state, each
  flushed chunk has its own key, the bucket holds under that key the compressed entries of its batch, and the
  chunk's record states the true time range, count and size, and the service of the first
  entry.
\<close>

theorem flushed_chunks_stored:
  assumes "waiting_store api obj C"
    and "reach (sys_init E (opts\<lparr>bo_Flusher := Flush E api C rnd fl\<rparr>))
      (sys_step E (opts\<lparr>bo_Flusher := Flush E api C rnd fl\<rparr>) F A) y"
    and "(ck, es) \<in> set (y_flushed y)"
  shows "(\<exists>z. compressEntries E es (bo_Compression opts) = Inr z
      \<and> objects obj (fl_client fl) (y_world y) (s3_prefix (fl_client fl) @ ck_Key ck) = Some z
      \<and> ck_SizeBytes ck = int (length z))
    \<and> es \<noteq> [] \<and> ck_MinTime ck = Min (Timestamp ` set es) \<and> ck_MaxTime ck = Max (Timestamp ` set es)
    \<and> ck_EntryCount ck = int (length es) \<and> ck_Service ck = Service (hd es)
    \<and> distinct (map (ck_Key \<circ> fst) (y_flushed y))"
proof -
  note fl = waiting_store.Flush_flusher [OF assms(1), of E rnd fl]
  have ok: "flushed_ok E (opts\<lparr>bo_Flusher := Flush E api C rnd fl\<rparr>) (chunk_object obj (fl_client fl)) y"
    using machine.reach_inv [OF flusher.flushed_machine [OF fl] assms(2)] by blast
  then have "chunk_ok E (opts\<lparr>bo_Flusher := Flush E api C rnd fl\<rparr>) (chunk_object obj (fl_client fl)) (y_world y) ck es"
    using assms(3) by (auto simp: flushed_ok_def)
  then obtain z job mo uid where "job_ok job" "fj_entries job = es"
    "compressEntries E es (bo_Compression opts) = Inr z"
    "ck = job_chunk (opts\<lparr>bo_Flusher := Flush E api C rnd fl\<rparr>) mo uid job z"
    "chunk_object obj (fl_client fl) (y_world y) (ck_Key ck) = Some z"
    by (auto simp: chunk_ok_def)
  then show ?thesis using ok by (auto simp: job_ok_def tmin_def tmax_def chunk_object_def flushed_ok_def)
qed

text \<open>
  When \<open>Stop\<close> has returned, every accepted entry has been flushed, except those of failed
  flushes or panics, those added after \<open>Stop\<close> took its snapshot, and those in goroutines that
  the full queue had started, for which \<open>Stop\<close> does not wait.
\<close>

theorem stop_accounts:
  assumes "reach (sys_init E opts) (sys_step E opts F A) y" "y_stop y = Stopped"
  shows "mset (y_accepted y) = (\<Sum>p\<leftarrow>y_flushed y. mset (snd p)) + (\<Sum>es\<leftarrow>y_lost y. mset es)
    + mset (b_entries (y_buf y)) + entries_of (b_spawned (y_buf y))"
proof -
  note inv = sysm.reach_inv [OF assms(1)]
  then have "cbuf (b_flushCh (y_buf y)) = [] \<and> y_running y = None"
    using assms(2) by (simp add: sys_inv_def phase_ok_def)
  with inv show ?thesis by (simp add: sys_inv_def conserved_defs held_def pending_def ac_simps)
qed

text \<open>
  C2. Crash recovery: start on a healthy log, let clients send entries whose lines fit the
  scanner and let the disk take every write. Then at any moment before \<open>Stop\<close> has finished, a
  crash loses nothing: a new process on the same file starts with a buffer that holds every
  entry given to \<open>Add\<close> so far that is not below the minimum level, in order, among them all
  accepted ones. (Entries that were flushed already are replayed as well, since only \<open>Stop\<close> truncates the log.)
\<close>

theorem crash_recovery:
  assumes "codec E" "reach (sys_init_wal E opts) (sys_step E opts writes_ok (Collect (fits E))) y"
    and "y_stop y \<noteq> Stopped" "0 < bo_MaxAge opts2"
  shows "\<exists>w w2 b2 m3. b_WAL (y_buf y) = Some w \<and> OpenWAL dir None None (w_file w) = Inr w2
    \<and> NewBuffer E no_fault opts2 (Some w2) br m2 = Some (b2, m3)
    \<and> b_entries b2 = y_logged y \<and> subseq (y_accepted y) (y_logged y)"
  by (rule wal_recovered [OF assms])

text \<open>
  C17. \<open>Stop\<close> gets through: once the queue is closed, no step of any goroutine makes the backlog
  grow, and as long as \<open>Stop\<close> has not finished some step is possible that shrinks the backlog
  or finishes \<open>Stop\<close>.
\<close>

theorem stop_drains:
  assumes "reach (sys_init E opts) (sys_step E opts F A) y" "y_stop y = Draining" "F \<noteq> {}"
  shows "(\<forall>y'. sys_step E opts F A y y' \<longrightarrow> y_stop y' \<in> {Draining, Stopped} \<and> backlog y' \<le> backlog y)
    \<and> (\<not> y_crashed y \<longrightarrow> (\<exists>y'. sys_step E opts F A y y'
         \<and> (y_stop y' = Stopped \<or> y_stop y' = Draining \<and> backlog y' < backlog y)))"
  using drain_mono [of E opts F A y] drain_step [of y _ F E opts A] sysm.reach_inv [OF assms(1)] assms(2,3)
  by blast

section \<open>A run\<close>

text \<open>One entry is accepted, \<open>Stop\<close> begins, and the flush loop takes the job.\<close>

abbreviation run_opts :: "(Chunk \<Rightarrow> bytes \<Rightarrow> mem world \<Rightarrow> err option \<times> mem world) \<Rightarrow> mem BufferOpts" where
  "run_opts fl \<equiv> wit_opts\<lparr>bo_Flusher := fl\<rparr>"

abbreviation run_reach :: "(Chunk \<Rightarrow> bytes \<Rightarrow> mem world \<Rightarrow> err option \<times> mem world) \<Rightarrow> mem sys \<Rightarrow> bool" where
  "run_reach fl \<equiv> reach (sys_init_wal ref_env (run_opts fl))
     (sys_step ref_env (run_opts fl) writes_ok (Collect (fits ref_env)))"

definition run_state :: "flushJob list \<Rightarrow> flushJob option \<Rightarrow> mem sys \<Rightarrow> bool" where
  "run_state q r y \<longleftrightarrow> \<not> y_crashed y \<and> cbuf (b_flushCh (y_buf y)) = q \<and> y_running y = r
     \<and> y_accepted y = [wit_entry] \<and> y_logged y = [wit_entry] \<and> y_flushed y = [] \<and> y_lost y = []
     \<and> b_spawned (y_buf y) = []"

definition wit_job :: flushJob where
  "wit_job = \<lparr>fj_entries = [wit_entry], fj_service = ''a'', fj_minTime = 5, fj_maxTime = 5\<rparr>"

lemma reach_mono:
  assumes "reach I R y" "\<And>y. I y \<Longrightarrow> J y"
  shows "reach J R y"
  using assms by (induction rule: reach.induct) (auto intro: reach.intros)

lemma init_wal_init: "sys_init_wal E opts y \<Longrightarrow> sys_init E opts y"
  unfolding sys_init_wal_def sys_init_def by blast

lemma run_init:
  "\<exists>y. sys_init_wal ref_env (run_opts fl) y \<and> y_stop y = Live \<and> \<not> y_crashed y \<and> y_running y = None
     \<and> y_accepted y = [] \<and> y_logged y = [] \<and> y_flushed y = [] \<and> y_lost y = []
     \<and> y_buf y = wit_buffer\<lparr>b_WAL := Some (wit_wal\<lparr>w_n := 0\<rparr>)\<rparr>"
proof -
  have holds: "wal_holds ref_env wit_wal []" by (simp add: wal_holds_def wit_wal_def)
  from ref.Recover_holds [OF this, of metrics0] obtain m' where
    "NewBuffer ref_env no_fault (run_opts fl) (Some wit_wal) None metrics0
      = Some (wit_buffer\<lparr>b_WAL := Some (wit_wal\<lparr>w_n := 0\<rparr>)\<rparr>, m')"
    by (simp add: NewBuffer_def wit_opts_def wit_buffer_def second_def)
  with holds have "sys_init_wal ref_env (run_opts fl) (sys_start (wit_buffer\<lparr>b_WAL := Some (wit_wal\<lparr>w_n := 0\<rparr>)\<rparr>) (set_mx m' wit_world))"
    unfolding sys_init_wal_def by blast
  then show ?thesis by (rule_tac exI, rule_tac conjI, assumption) (auto simp: sys_start_def wit_buffer_def)
qed

lemma run_start:
  "\<exists>y. run_reach fl y \<and> y_stop y = Live \<and> \<not> y_crashed y \<and> y_running y = None
     \<and> y_accepted y = [] \<and> y_logged y = [] \<and> y_flushed y = [] \<and> y_lost y = []
     \<and> (\<exists>x. y_buf y = wit_buffer\<lparr>b_WAL := Some x\<rparr>)"
  using run_init [of fl] reach_init [of "sys_init_wal ref_env (run_opts fl)"] by blast

lemma run_added:
  "\<exists>y. run_reach fl y \<and> y_stop y = Live \<and> run_state [] None y \<and> snapshot (y_buf y) = wit_job
     \<and> \<not> cclosed (b_flushCh (y_buf y)) \<and> ccap (b_flushCh (y_buf y)) = 4 \<and> \<not> b_done (y_buf y)"
proof -
  obtain y x where y: "run_reach fl y" "y_stop y = Live" "\<not> y_crashed y" "y_running y = None"
    "y_accepted y = []" "y_logged y = []" "y_flushed y = []" "y_lost y = []"
    "y_buf y = wit_buffer\<lparr>b_WAL := Some x\<rparr>" using run_start by blast
  have low: "\<not> below_min_level ref_env (run_opts fl) wit_entry"
    using wit_below(1) by (simp add: below_min_level_def)
  obtain r m' b' where a: "Add ref_env no_fault (run_opts fl) wit_entry (y_buf y) (mx (y_world y)) = (r, b', m')"
    by (metis prod_cases3)
  have "r = Some True" using Add_ok [OF a] low y(9) by (simp add: wit_buffer_def)
  note a = a [unfolded this]
  have "\<not> overflows (run_opts fl) wit_entry (y_buf y)" by (simp add: overflows_def y(9) wit_buffer_def)
  then obtain b1 m1 where "logged ref_env no_fault wit_entry (y_buf y) (mx (y_world y)) = (b1, m1)"
    "b' = inserted wit_entry b1" using a low by (auto elim: Add_cases)
  then obtain x' where b': "b' = inserted wit_entry (wit_buffer\<lparr>b_WAL := Some x'\<rparr>)"
    by (auto simp: logged_def y(9) split: prod.splits)
  let ?y = "y\<lparr>y_buf := b', y_world := set_mx m' (y_world y),
      y_accepted := y_accepted y @ [wit_entry], y_logged := y_logged y @ [wit_entry]\<rparr>"
  have "run_reach fl ?y"
    by (rule reach_step [OF y(1) sys_step.add [OF y(3) _ _ a]]) (simp_all add: writes_ok_def wit_entry_fits)
  moreover have "snapshot b' = wit_job"
    by (simp add: b' snapshot_def inserted_def addToBuffer_def wit_buffer_def wit_job_def wit_entry_def
        Let_def Before_def After_def)
  ultimately show ?thesis
    using y b' by (intro exI [of _ ?y]) (simp add: run_state_def wit_buffer_def)
qed

lemma run_draining:
  "\<exists>y. run_reach fl y \<and> y_stop y = Draining \<and> run_state [] (Some wit_job) y"
proof -
  obtain y where y: "run_reach fl y" "y_stop y = Live" "run_state [] None y" "snapshot (y_buf y) = wit_job"
    "\<not> cclosed (b_flushCh (y_buf y))" "ccap (b_flushCh (y_buf y)) = 4" "\<not> b_done (y_buf y)"
    using run_added by blast
  have ne: "b_entries (y_buf y) \<noteq> []" using y(4) by (auto simp: snapshot_def wit_job_def)
  obtain ok b1 m1 where d: "Stop_flush (run_opts fl) (y_buf y) (mx (y_world y)) = (ok, b1, m1)" by (metis prod_cases3)
  then have b1: "ok" "cbuf (b_flushCh b1) = [wit_job]" "b_spawned b1 = []"
    using y(3-7) ne by (auto simp: run_state_def snapshot_def elim!: Stop_flush_cases dispatchFlush_cases)
  let ?y1 = "y\<lparr>y_buf := b1, y_world := set_mx m1 (y_world y), y_stop := Stopping\<rparr>"
  have nc: "\<not> y_crashed y" "y_running y = None" using y(3) by (simp_all add: run_state_def)
  have r1: "run_reach fl ?y1"
    using d b1(1) y(2) by (intro reach_step [OF y(1)] sys_step.stop_flush [OF nc(1)]) auto
  let ?y2 = "?y1\<lparr>y_buf := Stop_close (y_buf ?y1), y_stop := Draining\<rparr>"
  have r2: "run_reach fl ?y2"
    by (rule reach_step [OF r1], rule sys_step.stop_close) (use nc in simp_all)
  let ?ch = "(b_flushCh (Stop_close b1))\<lparr>cbuf := []\<rparr>"
  have rc: "recv (b_flushCh (y_buf ?y2)) = Some (wit_job, ?ch)"
    using b1(2) by (simp add: recv_def Stop_close_def)
  let ?y3 = "?y2\<lparr>y_buf := (y_buf ?y2)\<lparr>b_flushCh := ?ch\<rparr>, y_running := Some wit_job\<rparr>"
  have "run_reach fl ?y3"
    by (rule reach_step [OF r2], rule sys_step.take_job [OF _ _ rc]) (use nc in simp_all)
  moreover have "y_stop ?y3 = Draining \<and> run_state [] (Some wit_job) ?y3"
    using y(3) b1 by (simp add: run_state_def Stop_close_def)
  ultimately show ?thesis by blast
qed

lemma run_flush:
  assumes "run_reach fl y" "run_state [] (Some wit_job) y" "y_stop y = Draining"
    and "executeFlush ref_env (run_opts fl) in_order uid wit_job (y_world y) = (r, w')"
  shows "\<exists>y'. run_reach fl y' \<and> y_stop y' = Draining \<and> y_flushed y' = (case r of None \<Rightarrow> [] | Some ck \<Rightarrow> [(ck, [wit_entry])])
    \<and> y_lost y' = (case r of None \<Rightarrow> [[wit_entry]] | Some ck \<Rightarrow> []) \<and> y_running y' = None
    \<and> y_accepted y' = [wit_entry] \<and> \<not> y_crashed y' \<and> cbuf (b_flushCh (y_buf y')) = [] \<and> y_buf y' = y_buf y"
proof -
  note st = assms(2) [unfolded run_state_def]
  let ?y = "flush_done wit_job r (y\<lparr>y_running := None, y_world := w'\<rparr>)"
  have "fresh_uid (run_opts fl) uid wit_job y" using st by (simp add: fresh_uid_def)
  then have "run_reach fl ?y"
    using st assms(4) by (intro reach_step [OF assms(1)] sys_step.flush) (auto simp: in_order_ok)
  then show ?thesis
    using st assms(3) by (intro exI [of _ ?y]) (auto simp: flush_done_def wit_job_def split: option.splits)
qed

text \<open>A flusher that always fails.\<close>

definition broken_flusher :: "Chunk \<Rightarrow> bytes \<Rightarrow> mem world \<Rightarrow> err option \<times> mem world" where
  "broken_flusher ck z w = (Some ''s3 unavailable'', w)"

text \<open>
  C18. \<open>Stop\<close> forgets failed flushes: there is a run in which the flush of an accepted entry
  fails, and when \<open>Stop\<close> has finished the entry is in no chunk, not in the buffer, and the log
  has been truncated, so that no later process can recover it.
\<close>

theorem stop_forgets_failed_flush:
  "\<exists>y w. run_reach broken_flusher y \<and> y_stop y = Stopped \<and> y_accepted y = [wit_entry]
     \<and> y_flushed y = [] \<and> b_entries (y_buf y) = [] \<and> pending (y_buf y) = []
     \<and> b_WAL (y_buf y) = Some w \<and> w_file w = []"
proof -
  obtain y where y: "run_reach broken_flusher y" "y_stop y = Draining" "run_state [] (Some wit_job) y"
    using run_draining by blast
  have "fst (executeFlush ref_env (run_opts broken_flusher) in_order [] wit_job (y_world y)) = None"
    by (simp add: executeFlush_def Let_def broken_flusher_def split: sum.splits)
  then obtain w' where "executeFlush ref_env (run_opts broken_flusher) in_order [] wit_job (y_world y) = (None, w')"
    by (metis prod.collapse)
  from run_flush [OF y(1,3,2) this] obtain y2 where y2: "run_reach broken_flusher y2" "y_stop y2 = Draining"
    "y_flushed y2 = []" "y_lost y2 = [[wit_entry]]" "y_running y2 = None" "y_accepted y2 = [wit_entry]"
    "\<not> y_crashed y2" "cbuf (b_flushCh (y_buf y2)) = []" by auto
  obtain b' m' where f: "Stop_finish no_fault None (y_buf y2) (mx (y_world y2)) = (b', m')" by fastforce
  let ?y = "y2\<lparr>y_buf := b', y_world := set_mx m' (y_world y2), y_stop := Stopped\<rparr>"
  have run: "run_reach broken_flusher ?y"
    by (rule reach_step [OF y2(1)], rule sys_step.stop_finish [OF y2(7,2,8,5) _ f]) (simp add: writes_ok_def)
  have "wal_inv ref_env y2" using machine.reach_inv [OF codec.wal_machine [OF ref_codec] y2(1)] .
  then obtain w where w: "b_WAL (y_buf y2) = Some w" "w_open w"
    using y2(2) by (auto simp: wal_inv_def wal_holds_def)
  then have b': "b' = (y_buf y2)\<lparr>b_WAL := Some (snd (Close None (w\<lparr>w_file := [], w_enc := None, w_n := 0\<rparr>)))\<rparr>"
    using f by (simp add: Stop_finish_def Reset_ok)
  have "conserved ?y"
    using sysm.reach_inv [OF reach_mono [OF run init_wal_init]] by (simp add: sys_inv_def)
  then have "held (y_buf ?y) = {#}" using y2 by (simp add: conserved_defs)
  moreover have "\<forall>j \<in> set (pending b'). fj_entries j \<noteq> []"
    using sysm.reach_inv [OF reach_mono [OF run init_wal_init]] by (auto simp: sys_inv_def buffer_inv_def job_ok_def)
  ultimately have "b_entries b' = [] \<and> pending b' = []"
    by (cases "pending b'") (auto simp: held_def)
  then show ?thesis using run y2 b' by (intro exI [of _ ?y]) (simp add: Close_def)
qed

section \<open>Witnesses\<close>

lemma run_reach_init: "run_reach fl y \<Longrightarrow>
  reach (sys_init ref_env (run_opts fl)) (sys_step ref_env (run_opts fl) writes_ok (Collect (fits ref_env))) y"
  by (erule reach_mono) (rule init_wal_init)

theorem no_entry_vanishes_witness:
  "\<exists>y. reach (sys_init ref_env (run_opts broken_flusher))
       (sys_step ref_env (run_opts broken_flusher) writes_ok (Collect (fits ref_env))) y
     \<and> y_accepted y = [wit_entry] \<and> length (cbuf (b_flushCh (y_buf y))) \<le> 4"
proof -
  obtain y where y: "run_reach broken_flusher y" "run_state [] (Some wit_job) y" using run_draining by blast
  from no_entry_vanishes [OF run_reach_init [OF y(1)]] run_reach_init [OF y(1)] y(2)
  show ?thesis by (auto simp: run_state_def)
qed

lemma wit_compress: "\<exists>z. compressEntries ref_env [wit_entry] ''gzip'' = Inr z"
proof -
  have "\<forall>e \<in> set [wit_entry]. entry_safe e" by (simp add: wit_entry_safe)
  from ref.encode_entries_ok [OF this, of "[]"] ref_compressors.gzip_roundtrip [of "ndjson ref_env [wit_entry]"] show ?thesis
    by (auto simp: compressEntries_def CompressionSnappy_def)
qed

theorem flushed_chunks_stored_witness:
  "\<exists>y ck. run_reach (Flush ref_env mem_api background (\<lambda>_. 0) wit_flusher) y
     \<and> (ck, [wit_entry]) \<in> set (y_flushed y) \<and> ck_MinTime ck = Min (Timestamp ` set [wit_entry])"
proof -
  let ?fl = "Flush ref_env mem_api background (\<lambda>_. 0) wit_flusher"
  obtain y where y: "run_reach ?fl y" "y_stop y = Draining" "run_state [] (Some wit_job) y"
    using run_draining by blast
  obtain z where z: "compressEntries ref_env [wit_entry] ''gzip'' = Inr z" using wit_compress by blast
  let ?ck = "job_chunk (run_opts ?fl) in_order [] wit_job z"
  obtain w1 where "PutObject mem_api (fl_client wit_flusher) (ck_Key ?ck) z (y_world y) = (Inr (int (length z)), w1)"
    using mem.PutObject_total by blast
  then have "Do background DefaultOptions (\<lambda>_. 0) (flush_put mem_api wit_flusher ?ck z) (y_world y) = (None, w1)"
    by (intro Do_fst_success) (simp_all add: background_def flush_put_def DefaultOptions_def)
  then have "fst (?fl ?ck z (y_world y)) = None"
    by (simp add: Flush_def wit_flusher_def NewS3Flusher_def split: prod.splits)
  then obtain w2 where "?fl ?ck z (y_world y) = (None, w2)" by (metis prod.collapse)
  then obtain w' where "executeFlush ref_env (run_opts ?fl) in_order [] wit_job (y_world y) = (Some ?ck, w')"
    using z by (simp add: executeFlush_def Let_def wit_job_def wit_opts_def)
  from run_flush [OF y(1,3,2) this] obtain y2 where y2: "run_reach ?fl y2" "(?ck, [wit_entry]) \<in> set (y_flushed y2)"
    by auto
  from flushed_chunks_stored [OF mem_wait.waiting_store_axioms run_reach_init [OF y2(1)] y2(2)] y2
  show ?thesis by blast
qed

theorem stop_accounts_witness:
  "\<exists>y. run_reach broken_flusher y \<and> y_stop y = Stopped
     \<and> mset (y_accepted y) = (\<Sum>p\<leftarrow>y_flushed y. mset (snd p)) + (\<Sum>es\<leftarrow>y_lost y. mset es)
        + mset (b_entries (y_buf y)) + entries_of (b_spawned (y_buf y))"
proof -
  obtain y where y: "run_reach broken_flusher y" "y_stop y = Draining" "run_state [] (Some wit_job) y"
    using run_draining by blast
  obtain r w' where "executeFlush ref_env (run_opts broken_flusher) in_order [] wit_job (y_world y) = (r, w')"
    by fastforce
  from run_flush [OF y(1,3,2) this] obtain y2 where y2: "run_reach broken_flusher y2" "y_stop y2 = Draining"
    "y_running y2 = None" "\<not> y_crashed y2" "cbuf (b_flushCh (y_buf y2)) = []" by blast
  obtain b' m' where f: "Stop_finish no_fault None (y_buf y2) (mx (y_world y2)) = (b', m')" by fastforce
  have run: "run_reach broken_flusher (y2\<lparr>y_buf := b', y_world := set_mx m' (y_world y2), y_stop := Stopped\<rparr>)"
    by (rule reach_step [OF y2(1)], rule sys_step.stop_finish [OF y2(4,2,5,3) _ f]) (simp add: writes_ok_def)
  from stop_accounts [OF run_reach_init [OF run]] run show ?thesis by fastforce
qed

theorem crash_recovery_witness:
  "\<exists>y w2 b2 m3. run_reach broken_flusher y
     \<and> NewBuffer ref_env no_fault (run_opts broken_flusher) (Some w2) None metrics0 = Some (b2, m3)
     \<and> b_entries b2 = [wit_entry]"
proof -
  obtain y where y: "run_reach broken_flusher y" "y_stop y = Draining" "run_state [] (Some wit_job) y"
    using run_draining by blast
  have "0 < bo_MaxAge (run_opts broken_flusher)" by (simp add: wit_opts_def second_def)
  from crash_recovery [OF ref_codec y(1) _ this, of "''d''" None metrics0] y show ?thesis
    by (auto simp: run_state_def)
qed

theorem stop_drains_witness:
  "\<exists>y y'. run_reach broken_flusher y \<and> y_stop y = Draining
     \<and> sys_step ref_env (run_opts broken_flusher) writes_ok (Collect (fits ref_env)) y y'
     \<and> (y_stop y' = Stopped \<or> y_stop y' = Draining \<and> backlog y' < backlog y)"
proof -
  obtain y where y: "run_reach broken_flusher y" "y_stop y = Draining" "run_state [] (Some wit_job) y"
    using run_draining by blast
  have "no_fault \<in> writes_ok" by (simp add: writes_ok_def)
  then have "writes_ok \<noteq> {}" by blast
  from stop_drains [OF run_reach_init [OF y(1)] y(2) this] y show ?thesis by (auto simp: run_state_def)
qed

end
