(* ===== verification/QueryEngine.thy ===== *)
theory QueryEngine
  imports Index Retry
begin

text \<open>
  \<open>internal/query/query.go\<close>: a query reads the label index, fetches the chunks it names one
  after the other until the limit is reached, and filters their entries. The facts: whatever
  fails, a query returns at most \<open>Limit\<close> entries, all of them matching entries of stored
  chunks; if nothing fails, it returns the first \<open>Limit\<close> matching entries of the chunks in
  index order.
\<close>

section \<open>Data\<close>

record Request =
  rq_StartTime :: time
  rq_EndTime :: time
  rq_Service :: string
  rq_Labels :: labels
  rq_Level :: string
  rq_Limit :: int

record Stats =
  IndexFilesScanned :: int
  ChunksMatched :: int
  ChunksFetched :: int
  EntriesScanned :: int
  EntriesMatched :: int
  DurationMs :: int

record Response =
  rs_Entries :: "LogEntry list"
  rs_Stats :: Stats

record Engine =
  en_s3 :: S3Client
  en_index :: Store

definition NewEngine :: "S3Client \<Rightarrow> Store \<Rightarrow> Engine" where
  "NewEngine c idx = \<lparr>en_s3 = c, en_index = idx\<rparr>"

section \<open>Operations\<close>

text \<open>The tests of the loop body of \<open>fetchAndFilter\<close>.\<close>

definition entry_matches :: "env \<Rightarrow> Request \<Rightarrow> LogEntry \<Rightarrow> bool" where
  "entry_matches E req entry =
     (if Before (Timestamp entry) (rq_StartTime req) \<or> After (Timestamp entry) (rq_EndTime req) then False
      else if rq_Service req \<noteq> '''' \<and> \<not> equalFold E (Service entry) (rq_Service req) then False
      else if rq_Level req \<noteq> '''' \<and> \<not> equalFold E (Level entry) (rq_Level req) then False
      else all_match (rq_Labels req) (Labels entry))"

fun scan_entries ::
  "env \<Rightarrow> (LogEntry \<Rightarrow> bool) \<Rightarrow> string list \<Rightarrow> LogEntry list \<Rightarrow> int \<Rightarrow> LogEntry list \<times> int" where
  "scan_entries E P [] matched scanned = (matched, scanned)"
| "scan_entries E P (t # ts) matched scanned =
     (case unmarshalEntry E t of
        None \<Rightarrow> scan_entries E P ts matched scanned
      | Some entry \<Rightarrow>
          scan_entries E P ts (if P entry then matched @ [entry] else matched) (scanned + 1))"

definition fetchAndFilter ::
  "env \<Rightarrow> 's s3api \<Rightarrow> Engine \<Rightarrow> string \<Rightarrow> Request \<Rightarrow> 's world \<Rightarrow>
   (LogEntry list \<times> int \<times> err option) \<times> 's world" where
  "fetchAndFilter E api e key req w =
     (case GetObject api (en_s3 e) key w of
        (Inl er, w') \<Rightarrow> (([], 0, Some er), w')
      | (Inr data, w') \<Rightarrow>
          (case decompress E data key of
             Inl er \<Rightarrow> (([], 0, Some er), w')
           | Inr (d, rerr) \<Rightarrow>
               (let (ts, serr) = scanner d rerr;
                    (matched, scanned) = scan_entries E (entry_matches E req) ts [] 0
                in ((matched, scanned, serr), w'))))"

fun run_chunks ::
  "env \<Rightarrow> 's s3api \<Rightarrow> 's world ctx \<Rightarrow> Engine \<Rightarrow> Request \<Rightarrow> ChunkIndex list \<Rightarrow> LogEntry list \<Rightarrow> Stats \<Rightarrow>
   's world \<Rightarrow> (LogEntry list \<times> Stats) result \<times> 's world" where
  "run_chunks E api C e req [] entries stats w = (Inr (entries, stats), w)"
| "run_chunks E api C e req (ix # ixs) entries stats w =
     (if int (length entries) \<ge> rq_Limit req then (Inr (entries, stats), w)
      else
        case ctx_err C w of
          Some er \<Rightarrow> (Inl er, w)
        | None \<Rightarrow>
            (case fetchAndFilter E api e (ix_ChunkKey ix) req w of
               ((chunkEntries, scanned, Some er), w') \<Rightarrow> run_chunks E api C e req ixs entries stats w'
             | ((chunkEntries, scanned, None), w') \<Rightarrow>
                 run_chunks E api C e req ixs (entries @ chunkEntries)
                   (stats\<lparr>ChunksFetched := ChunksFetched stats + 1,
                          EntriesScanned := EntriesScanned stats + scanned\<rparr>) w'))"

text \<open>\<open>dur\<close> is the measured duration.\<close>

definition Run ::
  "env \<Rightarrow> 's s3api \<Rightarrow> 's world ctx \<Rightarrow> int \<Rightarrow> Engine \<Rightarrow> Request \<Rightarrow> 's world \<Rightarrow> Response result \<times> 's world" where
  "Run E api C dur e req0 w =
     (let req = (if rq_Limit req0 \<le> 0 then req0\<lparr>rq_Limit := 200\<rparr> else req0)
      in case Query E api (en_index e) (rq_StartTime req) (rq_EndTime req) (rq_Service req) (rq_Labels req) w of
           (Inl er, w') \<Rightarrow> (Inl er, w')
         | (Inr indexes, w') \<Rightarrow>
             (let stats = \<lparr>IndexFilesScanned = int (length indexes), ChunksMatched = int (length indexes),
                           ChunksFetched = 0, EntriesScanned = 0, EntriesMatched = 0, DurationMs = 0\<rparr>
              in case run_chunks E api C e req indexes [] stats w' of
                   (Inl er, w'') \<Rightarrow> (Inl er, w'')
                 | (Inr (entries0, stats'), w'') \<Rightarrow>
                     (let entries = (if int (length entries0) > rq_Limit req
                                     then take (nat (rq_Limit req)) entries0 else entries0)
                      in (Inr \<lparr>rs_Entries = entries,
                               rs_Stats = stats'\<lparr>EntriesMatched := int (length entries), DurationMs := dur\<rparr>\<rparr>, w''))))"

section \<open>Lemmas\<close>

definition effective_limit :: "Request \<Rightarrow> nat" where
  "effective_limit req = (if rq_Limit req \<le> 0 then 200 else nat (rq_Limit req))"

lemma scan_entries_eq:
  "scan_entries E P ts matched scanned =
     (matched @ filter P (decode_lines E ts), scanned + int (length (decode_lines E ts)))"
  by (induction ts arbitrary: matched scanned)
    (auto simp: decode_lines_def List.map_filter_simps split: option.splits)

lemma entry_matches_iff:
  "entry_matches E req e \<longleftrightarrow> rq_StartTime req \<le> Timestamp e \<and> Timestamp e \<le> rq_EndTime req
     \<and> (rq_Service req \<noteq> '''' \<longrightarrow> equalFold E (Service e) (rq_Service req))
     \<and> (rq_Level req \<noteq> '''' \<longrightarrow> equalFold E (Level e) (rq_Level req))
     \<and> all_match (rq_Labels req) (Labels e)"
  by (auto simp: entry_matches_def Before_def After_def)

lemma entry_matches_limit [simp]: "entry_matches E (req\<lparr>rq_Limit := n\<rparr>) = entry_matches E req"
  by (simp add: fun_eq_iff entry_matches_def)

text \<open>The entries of the chunks that a list of index records names.\<close>

definition stored_entries :: "env \<Rightarrow> (string \<rightharpoonup> bytes) \<Rightarrow> string \<Rightarrow> ChunkIndex list \<Rightarrow> LogEntry set" where
  "stored_entries E objs pfx ixs =
     {x. \<exists>ix data all. ix \<in> set ixs \<and> objs (pfx @ ix_ChunkKey ix) = Some data
        \<and> chunk_entries E (ix_ChunkKey ix) data = Some all \<and> x \<in> set all}"

lemma stored_entries_Cons: "stored_entries E objs pfx ixs \<subseteq> stored_entries E objs pfx (ix # ixs)"
  by (auto simp: stored_entries_def)

context object_store
begin

lemma fetchAndFilter_frame:
  "fetchAndFilter E api e key req w = (r, w') \<Longrightarrow> objects obj c w' = objects obj c w"
  using getObject_frame [of "en_s3 e"]
  by (auto simp: fetchAndFilter_def GetObject_def objects_def getObject_def Let_def
      split: prod.splits sum.splits dest: get_frame)

lemma fetchAndFilter_ok:
  assumes "fetchAndFilter E api e key req w = ((es, n, None), w')"
  shows "\<exists>data all. objects obj (en_s3 e) w (s3_prefix (en_s3 e) @ key) = Some data
    \<and> chunk_entries E key data = Some all \<and> es = filter (entry_matches E req) all \<and> n = int (length all)"
proof -
  obtain data w1 where g: "getObject api (en_s3 e) (s3_prefix (en_s3 e) @ key) w = (Inr data, w1)"
    using assms by (auto simp: fetchAndFilter_def GetObject_def split: prod.splits sum.splits)
  obtain d rerr ts where d: "decompress E data key = Inr (d, rerr)" "scanner d rerr = (ts, None)"
    "es = filter (entry_matches E req) (decode_lines E ts)" "n = int (length (decode_lines E ts))"
    using assms g
    by (auto simp: fetchAndFilter_def GetObject_def Let_def scan_entries_eq split: prod.splits sum.splits)
  show ?thesis using getObject_ok [OF g] chunk_entriesI [OF d(1,2)] d(3,4) by blast
qed

text \<open>Where the entries of a query come from, whatever fails.\<close>

lemma run_chunks_sound:
  assumes "run_chunks E api C e req ixs es st w = (Inr (es', st'), w')"
  shows "\<exists>more. es' = es @ more
    \<and> (\<forall>x \<in> set more. entry_matches E req x \<and> x \<in> stored_entries E (objects obj (en_s3 e) w) (s3_prefix (en_s3 e)) ixs)
    \<and> ChunksFetched st' \<le> ChunksFetched st + int (length ixs) \<and> ChunksMatched st' = ChunksMatched st
    \<and> int (length more) \<le> EntriesScanned st' - EntriesScanned st"
  using assms
proof (induction ixs arbitrary: es st w)
  case (Cons ix ixs)
  show ?case
  proof (cases "int (length es) \<ge> rq_Limit req")
    case True
    then show ?thesis using Cons.prems by simp
  next
    case False
    then have c: "ctx_err C w = None" using Cons.prems by (simp split: option.splits)
    obtain ces n er w1 where f: "fetchAndFilter E api e (ix_ChunkKey ix) req w = ((ces, n, er), w1)"
      by (metis prod.collapse)
    note fr = fetchAndFilter_frame [OF f, of "en_s3 e"]
    note mono = stored_entries_Cons [of E "objects obj (en_s3 e) w" "s3_prefix (en_s3 e)" ixs ix]
    show ?thesis
    proof (cases er)
      case (Some x)
      then have "run_chunks E api C e req ixs es st w1 = (Inr (es', st'), w')" using Cons.prems False c f by simp
      from Cons.IH [OF this, unfolded fr] mono show ?thesis by fastforce
    next
      case None
      let ?st = "st\<lparr>ChunksFetched := ChunksFetched st + 1, EntriesScanned := EntriesScanned st + n\<rparr>"
      have "run_chunks E api C e req ixs (es @ ces) ?st w1 = (Inr (es', st'), w')"
        using None Cons.prems False c f by simp
      from Cons.IH [OF this, unfolded fr] obtain more where more: "es' = (es @ ces) @ more"
        "\<forall>x \<in> set more. entry_matches E req x \<and> x \<in> stored_entries E (objects obj (en_s3 e) w) (s3_prefix (en_s3 e)) ixs"
        "ChunksFetched st' \<le> ChunksFetched ?st + int (length ixs)" "ChunksMatched st' = ChunksMatched ?st"
        "int (length more) \<le> EntriesScanned st' - EntriesScanned ?st" by blast
      obtain data all where all: "objects obj (en_s3 e) w (s3_prefix (en_s3 e) @ ix_ChunkKey ix) = Some data"
        "chunk_entries E (ix_ChunkKey ix) data = Some all" "ces = filter (entry_matches E req) all" "n = int (length all)"
        using fetchAndFilter_ok [OF f [unfolded None]] by blast
      have "\<forall>x \<in> set ces. entry_matches E req x
          \<and> x \<in> stored_entries E (objects obj (en_s3 e) w) (s3_prefix (en_s3 e)) (ix # ixs)"
        using all by (auto simp: stored_entries_def)
      moreover have "int (length ces) \<le> n" using all(3,4) length_filter_le by simp
      ultimately show ?thesis using more mono by (intro exI [of _ "ces @ more"]) auto
    qed
  qed
qed simp

end

lemma chunk_entries_fetch:
  assumes "reliable_store api obj" "objects obj (en_s3 e) w (s3_prefix (en_s3 e) @ key) = Some data"
    and "chunk_entries E key data = Some all"
  shows "\<exists>w'. fetchAndFilter E api e key req w = ((filter (entry_matches E req) all, int (length all), None), w')"
proof -
  obtain w' where "getObject api (en_s3 e) (s3_prefix (en_s3 e) @ key) w = (Inr data, w')"
    using reliable_store.getObject_total [OF assms(1,2)] by (metis prod.collapse)
  then show ?thesis
    using assms(3)
    by (auto simp: fetchAndFilter_def GetObject_def chunk_entries_def Let_def scan_entries_eq
        split: prod.splits sum.splits option.splits)
qed

lemma run_chunks_exact:
  assumes rel: "reliable_store api obj" and ctx: "\<And>w. ctx_err C w = None"
    and "\<forall>ix \<in> set ixs. \<exists>data. objects obj (en_s3 e) w (s3_prefix (en_s3 e) @ ix_ChunkKey ix) = Some data
       \<and> chunk_entries E (ix_ChunkKey ix) data = Some (all ix)"
  shows "\<exists>es' st' w'. run_chunks E api C e req ixs es st w = (Inr (es', st'), w')
    \<and> take (nat (rq_Limit req)) es' =
        take (nat (rq_Limit req)) (es @ concat (map (\<lambda>ix. filter (entry_matches E req) (all ix)) ixs))"
  using assms(3)
proof (induction ixs arbitrary: es st w)
  case (Cons ix ixs)
  show ?case
  proof (cases "int (length es) \<ge> rq_Limit req")
    case True
    then show ?thesis by simp
  next
    case False
    obtain data where d: "objects obj (en_s3 e) w (s3_prefix (en_s3 e) @ ix_ChunkKey ix) = Some data"
      "chunk_entries E (ix_ChunkKey ix) data = Some (all ix)" using Cons.prems by auto
    obtain w1 where f: "fetchAndFilter E api e (ix_ChunkKey ix) req w
        = ((filter (entry_matches E req) (all ix), int (length (all ix)), None), w1)"
      using chunk_entries_fetch [OF rel d] by blast
    note fr = object_store.fetchAndFilter_frame [OF reliable_store.axioms(1) [OF rel] f, of "en_s3 e"]
    have "\<forall>ix \<in> set ixs. \<exists>data. objects obj (en_s3 e) w1 (s3_prefix (en_s3 e) @ ix_ChunkKey ix) = Some data
       \<and> chunk_entries E (ix_ChunkKey ix) data = Some (all ix)"
      using Cons.prems fr by simp
    from Cons.IH [OF this, of "es @ filter (entry_matches E req) (all ix)"
        "st\<lparr>ChunksFetched := ChunksFetched st + 1, EntriesScanned := EntriesScanned st + int (length (all ix))\<rparr>"]
    show ?thesis using False f ctx by (simp del: take_append)
  qed
qed simp

text \<open>The parts of a successful \<open>Run\<close>.\<close>

lemma Run_parts:
  assumes "Run E api C dur e req w = (Inr resp, w')"
  obtains ixs w1 es st st0 where
    "Query E api (en_index e) (rq_StartTime req) (rq_EndTime req) (rq_Service req) (rq_Labels req) w = (Inr ixs, w1)"
    "run_chunks E api C e (req\<lparr>rq_Limit := int (effective_limit req)\<rparr>) ixs [] st0 w1 = (Inr (es, st), w')"
    "ChunksFetched st0 = 0" "EntriesScanned st0 = 0" "ChunksMatched st0 = int (length ixs)"
    "rs_Entries resp = take (effective_limit req) es"
    "rs_Stats resp = st\<lparr>EntriesMatched := int (length (rs_Entries resp)), DurationMs := dur\<rparr>"
proof -
  let ?req = "if rq_Limit req \<le> 0 then req\<lparr>rq_Limit := 200\<rparr> else req"
  have req: "?req = req\<lparr>rq_Limit := int (effective_limit req)\<rparr>" by (simp add: effective_limit_def)
  note def = Run_def [of E api C dur e req w, unfolded Let_def, unfolded req]
  obtain ixs w1 where q: "Query E api (en_index e) (rq_StartTime req) (rq_EndTime req) (rq_Service req) (rq_Labels req) w
      = (Inr ixs, w1)" using assms by (auto simp: def split: prod.splits sum.splits)
  let ?st = "\<lparr>IndexFilesScanned = int (length ixs), ChunksMatched = int (length ixs), ChunksFetched = 0,
      EntriesScanned = 0, EntriesMatched = 0, DurationMs = 0\<rparr>"
  obtain es st where r: "run_chunks E api C e (req\<lparr>rq_Limit := int (effective_limit req)\<rparr>) ixs [] ?st w1
      = (Inr (es, st), w')" using assms q by (auto simp: def split: prod.splits sum.splits)
  have "resp = \<lparr>rs_Entries = take (effective_limit req) es,
      rs_Stats = st\<lparr>EntriesMatched := int (length (take (effective_limit req) es)), DurationMs := dur\<rparr>\<rparr>"
    using assms q r by (auto simp: def)
  then show ?thesis using that [OF q r] by simp
qed

text \<open>
  The entries a query may see: those of the readable stored chunks that are named by a
  matching index record in the day directories of the range.
\<close>

definition query_source ::
  "env \<Rightarrow> ('s \<Rightarrow> string \<Rightarrow> string \<rightharpoonup> bytes) \<Rightarrow> Engine \<Rightarrow> Request \<Rightarrow> 's world \<Rightarrow> LogEntry \<Rightarrow> bool" where
  "query_source E obj e req w x \<longleftrightarrow>
     (\<exists>ix data all.
        ix \<in> stored_indexes E (objects obj (st_s3 (en_index e)) w)
               (dayPrefixes (st_prefix (en_index e)) (rq_StartTime req) (rq_EndTime req))
        \<and> index_matches E (rq_StartTime req) (rq_EndTime req) (rq_Service req) (rq_Labels req) ix
        \<and> objects obj (en_s3 e) w (s3_prefix (en_s3 e) @ ix_ChunkKey ix) = Some data
        \<and> chunk_entries E (ix_ChunkKey ix) data = Some all \<and> x \<in> set all)"

lemma Run_complete:
  assumes rel: "reliable_store api obj" and ctx: "\<And>w. ctx_err C w = None"
    and readable: "\<And>ix. ix \<in> stored_indexes E (objects obj (st_s3 (en_index e)) w)
               (dayPrefixes (st_prefix (en_index e)) (rq_StartTime req) (rq_EndTime req)) \<Longrightarrow>
        index_matches E (rq_StartTime req) (rq_EndTime req) (rq_Service req) (rq_Labels req) ix \<Longrightarrow>
        \<exists>data all. objects obj (en_s3 e) w (s3_prefix (en_s3 e) @ ix_ChunkKey ix) = Some data
          \<and> chunk_entries E (ix_ChunkKey ix) data = Some all"
  shows "\<exists>resp w'. Run E api C dur e req w = (Inr resp, w')
    \<and> (length (rs_Entries resp) < (if rq_Limit req \<le> 0 then 200 else nat (rq_Limit req)) \<longrightarrow>
        set (rs_Entries resp) = {x. entry_matches E req x \<and> query_source E obj e req w x})"
proof -
  let ?L = "effective_limit req" and ?req = "req\<lparr>rq_Limit := int (effective_limit req)\<rparr>"
  have L: "?L = (if rq_Limit req \<le> 0 then 200 else nat (rq_Limit req))" by (simp add: effective_limit_def)
  obtain ixs w1 where q: "Query E api (en_index e) (rq_StartTime req) (rq_EndTime req) (rq_Service req) (rq_Labels req) w
      = (Inr ixs, w1)"
    "set ixs = {ix \<in> stored_indexes E (objects obj (st_s3 (en_index e)) w)
        (dayPrefixes (st_prefix (en_index e)) (rq_StartTime req) (rq_EndTime req)).
      index_matches E (rq_StartTime req) (rq_EndTime req) (rq_Service req) (rq_Labels req) ix}"
    using reliable_store.Query_set [OF rel] by blast
  have same: "objects obj c w1 = objects obj c w" for c
    using object_store.Query_frame [OF reliable_store.axioms(1) [OF rel] q(1)] by (simp add: objects_def)
  let ?data = "\<lambda>ix. the (objects obj (en_s3 e) w (s3_prefix (en_s3 e) @ ix_ChunkKey ix))"
  let ?all = "\<lambda>ix. the (chunk_entries E (ix_ChunkKey ix) (?data ix))"
  have all: "objects obj (en_s3 e) w (s3_prefix (en_s3 e) @ ix_ChunkKey ix) = Some (?data ix)
      \<and> chunk_entries E (ix_ChunkKey ix) (?data ix) = Some (?all ix)" if "ix \<in> set ixs" for ix
    using readable [of ix] that q(2) by fastforce
  have "\<forall>ix \<in> set ixs. \<exists>data. objects obj (en_s3 e) w1 (s3_prefix (en_s3 e) @ ix_ChunkKey ix) = Some data
       \<and> chunk_entries E (ix_ChunkKey ix) data = Some (?all ix)"
    using all unfolding same by blast
  note run = run_chunks_exact [OF rel ctx this, of ?req "[]"]
  let ?st = "\<lparr>IndexFilesScanned = int (length ixs), ChunksMatched = int (length ixs), ChunksFetched = 0,
      EntriesScanned = 0, EntriesMatched = 0, DurationMs = 0\<rparr>"
  let ?es = "concat (map (\<lambda>ix. filter (entry_matches E req) (?all ix)) ixs)"
  obtain es st w' where r: "run_chunks E api C e ?req ixs [] ?st w1 = (Inr (es, st), w')" "take ?L es = take ?L ?es"
    using run [of ?st] by auto
  have req: "(if rq_Limit req \<le> 0 then req\<lparr>rq_Limit := 200\<rparr> else req) = ?req" by (simp add: effective_limit_def)
  have "Run E api C dur e req w = (Inr \<lparr>rs_Entries = take ?L es,
      rs_Stats = st\<lparr>EntriesMatched := int (length (take ?L es)), DurationMs := dur\<rparr>\<rparr>, w')"
    using q(1) r(1) by (simp add: Run_def [of E api C dur e req w, unfolded Let_def, unfolded req])
  moreover have "set (take ?L ?es) = {x. entry_matches E req x \<and> query_source E obj e req w x}"
    if "length (take ?L ?es) < ?L"
  proof -
    have "take ?L ?es = ?es" using that by simp
    moreover have "x \<in> set ?es \<longleftrightarrow> entry_matches E req x \<and> (\<exists>ix \<in> set ixs. x \<in> set (?all ix))" for x by auto
    moreover have "(\<exists>ix \<in> set ixs. x \<in> set (?all ix)) \<longleftrightarrow> query_source E obj e req w x" for x
      using all q(2) unfolding query_source_def by fastforce
    ultimately show ?thesis by auto
  qed
  ultimately show ?thesis using r(2) by (simp add: L [symmetric])
qed

lemma Run_ok:
  assumes "object_store api obj" "Run E api C dur e req w = (Inr resp, w')"
  shows "length (rs_Entries resp) \<le> (if rq_Limit req \<le> 0 then 200 else nat (rq_Limit req))
    \<and> (\<forall>x \<in> set (rs_Entries resp).
        rq_StartTime req \<le> Timestamp x \<and> Timestamp x \<le> rq_EndTime req
        \<and> (rq_Service req \<noteq> '''' \<longrightarrow> equalFold E (Service x) (rq_Service req))
        \<and> (rq_Level req \<noteq> '''' \<longrightarrow> equalFold E (Level x) (rq_Level req))
        \<and> all_match (rq_Labels req) (Labels x)
        \<and> query_source E obj e req w x)
    \<and> EntriesMatched (rs_Stats resp) = int (length (rs_Entries resp))
    \<and> EntriesMatched (rs_Stats resp) \<le> EntriesScanned (rs_Stats resp)
    \<and> ChunksFetched (rs_Stats resp) \<le> ChunksMatched (rs_Stats resp)"
proof -
  obtain ixs w1 es st st0 where p:
    "Query E api (en_index e) (rq_StartTime req) (rq_EndTime req) (rq_Service req) (rq_Labels req) w = (Inr ixs, w1)"
    "run_chunks E api C e (req\<lparr>rq_Limit := int (effective_limit req)\<rparr>) ixs [] st0 w1 = (Inr (es, st), w')"
    "ChunksFetched st0 = 0" "EntriesScanned st0 = 0" "ChunksMatched st0 = int (length ixs)"
    "rs_Entries resp = take (effective_limit req) es"
    "rs_Stats resp = st\<lparr>EntriesMatched := int (length (rs_Entries resp)), DurationMs := dur\<rparr>"
    by (rule Run_parts [OF assms(2)])
  have q: "\<forall>ix \<in> set ixs. ix \<in> stored_indexes E (objects obj (st_s3 (en_index e)) w)
        (dayPrefixes (st_prefix (en_index e)) (rq_StartTime req) (rq_EndTime req))
      \<and> index_matches E (rq_StartTime req) (rq_EndTime req) (rq_Service req) (rq_Labels req) ix"
    using object_store.query_prefixes_sound [OF assms(1) p(1) [unfolded Query_def]] by auto
  have same: "obj (ext w1) = obj (ext w)" by (rule object_store.Query_frame [OF assms(1) p(1)])
  have snd: "\<forall>x \<in> set es. entry_matches E req x \<and> x \<in> stored_entries E (objects obj (en_s3 e) w1) (s3_prefix (en_s3 e)) ixs"
    "ChunksFetched st \<le> ChunksMatched st" "int (length es) \<le> EntriesScanned st"
    using object_store.run_chunks_sound [OF assms(1) p(2)] p(3-5) by auto
  then have x: "\<forall>x \<in> set (rs_Entries resp). entry_matches E req x \<and>
      x \<in> stored_entries E (objects obj (en_s3 e) w1) (s3_prefix (en_s3 e)) ixs"
    using p(6) by (auto dest: in_set_takeD)
  have "query_source E obj e req w y" if "y \<in> set (rs_Entries resp)" for y
  proof -
    have "y \<in> stored_entries E (objects obj (en_s3 e) w1) (s3_prefix (en_s3 e)) ixs" using x that by blast
    then obtain ix data all where "ix \<in> set ixs"
      "objects obj (en_s3 e) w (s3_prefix (en_s3 e) @ ix_ChunkKey ix) = Some data"
      "chunk_entries E (ix_ChunkKey ix) data = Some all" "y \<in> set all"
      by (auto simp: stored_entries_def objects_def same)
    then show ?thesis using q unfolding query_source_def by blast
  qed
  moreover have "length (rs_Entries resp) \<le> effective_limit req" "length (rs_Entries resp) \<le> length es"
    using p(6) by simp_all
  ultimately show ?thesis
    using snd(2,3) x p(7) by (simp add: entry_matches_iff effective_limit_def [symmetric])
qed

section \<open>Properties\<close>

text \<open>
  C11. Whatever fails, a query that succeeds returns at most \<open>Limit\<close> entries (200 if no positive
  limit is given); each of them lies in the time range, belongs to the service and has the
  level and all the labels asked for; and each is an entry of a stored chunk named by a stored
  index record that matches. The statistics are consistent with the result.
\<close>

theorem Run_sound:
  assumes "object_store api obj" "Run E api C dur e req w = (Inr resp, w')"
  shows "length (rs_Entries resp) \<le> (if rq_Limit req \<le> 0 then 200 else nat (rq_Limit req))
    \<and> (\<forall>x \<in> set (rs_Entries resp).
        rq_StartTime req \<le> Timestamp x \<and> Timestamp x \<le> rq_EndTime req
        \<and> (rq_Service req \<noteq> '''' \<longrightarrow> equalFold E (Service x) (rq_Service req))
        \<and> (rq_Level req \<noteq> '''' \<longrightarrow> equalFold E (Level x) (rq_Level req))
        \<and> all_match (rq_Labels req) (Labels x)
        \<and> query_source E obj e req w x)
    \<and> EntriesMatched (rs_Stats resp) = int (length (rs_Entries resp))
    \<and> EntriesMatched (rs_Stats resp) \<le> EntriesScanned (rs_Stats resp)
    \<and> ChunksFetched (rs_Stats resp) \<le> ChunksMatched (rs_Stats resp)"
  by (rule Run_ok [OF assms])

text \<open>
  C10. If no call fails, the query is not cancelled, and the chunk of every matching index
  record can be read, then a query succeeds, and unless it returns as many entries as its
  limit allows it returns exactly the matching entries of the visible chunks.
\<close>

theorem Run_exact:
  assumes rel: "reliable_store api obj" and ctx: "\<And>w. ctx_err C w = None"
    and readable: "\<And>ix. ix \<in> stored_indexes E (objects obj (st_s3 (en_index e)) w)
               (dayPrefixes (st_prefix (en_index e)) (rq_StartTime req) (rq_EndTime req)) \<Longrightarrow>
        index_matches E (rq_StartTime req) (rq_EndTime req) (rq_Service req) (rq_Labels req) ix \<Longrightarrow>
        \<exists>data all. objects obj (en_s3 e) w (s3_prefix (en_s3 e) @ ix_ChunkKey ix) = Some data
          \<and> chunk_entries E (ix_ChunkKey ix) data = Some all"
  shows "\<exists>resp w'. Run E api C dur e req w = (Inr resp, w')
    \<and> (length (rs_Entries resp) < (if rq_Limit req \<le> 0 then 200 else nat (rq_Limit req)) \<longrightarrow>
        set (rs_Entries resp) = {x. entry_matches E req x \<and> query_source E obj e req w x})"
  by (rule Run_complete [OF assms])

section \<open>Witnesses\<close>

text \<open>A bucket with one chunk of one entry and its index record.\<close>

definition wit_engine :: Engine where
  "wit_engine = NewEngine wit_client wit_store"

definition wit_request :: Request where
  "wit_request = \<lparr>rq_StartTime = 0, rq_EndTime = 7, rq_Service = ''a'', rq_Labels = [(''k'', ''v'')],
     rq_Level = '''', rq_Limit = 10\<rparr>"

definition wit_bucket :: "bytes \<Rightarrow> bytes \<Rightarrow> mem world" where
  "wit_bucket z d =
     \<lparr>ext = [((''logs'', ''raw_logs/a/1970/01/01/0-u.gz''), z), ((''logs'', ''index/1970/01/01/a-0-u.json''), d)],
      mx = metrics0\<rparr>"

lemma wit_keys:
  "ix_ChunkKey wit_index = ''a/1970/01/01/0-u.gz''"
  "indexKey ''index/'' ''a/1970/01/01/0-u.gz'' = ''index/1970/01/01/a-0-u.json''"
  "dayPrefixes ''index/'' 0 7 = [''index/1970/01/01/'']"
proof -
  show "ix_ChunkKey wit_index = ''a/1970/01/01/0-u.gz''" by code_simp
  show "indexKey ''index/'' ''a/1970/01/01/0-u.gz'' = ''index/1970/01/01/a-0-u.json''" by code_simp
  have d: "format_date ''/'' 0 = ''1970/01/01''" by code_simp
  have n: "day_number 0 = 719162" "day_number 7 = 719162"
    by (simp_all add: day_number_def zero_time_def day_ns_def second_def)
  have "format_date ''/'' (zero_time + 719162 * day_ns) = format_date ''/'' 0"
    by (rule format_date_day) (simp add: day_number_def zero_time_def day_ns_def second_def)
  then show "dayPrefixes ''index/'' 0 7 = [''index/1970/01/01/'']"
    by (simp add: dayPrefixes_def day_loop_range n d)
qed

lemma wit_engine_sel [simp]:
  "en_s3 wit_engine = wit_client" "en_index wit_engine = wit_store"
  "s3_prefix wit_client = ''raw_logs/''" "s3_bucket wit_client = ''logs''"
  "st_s3 wit_store = wit_client" "st_prefix wit_store = ''index/''"
  by (simp_all add: wit_engine_def NewEngine_def wit_client_def wit_store_def NewStore_def HasSuffix_def)

lemma wit_indexes:
  assumes "unmarshalIndex ref_env d = Some wit_index"
  shows "stored_indexes ref_env (objects mem_obj wit_client (wit_bucket z d)) [''index/1970/01/01/''] = {wit_index}"
  using assms
  by (auto simp: stored_indexes_def objects_def mem_obj_def wit_bucket_def listed_def HasPrefix_def split: if_splits)

lemma wit_readable:
  obtains z d where "unmarshalIndex ref_env d = Some wit_index"
    "chunk_entries ref_env ''a/1970/01/01/0-u.gz'' z = Some [wit_log_entry]"
proof -
  have "HasSuffix ''a/1970/01/01/0-u.gz'' (FileExtension ''gzip'')" by code_simp
  then show ?thesis using that ref.index_roundtrip [OF wit_index_safe] wit_chunk_readable by metis
qed

lemma background_ok: "ctx_err background w = None"
  by (simp add: background_def)

lemma wit_query_source:
  assumes "unmarshalIndex ref_env d = Some wit_index" "chunk_entries ref_env ''a/1970/01/01/0-u.gz'' z = Some [wit_log_entry]"
  shows "query_source ref_env mem_obj wit_engine wit_request (wit_bucket z d) wit_log_entry"
  unfolding query_source_def
  by (intro exI [of _ wit_index] exI [of _ z] exI [of _ "[wit_log_entry]"])
    (use assms wit_index_matches in \<open>simp add: wit_request_def wit_keys wit_indexes\<close>,
     simp add: objects_def mem_obj_def wit_bucket_def)

lemma wit_run_ready:
  assumes "unmarshalIndex ref_env d = Some wit_index" "chunk_entries ref_env ''a/1970/01/01/0-u.gz'' z = Some [wit_log_entry]"
    and "ix \<in> stored_indexes ref_env (objects mem_obj (st_s3 (en_index wit_engine)) (wit_bucket z d))
        (dayPrefixes (st_prefix (en_index wit_engine)) (rq_StartTime wit_request) (rq_EndTime wit_request))"
  shows "\<exists>data all. objects mem_obj (en_s3 wit_engine) (wit_bucket z d) (s3_prefix (en_s3 wit_engine) @ ix_ChunkKey ix) = Some data
     \<and> chunk_entries ref_env (ix_ChunkKey ix) data = Some all"
proof -
  have "ix = wit_index" using assms(1,3) by (simp add: wit_request_def wit_keys wit_indexes)
  then show ?thesis using assms(2) by (simp add: wit_keys objects_def mem_obj_def wit_bucket_def)
qed

theorem Run_exact_witness:
  "\<exists>w resp w'. Run ref_env mem_api background 3 wit_engine wit_request w = (Inr resp, w')
     \<and> (length (rs_Entries resp) < 10 \<longrightarrow> wit_log_entry \<in> set (rs_Entries resp))"
proof -
  obtain z d where zd: "unmarshalIndex ref_env d = Some wit_index"
    "chunk_entries ref_env ''a/1970/01/01/0-u.gz'' z = Some [wit_log_entry]" by (rule wit_readable)
  have "entry_matches ref_env wit_request wit_log_entry"
    by (simp add: entry_matches_iff wit_request_def wit_log_entry_def ref_compressors.fold_refl all_match_def)
  moreover have "\<exists>resp w'. Run ref_env mem_api background 3 wit_engine wit_request (wit_bucket z d) = (Inr resp, w')
    \<and> (length (rs_Entries resp) < (if rq_Limit wit_request \<le> 0 then 200 else nat (rq_Limit wit_request)) \<longrightarrow>
        set (rs_Entries resp) = {x. entry_matches ref_env wit_request x
          \<and> query_source ref_env mem_obj wit_engine wit_request (wit_bucket z d) x})"
    by (rule Run_exact [OF mem_reliable]) (simp add: background_def, rule wit_run_ready [OF zd])
  ultimately show ?thesis using wit_query_source [OF zd] by (fastforce simp: wit_request_def)
qed

theorem Run_sound_witness:
  "\<exists>w resp w'. Run ref_env mem_api background 3 wit_engine wit_request w = (Inr resp, w')
     \<and> length (rs_Entries resp) \<le> 10 \<and> EntriesMatched (rs_Stats resp) = int (length (rs_Entries resp))"
proof -
  obtain z d where zd: "unmarshalIndex ref_env d = Some wit_index"
    "chunk_entries ref_env ''a/1970/01/01/0-u.gz'' z = Some [wit_log_entry]" by (rule wit_readable)
  obtain resp w' where r: "Run ref_env mem_api background 3 wit_engine wit_request (wit_bucket z d) = (Inr resp, w')"
    using Run_complete [OF mem_reliable background_ok wit_run_ready [OF zd], where dur = 3 and req = wit_request] by auto
  from Run_sound [OF mem.object_store_axioms r] r show ?thesis by (auto simp: wit_request_def)
qed

end
