(* ===== verification/Exporter.thy ===== *)
theory Exporter
  imports KeyLayout RefEnv Storage Retry
begin

text \<open>
  \<open>internal/exporter/exporter.go\<close> and \<open>opensearch.go\<close>: an export job lists the chunks of its
  days, filters their entries and sends them to OpenSearch in batches. The OpenSearch client
  is not sigyn's code: its calls are the fields of the record \<open>osapi\<close>, and what the code relies
  on is the contract \<open>bulk_service\<close>. The facts: the job's counters, the batches, and that
  exactly the matching entries arrive if nothing fails.
\<close>

section \<open>The OpenSearch client\<close>

text \<open>
  A response is whether its status is an error, the status line and the body; \<open>os_meta\<close> is the
  JSON text of the action line for an index name, \<open>os_parse\<close> decodes the \<open>errors\<close> flag and the
  status of each item of a bulk response.
\<close>

record 's osapi =
  os_bulk :: "string \<Rightarrow> 's \<Rightarrow> (bool \<times> string \<times> bytes) result \<times> 's"
  os_info :: "'s \<Rightarrow> (bool \<times> string) result \<times> 's"
  os_meta :: "string \<Rightarrow> string"
  os_parse :: "bytes \<Rightarrow> (bool \<times> int list) result"

record OSClient =
  os_indexPrefix :: string

definition IndexNameForDate :: "OSClient \<Rightarrow> time \<Rightarrow> string" where
  "IndexNameForDate c t = os_indexPrefix c @ format_date ''.'' t"

definition truncate_str :: "string \<Rightarrow> nat \<Rightarrow> string" where
  "truncate_str s n = (if length s \<le> n then s else take n s @ ''...'')"

text \<open>The loop of \<open>BulkIndex\<close> that builds the request body.\<close>

fun bulk_payload :: "env \<Rightarrow> 's osapi \<Rightarrow> OSClient \<Rightarrow> LogEntry list \<Rightarrow> string \<Rightarrow> string result" where
  "bulk_payload E os c [] buf = Inr buf"
| "bulk_payload E os c (entry # entries) buf =
     (let index = os_indexPrefix c @ format_date ''.'' (Timestamp entry);
          metaLine = os_meta os index
      in case marshalEntry E entry of
           Inl er \<Rightarrow> Inl (''marshal entry: '' @ er)
         | Inr docLine \<Rightarrow>
             bulk_payload E os c entries (buf @ metaLine @ [newline] @ docLine @ [newline]))"

fun count_ok :: "int list \<Rightarrow> int \<Rightarrow> int" where
  "count_ok [] indexed = indexed"
| "count_ok (st # sts) indexed =
     count_ok sts (if st \<ge> 200 \<and> st < 300 then indexed + 1 else indexed)"

text \<open>The result of \<open>BulkIndex\<close> is a count and an error.\<close>

definition BulkIndex ::
  "env \<Rightarrow> 's osapi \<Rightarrow> OSClient \<Rightarrow> LogEntry list \<Rightarrow> 's world \<Rightarrow> (int \<times> err option) \<times> 's world" where
  "BulkIndex E os c entries w =
     (if length entries = 0 then ((0, None), w)
      else
        case bulk_payload E os c entries [] of
          Inl er \<Rightarrow> ((0, Some er), w)
        | Inr buf \<Rightarrow>
            (case os_bulk os buf (ext w) of
               (Inl er, s) \<Rightarrow> ((0, Some (''bulk request: '' @ er)), w\<lparr>ext := s\<rparr>)
             | (Inr (isError, status, body), s) \<Rightarrow>
                 (let w' = w\<lparr>ext := s\<rparr>
                  in if isError
                     then ((0, Some (''bulk response '' @ status @ '': '' @ truncate_str body 500)), w')
                     else
                       case os_parse os body of
                         Inl er \<Rightarrow> ((0, Some (''parse bulk response: '' @ er)), w')
                       | Inr (errors, items) \<Rightarrow> ((count_ok items 0, None), w'))))"

definition Ping :: "'s osapi \<Rightarrow> OSClient \<Rightarrow> 's world \<Rightarrow> err option \<times> 's world" where
  "Ping os c w =
     (case os_info os (ext w) of
        (Inl er, s) \<Rightarrow> (Some er, w\<lparr>ext := s\<rparr>)
      | (Inr (isError, status), s) \<Rightarrow>
          (if isError then Some (''opensearch ping: '' @ status) else None, w\<lparr>ext := s\<rparr>))"

section \<open>The exporter\<close>

record Exporter =
  ex_s3 :: S3Client
  ex_os :: OSClient
  ex_batchSize :: int

definition NewExporter :: "S3Client \<Rightarrow> OSClient \<Rightarrow> int \<Rightarrow> Exporter" where
  "NewExporter c osc batchSize =
     \<lparr>ex_s3 = c, ex_os = osc, ex_batchSize = (if batchSize \<le> 0 then 1000 else batchSize)\<rparr>"

definition matchesJob :: "env \<Rightarrow> LogEntry \<Rightarrow> ExportJob \<Rightarrow> bool" where
  "matchesJob E entry job =
     (if Before (Timestamp entry) (job_StartTime job) \<or> After (Timestamp entry) (job_EndTime job) then False
      else if job_Service job \<noteq> '''' \<and> \<not> equalFold E (Service entry) (job_Service job) then False
      else all_match (job_LabelFilters job) (Labels entry))"

fun filter_lines :: "env \<Rightarrow> ExportJob \<Rightarrow> string list \<Rightarrow> LogEntry list \<Rightarrow> LogEntry list" where
  "filter_lines E job [] matched = matched"
| "filter_lines E job (t # ts) matched =
     (case unmarshalEntry E t of
        None \<Rightarrow> filter_lines E job ts matched
      | Some entry \<Rightarrow> filter_lines E job ts (if matchesJob E entry job then matched @ [entry] else matched))"

definition fetchAndFilterJob ::
  "env \<Rightarrow> 's s3api \<Rightarrow> Exporter \<Rightarrow> string \<Rightarrow> ExportJob \<Rightarrow> 's world \<Rightarrow> (LogEntry list \<times> err option) \<times> 's world" where
  "fetchAndFilterJob E api e key job w =
     (case GetObjectRaw api (ex_s3 e) key w of
        (Inl er, w') \<Rightarrow> (([], Some (''fetch '' @ key @ '': '' @ er)), w')
      | (Inr data, w') \<Rightarrow>
          (case decompress E data key of
             Inl er \<Rightarrow> (([], Some (''decompress '' @ key @ '': '' @ er)), w')
           | Inr (d, rerr) \<Rightarrow>
               (let (ts, serr) = scanner d rerr in ((filter_lines E job ts [], serr), w'))))"

text \<open>
  The function retried by \<open>bulkIndexWithRetry\<close> assigns the captured variable \<open>indexed\<close>, which is
  part of the state of the retry here.
\<close>

definition index_attempt ::
  "env \<Rightarrow> 's osapi \<Rightarrow> Exporter \<Rightarrow> LogEntry list \<Rightarrow> 's world \<times> int \<Rightarrow> err option \<times> 's world \<times> int" where
  "index_attempt E os e batch = (\<lambda>(w, indexed).
     case BulkIndex E os (ex_os e) batch w of
       ((n, er), w') \<Rightarrow>
         (er, w'\<lparr>mx := (mx w')\<lparr>BulkIndexDuration := BulkIndexDuration (mx w') + 1\<rparr>\<rparr>, n))"

definition with_indexed :: "'w ctx \<Rightarrow> ('w \<times> int) ctx" where
  "with_indexed C =
     \<lparr>ctx_err = (\<lambda>(w, n). ctx_err C w),
      ctx_wait = (\<lambda>d (w, n). case ctx_wait C d w of (r, w') \<Rightarrow> (r, w', n))\<rparr>"

definition bulkIndexWithRetry ::
  "env \<Rightarrow> 's osapi \<Rightarrow> 's world ctx \<Rightarrow> (nat \<Rightarrow> int) \<Rightarrow> Exporter \<Rightarrow> LogEntry list \<Rightarrow> 's world \<Rightarrow>
   (int \<times> err option) \<times> 's world" where
  "bulkIndexWithRetry E os C rnd e batch w =
     (case Do (with_indexed C) DefaultOptions rnd (index_attempt E os e batch) (w, 0) of
        (er, w', indexed) \<Rightarrow> ((indexed, er), w'))"

fun list_prefixes ::
  "'s s3api \<Rightarrow> S3Client \<Rightarrow> string list \<Rightarrow> string list \<Rightarrow> 's world \<Rightarrow> string list result \<times> 's world" where
  "list_prefixes api c [] allKeys w = (Inr allKeys, w)"
| "list_prefixes api c (prefix # prefixes) allKeys w =
     (case ListObjects api c prefix w of
        (Inl er, w') \<Rightarrow> (Inl er, w')
      | (Inr keys, w') \<Rightarrow> list_prefixes api c prefixes (allKeys @ keys) w')"

definition note_error :: "err option \<Rightarrow> ExportJob \<Rightarrow> ExportJob" where
  "note_error er job = (if er \<noteq> None then job\<lparr>job_ErrorCount := job_ErrorCount job + 1\<rparr> else job)"

text \<open>
  The inner loop of \<open>Run\<close>: full batches are sent. It ends because \<open>batchSize\<close> is positive, which
  \<open>NewExporter\<close> makes sure of. \<open>bulk\<close> is \<open>bulkIndexWithRetry\<close> with its first arguments.
\<close>

function send_full ::
  "(LogEntry list \<Rightarrow> 'w \<Rightarrow> (int \<times> err option) \<times> 'w) \<Rightarrow> nat \<Rightarrow> LogEntry list \<Rightarrow> ExportJob \<Rightarrow> int \<Rightarrow> 'w \<Rightarrow>
   LogEntry list \<times> ExportJob \<times> int \<times> 'w" where
  "send_full bulk batchSize pendingBatch job totalExported w =
     (if 0 < batchSize \<and> batchSize \<le> length pendingBatch
      then
        case bulk (take batchSize pendingBatch) w of
          ((indexed, er), w') \<Rightarrow>
            send_full bulk batchSize (drop batchSize pendingBatch) (note_error er job)
              (totalExported + indexed) w'
      else (pendingBatch, job, totalExported, w))"
  by pat_completeness auto
termination
  by (relation "measure (\<lambda>(bulk, n, p, job, t, w). length p)") auto

declare send_full.simps [simp del]

fun export_chunks ::
  "env \<Rightarrow> 's s3api \<Rightarrow> 's osapi \<Rightarrow> 's world ctx \<Rightarrow> (nat \<Rightarrow> int) \<Rightarrow> Exporter \<Rightarrow> string list \<Rightarrow> LogEntry list \<Rightarrow>
   ExportJob \<Rightarrow> int \<Rightarrow> 's world \<Rightarrow> err option \<times> LogEntry list \<times> ExportJob \<times> int \<times> 's world" where
  "export_chunks E api os C rnd e [] pendingBatch job totalExported w = (None, pendingBatch, job, totalExported, w)"
| "export_chunks E api os C rnd e (key # keys) pendingBatch job totalExported w =
     (case ctx_err C w of
        Some er \<Rightarrow> (Some er, pendingBatch, job\<lparr>job_Status := ExportStatusFailed, job_Error := er\<rparr>, totalExported, w)
      | None \<Rightarrow>
          (case fetchAndFilterJob E api e key job w of
             ((entries, Some er), w1) \<Rightarrow>
               export_chunks E api os C rnd e keys pendingBatch
                 (job\<lparr>job_ErrorCount := job_ErrorCount job + 1, job_ChunksProcessed := job_ChunksProcessed job + 1\<rparr>)
                 totalExported w1
           | ((entries, None), w1) \<Rightarrow>
               (case send_full (bulkIndexWithRetry E os C rnd e) (nat (ex_batchSize e)) (pendingBatch @ entries)
                       job totalExported w1 of
                  (pending', job', total', w2) \<Rightarrow>
                    export_chunks E api os C rnd e keys pending'
                      (job'\<lparr>job_ChunksProcessed := job_ChunksProcessed job' + 1\<rparr>) total' w2)))"

text \<open>\<open>Run\<close> of the exporter; \<open>now\<close> is the time at which it completes.\<close>

definition RunExport ::
  "env \<Rightarrow> 's s3api \<Rightarrow> 's osapi \<Rightarrow> 's world ctx \<Rightarrow> (nat \<Rightarrow> int) \<Rightarrow> time \<Rightarrow> Exporter \<Rightarrow> ExportJob \<Rightarrow> 's world \<Rightarrow>
   err option \<times> ExportJob \<times> 's world" where
  "RunExport E api os C rnd now e job0 w =
     (let job = job0\<lparr>job_Status := ExportStatusRunning\<rparr>;
          prefixes = timePrefixes (job_Service job) (job_StartTime job) (job_EndTime job)
      in case list_prefixes api (ex_s3 e) prefixes [] w of
           (Inl er, w') \<Rightarrow> (Some er, job\<lparr>job_Status := ExportStatusFailed, job_Error := er\<rparr>, w')
         | (Inr allKeys, w') \<Rightarrow>
             (case export_chunks E api os C rnd e allKeys [] (job\<lparr>job_ChunksTotal := int (length allKeys)\<rparr>) 0 w' of
                (Some er, pending, job', totalExported, w'') \<Rightarrow> (Some er, job', w'')
              | (None, pending, job', totalExported, w'') \<Rightarrow>
                  (let (job2, total2, w3) =
                         (if 0 < length pending
                          then (case bulkIndexWithRetry E os C rnd e pending w'' of
                                  ((indexed, er), w3) \<Rightarrow> (note_error er job', totalExported + indexed, w3))
                          else (job', totalExported, w''));
                       job3 = job2\<lparr>job_LogsExported := total2, job_CompletedAt := now\<rparr>;
                       w4 = w3\<lparr>mx := (mx w3)\<lparr>ExportLogsIndexed := ExportLogsIndexed (mx w3) + total2\<rparr>\<rparr>
                   in (None,
                       if job_ErrorCount job3 > 0
                       then job3\<lparr>job_Status := ExportStatusCompleted,
                                 job_Error := show_int (job_ErrorCount job3) @ '' errors during export''\<rparr>
                       else job3\<lparr>job_Status := ExportStatusCompleted\<rparr>,
                       w4))))"

section \<open>The contract of the bulk interface\<close>

text \<open>The body of a bulk request for documents with their index names.\<close>

definition bulk_body :: "'s osapi \<Rightarrow> (string \<times> string) list \<Rightarrow> string" where
  "bulk_body os ps = concat (map (\<lambda>(index, doc). os_meta os index @ [newline] @ doc @ [newline]) ps)"

definition accepted :: "(string \<times> string) list \<Rightarrow> int list \<Rightarrow> (string \<times> string) list" where
  "accepted ps items = map fst (filter (\<lambda>(p, st). 200 \<le> st \<and> st < 300) (zip ps items))"

definition single_lines :: "(string \<times> string) list \<Rightarrow> bool" where
  "single_lines ps \<longleftrightarrow> (\<forall>p \<in> set ps. newline \<notin> set (snd p))"

text \<open>
  \<open>docs s\<close> are the documents indexed so far. A bulk response has one item per action, in order,
  and the documents with a status of the 200 range are indexed; a request that reports an
  error may have been executed in part. The format separates lines by newlines, so the
  documents must not contain any.
\<close>

locale bulk_service =
  fixes os :: "'s osapi"
    and docs :: "'s \<Rightarrow> (string \<times> string) list"
  assumes bulk_ok: "single_lines ps \<Longrightarrow> os_bulk os (bulk_body os ps) s = (Inr (False, status, body), s') \<Longrightarrow>
        os_parse os body = Inr (errors, items) \<Longrightarrow>
        length items = length ps \<and> docs s' = docs s @ accepted ps items"
    and bulk_any: "single_lines ps \<Longrightarrow> os_bulk os (bulk_body os ps) s = (r, s') \<Longrightarrow>
        \<exists>qs. set qs \<subseteq> set ps \<and> docs s' = docs s @ qs"

text \<open>
  The surroundings of an export: the two services do not affect each other, and JSON texts
  are single lines.
\<close>

locale export_env = object_store api obj + bulk_service os docs
  for api :: "'s s3api" and obj :: "'s \<Rightarrow> string \<Rightarrow> string \<rightharpoonup> bytes"
    and os :: "'s osapi" and docs :: "'s \<Rightarrow> (string \<times> string) list" +
  fixes C :: "'s world ctx" and E :: env
  assumes marshal_line: "marshalEntry E x = Inr line \<Longrightarrow> newline \<notin> set line"
    and bulk_obj: "os_bulk os p s = (r, s') \<Longrightarrow> obj s' = obj s"
    and get_docs: "api_get api b k s = (r1, s') \<Longrightarrow> docs s' = docs s"
    and list_docs: "api_list api b k s = (r2, s') \<Longrightarrow> docs s' = docs s"
    and wait_frame: "ctx_wait C d w = (r3, w') \<Longrightarrow> obj (ext w') = obj (ext w) \<and> docs (ext w') = docs (ext w)"

section \<open>Lemmas without assumptions\<close>

text \<open>The document of an entry.\<close>

definition doc_of :: "env \<Rightarrow> OSClient \<Rightarrow> LogEntry \<Rightarrow> string \<times> string" where
  "doc_of E c x = (IndexNameForDate c (Timestamp x), jline E x)"

lemma bulk_payload_eq:
  "bulk_payload E os c es buf = Inr p \<Longrightarrow> p = buf @ bulk_body os (map (doc_of E c) es)"
proof (induction es arbitrary: buf)
  case (Cons x es)
  obtain d where d: "marshalEntry E x = Inr d"
    using Cons.prems by (auto simp: Let_def split: sum.splits)
  let ?buf = "buf @ os_meta os (IndexNameForDate c (Timestamp x)) @ [newline] @ d @ [newline]"
  have "bulk_payload E os c es ?buf = Inr p"
    using Cons.prems d by (simp add: Let_def IndexNameForDate_def)
  from Cons.IH [OF this] d show ?case by (simp add: bulk_body_def doc_of_def jline_def)
qed (simp add: bulk_body_def)

lemma bulk_payload_ok:
  "\<forall>x \<in> set es. \<exists>d. marshalEntry E x = Inr d \<Longrightarrow> \<exists>p. bulk_payload E os c es buf = Inr p"
  by (induction es arbitrary: buf) (auto simp: Let_def)

lemma count_ok_eq: "count_ok items n = n + int (length (filter (\<lambda>st. 200 \<le> st \<and> st < 300) items))"
  by (induction items arbitrary: n) auto

lemma length_accepted:
  "length items = length ps \<Longrightarrow> int (length (accepted ps items)) = count_ok items 0"
  by (induction ps items rule: list_induct2') (auto simp: accepted_def count_ok_eq)

lemma set_accepted: "set (accepted ps items) \<subseteq> set ps"
  by (auto simp: accepted_def dest: set_zip_leftD)

lemma filter_lines_eq:
  "filter_lines E job ts matched = matched @ filter (\<lambda>x. matchesJob E x job) (decode_lines E ts)"
  by (induction ts arbitrary: matched)
    (auto simp: decode_lines_def List.map_filter_simps split: option.splits)

text \<open>The selection criteria of a job, which the run never changes.\<close>

definition same_criteria :: "ExportJob \<Rightarrow> ExportJob \<Rightarrow> bool" where
  "same_criteria j k \<longleftrightarrow> job_StartTime k = job_StartTime j \<and> job_EndTime k = job_EndTime j
     \<and> job_Service k = job_Service j \<and> job_LabelFilters k = job_LabelFilters j"

lemma matchesJob_same: "same_criteria j k \<Longrightarrow> matchesJob E x k = matchesJob E x j"
  by (simp add: same_criteria_def matchesJob_def)

lemma note_error_sel [simp]:
  "job_ChunksProcessed (note_error er j) = job_ChunksProcessed j" "job_ChunksTotal (note_error er j) = job_ChunksTotal j"
  "same_criteria j (note_error er k) = same_criteria j k" "job_ErrorCount j \<le> job_ErrorCount (note_error er j)"
  "job_Status (note_error er j) = job_Status j" "job_StartTime (note_error er j) = job_StartTime j"
  "job_EndTime (note_error er j) = job_EndTime j" "job_Service (note_error er j) = job_Service j"
  "job_LabelFilters (note_error er j) = job_LabelFilters j" "note_error None j = j"
  by (simp_all add: note_error_def same_criteria_def)

text \<open>Sending the full batches: what is sent is a prefix, in batches of the exact size.\<close>

lemma send_full_cases:
  assumes "send_full bulk n p job t w = (p', job', t', w')"
  obtains (finished) "\<not> (0 < n \<and> n \<le> length p)" "p' = p" "job' = job" "t' = t" "w' = w"
  | (send) k er w1 where "0 < n" "n \<le> length p" "bulk (take n p) w = ((k, er), w1)"
      "send_full bulk n (drop n p) (note_error er job) (t + k) w1 = (p', job', t', w')"
proof (cases "0 < n \<and> n \<le> length p")
  case True
  obtain k er w1 where b: "bulk (take n p) w = ((k, er), w1)" by (metis prod.collapse)
  then show ?thesis using assms True send [of k er w1] by (simp add: send_full.simps [of bulk n p])
next
  case False
  then show ?thesis using assms finished by (auto simp: send_full.simps [of bulk n p])
qed

lemma send_full_rest:
  "send_full bulk n p job t w = (p', job', t', w') \<Longrightarrow> 0 < n \<Longrightarrow>
   length p' < n \<and> set p' \<subseteq> set p \<and> job_ChunksProcessed job' = job_ChunksProcessed job
   \<and> job_ChunksTotal job' = job_ChunksTotal job \<and> same_criteria job job' \<and> job_Status job' = job_Status job"
proof (induction bulk n p job t w rule: send_full.induct)
  case (1 bulk n p job t w)
  from 1(2) show ?case
  proof (cases rule: send_full_cases)
    case finished
    then show ?thesis using 1(3) by (simp add: same_criteria_def)
  next
    case (send k er w1)
    have "set (drop n p) \<subseteq> set p" by (rule set_drop_subset)
    then show ?thesis
      using 1(1) [OF _ send(3) [symmetric] refl send(4) 1(3)] send(1,2) by (auto simp: same_criteria_def)
  qed
qed

section \<open>Soundness of an export\<close>

text \<open>
  The objects are as before, and the documents indexed meanwhile come from a given set and
  are at least \<open>k\<close> in number.
\<close>

definition sent ::
  "('s \<Rightarrow> string \<Rightarrow> string \<rightharpoonup> bytes) \<Rightarrow> ('s \<Rightarrow> (string \<times> string) list) \<Rightarrow> (string \<times> string) set \<Rightarrow> int \<Rightarrow>
   's world \<Rightarrow> 's world \<Rightarrow> bool" where
  "sent obj docs S k w w' \<longleftrightarrow> obj (ext w') = obj (ext w)
     \<and> (\<exists>D. docs (ext w') = docs (ext w) @ D \<and> set D \<subseteq> S \<and> k \<le> int (length D))"

text \<open>The entries that a job selects from the objects with given keys.\<close>

definition job_entries :: "env \<Rightarrow> (string \<rightharpoonup> bytes) \<Rightarrow> string list \<Rightarrow> ExportJob \<Rightarrow> LogEntry set" where
  "job_entries E objs keys job =
     {x. matchesJob E x job \<and> (\<exists>key data all. key \<in> set keys \<and> objs key = Some data
        \<and> chunk_entries E key data = Some all \<and> x \<in> set all)}"

lemma job_entries_mono:
  "same_criteria j k \<Longrightarrow> set keys \<subseteq> set keys' \<Longrightarrow> job_entries E objs keys k \<subseteq> job_entries E objs keys' j"
  by (auto simp: job_entries_def matchesJob_same)

context export_env
begin

lemma docs_single: "single_lines (map (doc_of E c) b)"
  using marshal_line by (auto simp: single_lines_def doc_of_def jline_def split: sum.splits)

lemma sent_frame: "obj (ext w') = obj (ext w) \<Longrightarrow> docs (ext w') = docs (ext w) \<Longrightarrow> sent obj docs S 0 w w'"
  by (simp add: sent_def)

lemma sent_trans: "sent obj docs S k w w1 \<Longrightarrow> sent obj docs S l w1 w2 \<Longrightarrow> sent obj docs S (k + l) w w2"
  by (auto simp: sent_def)

lemma sent_mono: "sent obj docs S k w w' \<Longrightarrow> S \<subseteq> T \<Longrightarrow> l \<le> k \<Longrightarrow> sent obj docs T l w w'"
  by (auto simp: sent_def)

lemma BulkIndex_sent:
  assumes "BulkIndex E os c b w = ((n, er), w')"
  shows "sent obj docs (doc_of E c ` set b) n w w' \<and> 0 \<le> n"
proof (cases "b = [] \<or> (\<exists>e. bulk_payload E os c b [] = Inl e)")
  case True
  then show ?thesis using assms sent_frame by (auto simp: BulkIndex_def split: sum.splits if_splits)
next
  case False
  then obtain buf where buf: "bulk_payload E os c b [] = Inr buf" "b \<noteq> []"
    by (cases "bulk_payload E os c b []") auto
  then have body: "buf = bulk_body os (map (doc_of E c) b)" using bulk_payload_eq by fastforce
  obtain r s where r: "os_bulk os (bulk_body os (map (doc_of E c) b)) (ext w) = (r, s)" by fastforce
  have w': "ext w' = s" and n: "n = 0 \<or> (\<exists>status rb errors items. r = Inr (False, status, rb)
      \<and> os_parse os rb = Inr (errors, items) \<and> n = count_ok items 0)"
    using assms buf r by (auto simp: BulkIndex_def body Let_def split: sum.splits prod.splits if_splits)
  have o: "obj (ext w') = obj (ext w)" using bulk_obj [OF r] w' by simp
  show ?thesis
  proof (cases "n = 0")
    case True
    then show ?thesis using bulk_any [OF docs_single r] o w' by (auto simp: sent_def)
  next
    case False
    then obtain status rb errors items where ok: "r = Inr (False, status, rb)"
      "os_parse os rb = Inr (errors, items)" "n = count_ok items 0" using n by blast
    note b = bulk_ok [OF docs_single r [unfolded ok(1)] ok(2)]
    then have "int (length (accepted (map (doc_of E c) b) items)) = n" using length_accepted ok(3) by simp
    then show ?thesis using b o w' ok(3) set_accepted [of "map (doc_of E c) b" items] by (auto simp: sent_def count_ok_eq)
  qed
qed

lemma bulkIndexWithRetry_sent:
  assumes "bulkIndexWithRetry E os C rnd e b w = ((n, er), w')"
  shows "sent obj docs (doc_of E (ex_os e) ` set b) n w w' \<and> 0 \<le> n"
proof -
  let ?S = "doc_of E (ex_os e) ` set b"
  let ?P = "\<lambda>(v, k). sent obj docs ?S k w v \<and> 0 \<le> k"
  let ?run = "Do (with_indexed C) DefaultOptions rnd (index_attempt E os e b) (w, 0)"
  have "?P (snd ?run)"
  proof (rule Do_preserves [where P = ?P])
    fix v r v' assume a: "index_attempt E os e b v = (r, v')" and p: "?P v"
    obtain u k where v: "v = (u, k)" by fastforce
    obtain m er' u' where b: "BulkIndex E os (ex_os e) b u = ((m, er'), u')" by (metis prod.collapse)
    have "sent obj docs ?S (k + m) w u'" using p v BulkIndex_sent [OF b] sent_trans by auto
    then have "sent obj docs ?S m w u'" by (rule sent_mono) (use p v in auto)
    then show "?P v'"
      using a b v BulkIndex_sent [OF b] by (auto simp: index_attempt_def sent_def)
  next
    fix d v r v' assume a: "ctx_wait (with_indexed C) d v = (r, v')" and p: "?P v"
    obtain u k where v: "v = (u, k)" by fastforce
    obtain r' u' where b: "ctx_wait C d u = (r', u')" by fastforce
    have "sent obj docs ?S (k + 0) w u'"
      using p v sent_trans [of ?S k w u 0 u'] sent_frame [of u' u ?S] wait_frame [OF b] by auto
    then show "?P v'" using a b v p by (auto simp: with_indexed_def)
  qed (simp add: sent_frame)
  then show ?thesis using assms by (auto simp: bulkIndexWithRetry_def split: prod.splits)
qed

lemma send_full_sent:
  "send_full (bulkIndexWithRetry E os C rnd e) n p job t w = (p', job', t', w') \<Longrightarrow>
   doc_of E (ex_os e) ` set p \<subseteq> S \<Longrightarrow> sent obj docs S (t' - t) w w' \<and> t \<le> t'"
proof (induction "bulkIndexWithRetry E os C rnd e" n p job t w rule: send_full.induct)
  case (1 n p job t w)
  from 1(2) show ?case
  proof (cases rule: send_full_cases)
    case finished
    then show ?thesis by (simp add: sent_frame)
  next
    case (send k er w1)
    have sub: "doc_of E (ex_os e) ` set (take n p) \<subseteq> S" "doc_of E (ex_os e) ` set (drop n p) \<subseteq> S"
      using 1(3) set_take_subset [of n p] set_drop_subset [of n p] by blast+
    have "sent obj docs S k w w1 \<and> 0 \<le> k" using bulkIndexWithRetry_sent [OF send(3)] sent_mono [OF _ sub(1)] by blast
    moreover have "sent obj docs S (t' - (t + k)) w1 w' \<and> t + k \<le> t'"
      using 1(1) [OF _ send(3) [symmetric] refl send(4) sub(2)] send(1,2) by simp
    ultimately show ?thesis using sent_trans [of S k w w1 "t' - (t + k)" w'] by simp
  qed
qed

lemma fetchAndFilterJob_frame:
  "fetchAndFilterJob E api e key job w = (r, w') \<Longrightarrow> obj (ext w') = obj (ext w) \<and> docs (ext w') = docs (ext w)"
  by (auto simp: fetchAndFilterJob_def GetObjectRaw_def getObject_def Let_def
      split: prod.splits sum.splits dest: get_frame get_docs)

lemma fetchAndFilterJob_ok:
  assumes "fetchAndFilterJob E api e key job w = ((es, None), w')"
  shows "\<exists>data all. objects obj (ex_s3 e) w key = Some data \<and> chunk_entries E key data = Some all
    \<and> es = filter (\<lambda>x. matchesJob E x job) all"
proof -
  obtain data w1 where g: "getObject api (ex_s3 e) key w = (Inr data, w1)"
    using assms by (auto simp: fetchAndFilterJob_def GetObjectRaw_def split: prod.splits sum.splits)
  obtain d rerr ts where d: "decompress E data key = Inr (d, rerr)" "scanner d rerr = (ts, None)"
    "es = filter (\<lambda>x. matchesJob E x job) (decode_lines E ts)"
    using assms g
    by (auto simp: fetchAndFilterJob_def GetObjectRaw_def Let_def filter_lines_eq split: prod.splits sum.splits)
  show ?thesis using getObject_ok [OF g] chunk_entriesI [OF d(1,2)] d(3) by blast
qed

lemma export_chunks_sent:
  assumes "export_chunks E api os C rnd e keys p job t w = (er, p', job', t', w')" "0 < ex_batchSize e"
    and "doc_of E (ex_os e) ` (set p \<union> job_entries E (objects obj (ex_s3 e) w) keys job) \<subseteq> S"
  shows "sent obj docs S (t' - t) w w' \<and> t \<le> t' \<and> doc_of E (ex_os e) ` set p' \<subseteq> S
    \<and> job_ChunksTotal job' = job_ChunksTotal job
    \<and> (if er = None then job_ChunksProcessed job' = job_ChunksProcessed job + int (length keys) \<and> job_Status job' = job_Status job
       else job_Status job' = ExportStatusFailed \<and> job_Error job' = the er)"
  using assms(1,3)
proof (induction keys arbitrary: p job t w)
  case Nil
  then show ?case by (auto simp: sent_frame)
next
  case (Cons key keys)
  show ?case
  proof (cases "ctx_err C w")
    case (Some x)
    then show ?thesis using Cons.prems by (auto simp: sent_frame)
  next
    case none: None
    obtain es fer w1 where f: "fetchAndFilterJob E api e key job w = ((es, fer), w1)" by (metis prod.collapse)
    note fr = fetchAndFilterJob_frame [OF f]
    have o: "objects obj (ex_s3 e) w1 = objects obj (ex_s3 e) w" using fr by (simp add: objects_def)
    have s1: "sent obj docs S 0 w w1" using fr by (simp add: sent_frame)
    show ?thesis
    proof (cases fer)
      case (Some x)
      let ?job = "job\<lparr>job_ErrorCount := job_ErrorCount job + 1, job_ChunksProcessed := job_ChunksProcessed job + 1\<rparr>"
      have run: "export_chunks E api os C rnd e keys p ?job t w1 = (er, p', job', t', w')"
        using Cons.prems(1) none f Some by simp
      have "job_entries E (objects obj (ex_s3 e) w1) keys ?job \<subseteq> job_entries E (objects obj (ex_s3 e) w) (key # keys) job"
        unfolding o by (rule job_entries_mono) (auto simp: same_criteria_def)
      then have "doc_of E (ex_os e) ` (set p \<union> job_entries E (objects obj (ex_s3 e) w1) keys ?job) \<subseteq> S"
        using Cons.prems(2) by blast
      from Cons.IH [OF run this] sent_trans [OF s1] show ?thesis by force
    next
      case None
      obtain data all where d: "objects obj (ex_s3 e) w key = Some data" "chunk_entries E key data = Some all"
        "es = filter (\<lambda>x. matchesJob E x job) all"
        using fetchAndFilterJob_ok f None by blast
      have es: "set es \<subseteq> job_entries E (objects obj (ex_s3 e) w) (key # keys) job"
        using d by (auto simp: job_entries_def)
      obtain p1 job1 t1 w2 where sf: "send_full (bulkIndexWithRetry E os C rnd e) (nat (ex_batchSize e)) (p @ es) job t w1
          = (p1, job1, t1, w2)" by (metis prod_cases4)
      have sub: "doc_of E (ex_os e) ` set (p @ es) \<subseteq> S" using Cons.prems(2) es by fastforce
      note s2 = send_full_sent [OF sf sub]
      note rest = send_full_rest [OF sf]
      let ?job = "job1\<lparr>job_ChunksProcessed := job_ChunksProcessed job1 + 1\<rparr>"
      have run: "export_chunks E api os C rnd e keys p1 ?job t1 w2 = (er, p', job', t', w')"
        using Cons.prems(1) none f None sf by simp
      have o2: "objects obj (ex_s3 e) w2 = objects obj (ex_s3 e) w"
        using s2 o by (simp add: sent_def objects_def)
      have "job_entries E (objects obj (ex_s3 e) w2) keys ?job \<subseteq> job_entries E (objects obj (ex_s3 e) w) (key # keys) job"
        unfolding o2 by (rule job_entries_mono) (use rest assms(2) in \<open>auto simp: same_criteria_def\<close>)
      moreover have "set p1 \<subseteq> set (p @ es)" using rest assms(2) by simp
      ultimately have "doc_of E (ex_os e) ` (set p1 \<union> job_entries E (objects obj (ex_s3 e) w2) keys ?job) \<subseteq> S"
        using Cons.prems(2) sub by blast
      note IH = Cons.IH [OF run this]
      have "sent obj docs S (0 + (t1 - t) + (t' - t1)) w w'"
        using sent_trans [OF sent_trans [OF s1] ] s2 IH by blast
      then show ?thesis using IH s2 rest assms(2) by simp
    qed
  qed
qed

lemma list_prefixes_ok:
  assumes "list_prefixes api c ps acc w = (Inr keys, w')"
  shows "set keys = set acc \<union> {k \<in> dom (objects obj c w). listed k (map ((@) (s3_prefix c)) ps)}"
  using assms
proof (induction ps arbitrary: acc w)
  case Nil
  then show ?case by (simp add: listed_def)
next
  case (Cons p ps)
  obtain ks w1 where l: "ListObjects api c p w = (Inr ks, w1)"
    using Cons.prems by (auto split: prod.splits sum.splits)
  have "list_prefixes api c ps (acc @ ks) w1 = (Inr keys, w')" using Cons.prems l by simp
  from Cons.IH [OF this, unfolded ListObjects_frame [OF l]] ListObjects_ok [OF l]
  show ?case by (auto simp: listed_def)
qed

lemma list_prefixes_distinct:
  assumes "list_prefixes api c ps acc w = (Inr keys, w')" "distinct acc" "distinct ps"
    and "\<And>p q k. p \<in> set ps \<Longrightarrow> q \<in> set ps \<Longrightarrow> HasPrefix k (s3_prefix c @ p) \<Longrightarrow> HasPrefix k (s3_prefix c @ q) \<Longrightarrow> p = q"
    and "\<And>k p. k \<in> set acc \<Longrightarrow> p \<in> set ps \<Longrightarrow> \<not> HasPrefix k (s3_prefix c @ p)"
  shows "distinct keys"
  using assms
proof (induction ps arbitrary: acc w)
  case (Cons p ps)
  obtain ks w1 where l: "ListObjects api c p w = (Inr ks, w1)"
    using Cons.prems(1) by (auto split: prod.splits sum.splits)
  note ks = ListObjects_ok [OF l]
  have "list_prefixes api c ps (acc @ ks) w1 = (Inr keys, w')" using Cons.prems(1) l by simp
  then show ?case
  proof (rule Cons.IH)
    show "distinct (acc @ ks)" using ks Cons.prems(2) Cons.prems(5) [of _ p] by fastforce
    show "\<not> HasPrefix k (s3_prefix c @ q)" if "k \<in> set (acc @ ks)" "q \<in> set ps" for k q
      using that ks Cons.prems(3) Cons.prems(4) [of p q k] Cons.prems(5) [of k q] by auto
  qed (use Cons.prems in auto)
qed simp

lemma list_prefixes_frame:
  "list_prefixes api c ps acc w = (r, w') \<Longrightarrow> obj (ext w') = obj (ext w) \<and> docs (ext w') = docs (ext w)"
proof (induction ps arbitrary: acc w)
  case (Cons p ps)
  obtain l w1 where l: "ListObjects api c p w = (l, w1)" by fastforce
  have "docs (ext w1) = docs (ext w)"
    using l by (auto simp: ListObjects_def Let_def split: prod.splits sum.splits dest: list_docs)
  then show ?case using Cons.prems Cons.IH [of _ w1] ListObjects_obj [OF l] l by (auto split: sum.splits)
qed simp

end

text \<open>No object lies under the prefixes of two different days.\<close>

lemma timePrefixes_disjoint:
  assumes "p \<in> set (timePrefixes service s e)" "q \<in> set (timePrefixes service s e)"
    and "HasPrefix k (base @ p)" "HasPrefix k (base @ q)"
  shows "p = q"
proof -
  let ?pre = "if service \<noteq> '''' then service @ ''/'' else ''''"
  have form: "\<exists>t. p = ?pre @ format_date ''/'' t @ ''/''" if "p \<in> set (timePrefixes service s e)" for p
    using that by (auto simp: timePrefixes_def day_loop_range Let_def)
  obtain t u where t: "p = ?pre @ format_date ''/'' t @ ''/''" and u: "q = ?pre @ format_date ''/'' u @ ''/''"
    using form assms(1,2) by meson
  obtain x where x: "k = base @ p @ x" using assms(3) by (auto simp: HasPrefix_iff)
  obtain y where "k = base @ q @ y" using assms(4) by (auto simp: HasPrefix_iff)
  with x have "format_date ''/'' t @ ''/'' @ x = format_date ''/'' u @ ''/'' @ y" using t u by simp
  then have "day_number t = day_number u" using date_prefix_inj by blast
  then show ?thesis using t u format_date_day by metis
qed

section \<open>Exactness of an export\<close>

text \<open>Both services work and nothing is cancelled.\<close>

locale reliable_export = export_env + reliable_store +
  assumes bulk_always: "single_lines ps \<Longrightarrow> \<exists>status body errors items s'.
        os_bulk os (bulk_body os ps) s = (Inr (False, status, body), s')
        \<and> os_parse os body = Inr (errors, items) \<and> (\<forall>st \<in> set items. 200 \<le> st \<and> st < 300)"
    and ctx_live: "ctx_err C w = None"
begin

lemma accepted_all:
  "length items = length ps \<Longrightarrow> \<forall>st \<in> set items. 200 \<le> st \<and> st < 300 \<Longrightarrow> accepted ps items = ps"
  by (induction ps items rule: list_induct2') (auto simp: accepted_def)

lemma bulk_exact:
  assumes "b \<noteq> []" "\<forall>x \<in> set b. \<exists>d. marshalEntry E x = Inr d"
  shows "\<exists>w'. bulkIndexWithRetry E os C rnd e b w = ((int (length b), None), w')
    \<and> obj (ext w') = obj (ext w) \<and> docs (ext w') = docs (ext w) @ map (doc_of E (ex_os e)) b"
proof -
  let ?ps = "map (doc_of E (ex_os e)) b"
  obtain p where p: "bulk_payload E os (ex_os e) b [] = Inr p" using bulk_payload_ok [OF assms(2)] by blast
  then have body: "p = bulk_body os ?ps" using bulk_payload_eq by fastforce
  obtain status rb errors items s' where r: "os_bulk os (bulk_body os ?ps) (ext w) = (Inr (False, status, rb), s')"
    "os_parse os rb = Inr (errors, items)" "\<forall>st \<in> set items. 200 \<le> st \<and> st < 300"
    using bulk_always [OF docs_single] by blast
  note ok = bulk_ok [OF docs_single r(1,2)]
  have cnt: "count_ok items 0 = int (length b)" using ok r(3) by (simp add: count_ok_eq)
  have acc: "accepted ?ps items = ?ps" using ok r(3) accepted_all by blast
  let ?w = "w\<lparr>ext := s', mx := (mx w)\<lparr>BulkIndexDuration := BulkIndexDuration (mx w) + 1\<rparr>\<rparr>"
  have "index_attempt E os e b (w, 0) = (None, ?w, int (length b))"
    using assms(1) p r(1,2) cnt by (simp add: index_attempt_def BulkIndex_def body Let_def)
  then have "Do (with_indexed C) DefaultOptions rnd (index_attempt E os e b) (w, 0) = (None, ?w, int (length b))"
    by (intro Do_fst_success) (simp_all add: with_indexed_def ctx_live DefaultOptions_def)
  then have "bulkIndexWithRetry E os C rnd e b w = ((int (length b), None), ?w)"
    by (simp add: bulkIndexWithRetry_def)
  then show ?thesis using ok acc bulk_obj [OF r(1)] by simp
qed

lemma send_full_exact:
  assumes "0 < n" "\<forall>x \<in> set p. \<exists>d. marshalEntry E x = Inr d"
  shows "\<exists>s p' w'. send_full (bulkIndexWithRetry E os C rnd e) n p job t w = (p', job, t + int (length s), w')
    \<and> p = s @ p' \<and> obj (ext w') = obj (ext w) \<and> docs (ext w') = docs (ext w) @ map (doc_of E (ex_os e)) s"
  using assms(2)
proof (induction "length p" arbitrary: p t w rule: less_induct)
  case less
  show ?case
  proof (cases "n \<le> length p")
    case False
    then have "send_full (bulkIndexWithRetry E os C rnd e) n p job t w = (p, job, t, w)"
      by (simp add: send_full.simps [of _ n p])
    then show ?thesis by (intro exI [of _ "[]"] exI [of _ p] exI [of _ w]) simp
  next
    case True
    have ok: "\<forall>x \<in> set (take n p). \<exists>d. marshalEntry E x = Inr d" "\<forall>x \<in> set (drop n p). \<exists>d. marshalEntry E x = Inr d"
      using less.prems by (auto dest: in_set_takeD in_set_dropD)
    have "take n p \<noteq> []" using True assms(1) by auto
    then obtain w1 where b: "bulkIndexWithRetry E os C rnd e (take n p) w = ((int (length (take n p)), None), w1)"
      "obj (ext w1) = obj (ext w)" "docs (ext w1) = docs (ext w) @ map (doc_of E (ex_os e)) (take n p)"
      using bulk_exact ok(1) by blast
    have "length (drop n p) < length p" using True assms(1) by simp
    from less.hyps [OF this ok(2), of "t + int n" w1] obtain s p' w' where
      r: "send_full (bulkIndexWithRetry E os C rnd e) n (drop n p) job (t + int n) w1 = (p', job, t + int n + int (length s), w')"
      "drop n p = s @ p'" "obj (ext w') = obj (ext w1)" "docs (ext w') = docs (ext w1) @ map (doc_of E (ex_os e)) s"
      by blast
    have "send_full (bulkIndexWithRetry E os C rnd e) n p job t w = (p', job, t + int (length (take n p @ s)), w')"
      using True assms(1) b(1) r(1) by (simp add: send_full.simps [of _ n p] min_absorb2 add.assoc)
    moreover have "p = (take n p @ s) @ p'" using r(2) by (metis append_assoc append_take_drop_id)
    ultimately show ?thesis using b r by (intro exI [of _ "take n p @ s"] exI [of _ p'] exI [of _ w']) simp
  qed
qed

lemma fetchAndFilterJob_total:
  assumes "objects obj (ex_s3 e) w key = Some data" "chunk_entries E key data = Some all"
  shows "\<exists>w'. fetchAndFilterJob E api e key job w = ((filter (\<lambda>x. matchesJob E x job) all, None), w')"
proof -
  obtain w' where g: "getObject api (ex_s3 e) key w = (Inr data, w')"
    using getObject_total [OF assms(1)] by (metis prod.collapse)
  obtain d rerr ts where "decompress E data key = Inr (d, rerr)" "scanner d rerr = (ts, None)" "all = decode_lines E ts"
    using assms(2) by (auto simp: chunk_entries_def split: sum.splits prod.splits option.splits)
  then show ?thesis using g by (simp add: fetchAndFilterJob_def GetObjectRaw_def filter_lines_eq)
qed

lemma export_chunks_exact:
  assumes "\<forall>key \<in> set keys. \<exists>data. objects obj (ex_s3 e) w key = Some data \<and> chunk_entries E key data = Some (all key)"
    and "\<forall>x \<in> set p \<union> (\<Union>key \<in> set keys. {x \<in> set (all key). matchesJob E x job}). \<exists>d. marshalEntry E x = Inr d"
    and "0 < ex_batchSize e"
  shows "\<exists>s p' w'. export_chunks E api os C rnd e keys p job t w
        = (None, p', job\<lparr>job_ChunksProcessed := job_ChunksProcessed job + int (length keys)\<rparr>, t + int (length s), w')
    \<and> p @ concat (map (\<lambda>key. filter (\<lambda>x. matchesJob E x job) (all key)) keys) = s @ p'
    \<and> docs (ext w') = docs (ext w) @ map (doc_of E (ex_os e)) s"
  using assms(1,2)
proof (induction keys arbitrary: p job t w)
  case Nil
  then show ?case by (intro exI [of _ "[]"] exI [of _ p] exI [of _ w]) simp
next
  case (Cons key keys)
  let ?es = "filter (\<lambda>x. matchesJob E x job) (all key)"
  let ?job = "job\<lparr>job_ChunksProcessed := job_ChunksProcessed job + 1\<rparr>"
  obtain data where d: "objects obj (ex_s3 e) w key = Some data" "chunk_entries E key data = Some (all key)"
    using Cons.prems(1) by auto
  obtain w1 where f: "fetchAndFilterJob E api e key job w = ((?es, None), w1)"
    using fetchAndFilterJob_total [OF d] by blast
  note fr = fetchAndFilterJob_frame [OF f]
  have "\<forall>x \<in> set (p @ ?es). \<exists>d. marshalEntry E x = Inr d" using Cons.prems(2) by auto
  then obtain s p1 w2 where b: "send_full (bulkIndexWithRetry E os C rnd e) (nat (ex_batchSize e)) (p @ ?es) job t w1
      = (p1, job, t + int (length s), w2)" "p @ ?es = s @ p1" "obj (ext w2) = obj (ext w1)"
      "docs (ext w2) = docs (ext w1) @ map (doc_of E (ex_os e)) s"
    using send_full_exact [of "nat (ex_batchSize e)" "p @ ?es"] assms(3) by fastforce
  have m: "matchesJob E x ?job = matchesJob E x job" for x by (rule matchesJob_same) (simp add: same_criteria_def)
  have same: "objects obj (ex_s3 e) w2 = objects obj (ex_s3 e) w" using b(3) fr by (simp add: objects_def)
  have sub: "set p1 \<subseteq> set (p @ ?es)" using b(2) by simp
  have "\<exists>u p' w'. export_chunks E api os C rnd e keys p1 ?job (t + int (length s)) w2
        = (None, p', ?job\<lparr>job_ChunksProcessed := job_ChunksProcessed ?job + int (length keys)\<rparr>, t + int (length s) + int (length u), w')
    \<and> p1 @ concat (map (\<lambda>key. filter (\<lambda>x. matchesJob E x ?job) (all key)) keys) = u @ p'
    \<and> docs (ext w') = docs (ext w2) @ map (doc_of E (ex_os e)) u"
    by (rule Cons.IH) (use Cons.prems sub in \<open>auto simp: same m\<close>)
  then obtain u p' w' where r: "export_chunks E api os C rnd e keys p1 ?job (t + int (length s)) w2
        = (None, p', ?job\<lparr>job_ChunksProcessed := job_ChunksProcessed ?job + int (length keys)\<rparr>, t + int (length s) + int (length u), w')"
    "p1 @ concat (map (\<lambda>key. filter (\<lambda>x. matchesJob E x job) (all key)) keys) = u @ p'"
    "docs (ext w') = docs (ext w2) @ map (doc_of E (ex_os e)) u"
    unfolding m by blast
  have "export_chunks E api os C rnd e (key # keys) p job t w
      = (None, p', job\<lparr>job_ChunksProcessed := job_ChunksProcessed job + int (length (key # keys))\<rparr>, t + int (length (s @ u)), w')"
    using f b(1) r(1) by (simp add: ctx_live add.assoc)
  moreover have "p @ concat (map (\<lambda>key. filter (\<lambda>x. matchesJob E x job) (all key)) (key # keys)) = (s @ u) @ p'"
    using b(2) r(2) by simp (metis append.assoc)
  moreover have "docs (ext w') = docs (ext w) @ map (doc_of E (ex_os e)) (s @ u)" using b(4) r(3) fr by simp
  ultimately show ?case by blast
qed

end

section \<open>The run as a whole\<close>

lemma NewExporter_sel [simp]:
  "ex_s3 (NewExporter c osc n) = c" "ex_os (NewExporter c osc n) = osc" "0 < ex_batchSize (NewExporter c osc n)"
  by (simp_all add: NewExporter_def)

lemma RunExport_cases:
  assumes "RunExport E api os C rnd now e job w = (er, job', w')"
  obtains (list) m where "list_prefixes api (ex_s3 e) (timePrefixes (job_Service job) (job_StartTime job) (job_EndTime job)) [] w
        = (Inl m, w')" "er = Some m" "job_Status job' = ExportStatusFailed" "job_Error job' = m"
  | (abort) m keys w1 p t where "list_prefixes api (ex_s3 e) (timePrefixes (job_Service job) (job_StartTime job) (job_EndTime job)) [] w
        = (Inr keys, w1)" "er = Some m"
      "export_chunks E api os C rnd e keys [] (job\<lparr>job_Status := ExportStatusRunning, job_ChunksTotal := int (length keys)\<rparr>) 0 w1
        = (er, p, job', t, w')"
  | (finish) keys w1 p j t w2 w3 t2 j2 where
      "list_prefixes api (ex_s3 e) (timePrefixes (job_Service job) (job_StartTime job) (job_EndTime job)) [] w = (Inr keys, w1)"
      "export_chunks E api os C rnd e keys [] (job\<lparr>job_Status := ExportStatusRunning, job_ChunksTotal := int (length keys)\<rparr>) 0 w1
        = (None, p, j, t, w2)" "er = None"
      "(if 0 < length p then (case bulkIndexWithRetry E os C rnd e p w2 of ((k, er), w3) \<Rightarrow> (note_error er j, t + k, w3))
        else (j, t, w2)) = (j2, t2, w3)"
      "ext w' = ext w3" "job_Status job' = ExportStatusCompleted" "job_LogsExported job' = t2"
      "job_CompletedAt job' = now" "job_ChunksProcessed job' = job_ChunksProcessed j2" "job_ChunksTotal job' = job_ChunksTotal j2"
      "job_ErrorCount job' = job_ErrorCount j2"
proof (cases "list_prefixes api (ex_s3 e) (timePrefixes (job_Service job) (job_StartTime job) (job_EndTime job)) [] w")
  case (Pair r w1)
  show ?thesis
  proof (cases r)
    case (Inl m)
    then show ?thesis using assms Pair list [of m] by (auto simp: RunExport_def Let_def)
  next
    case (Inr keys)
    obtain xer p j t w2 where x: "export_chunks E api os C rnd e keys []
        (job\<lparr>job_Status := ExportStatusRunning, job_ChunksTotal := int (length keys)\<rparr>) 0 w1 = (xer, p, j, t, w2)"
      by (metis prod_cases5)
    show ?thesis
    proof (cases xer)
      case (Some m)
      then have "er = Some m" "job' = j" "w' = w2" using assms Pair Inr x by (auto simp: RunExport_def Let_def)
      then show ?thesis using abort [of keys w1 m p t] Pair Inr x Some by simp
    next
      case None
      obtain j2 t2 w3 where fl: "(if 0 < length p
          then (case bulkIndexWithRetry E os C rnd e p w2 of ((k, er), w3) \<Rightarrow> (note_error er j, t + k, w3))
          else (j, t, w2)) = (j2, t2, w3)" by (metis prod_cases3)
      have run: "er = None" "job' = (let job3 = j2\<lparr>job_LogsExported := t2, job_CompletedAt := now\<rparr> in
          if job_ErrorCount job3 > 0
          then job3\<lparr>job_Status := ExportStatusCompleted,
                    job_Error := show_int (job_ErrorCount job3) @ '' errors during export''\<rparr>
          else job3\<lparr>job_Status := ExportStatusCompleted\<rparr>)" "ext w' = ext w3"
        using assms Pair Inr x None fl by (auto simp: RunExport_def Let_def)
      show ?thesis
        by (rule finish [OF _ _ _ fl run(3), of keys w1]) (use Pair Inr x None run in \<open>simp_all add: Let_def\<close>)
    qed
  qed
qed

context export_env
begin

text \<open>The last batch, if there is one.\<close>

lemma last_batch_sent:
  assumes "(if 0 < length p then (case bulkIndexWithRetry E os C rnd e p w of ((k, er), w3) \<Rightarrow> (note_error er j, t + k, w3))
      else (j, t, w)) = (j2, t2, w3)" "doc_of E (ex_os e) ` set p \<subseteq> S"
  shows "sent obj docs S (t2 - t) w w3 \<and> t \<le> t2 \<and> job_ChunksProcessed j2 = job_ChunksProcessed j
    \<and> job_ChunksTotal j2 = job_ChunksTotal j"
proof (cases "0 < length p")
  case True
  obtain k er w1 where b: "bulkIndexWithRetry E os C rnd e p w = ((k, er), w1)" by (metis prod.collapse)
  then have "j2 = note_error er j" "t2 = t + k" "w3 = w1" using assms(1) True by simp_all
  moreover have "sent obj docs S k w w1" using bulkIndexWithRetry_sent [OF b] sent_mono [OF _ assms(2) order_refl] by blast
  ultimately show ?thesis using bulkIndexWithRetry_sent [OF b] by simp
next
  case False
  then show ?thesis using assms(1) by (simp add: sent_frame)
qed

lemma RunExport_sent:
  assumes run: "RunExport E api os C rnd now e job w = (er, job', w')" and "0 < ex_batchSize e" "job_ChunksProcessed job = 0"
    and S: "\<And>x key data all. matchesJob E x job \<Longrightarrow>
        listed key (map ((@) (s3_prefix (ex_s3 e))) (timePrefixes (job_Service job) (job_StartTime job) (job_EndTime job))) \<Longrightarrow>
        objects obj (ex_s3 e) w key = Some data \<Longrightarrow> chunk_entries E key data = Some all \<Longrightarrow> x \<in> set all \<Longrightarrow>
        doc_of E (ex_os e) x \<in> S"
  shows "\<exists>k. sent obj docs S k w w' \<and> 0 \<le> k
    \<and> (case er of
         None \<Rightarrow> job_Status job' = ExportStatusCompleted \<and> job_ChunksProcessed job' = job_ChunksTotal job' \<and> job_LogsExported job' = k
       | Some m \<Rightarrow> job_Status job' = ExportStatusFailed \<and> job_Error job' = m)"
proof -
  let ?ps = "timePrefixes (job_Service job) (job_StartTime job) (job_EndTime job)"
  let ?job = "\<lambda>keys. job\<lparr>job_Status := ExportStatusRunning, job_ChunksTotal := int (length keys)\<rparr>"
  have docs_in: "doc_of E (ex_os e) ` (set [] \<union> job_entries E (objects obj (ex_s3 e) w1) keys (?job keys)) \<subseteq> S
      \<and> sent obj docs S 0 w w1"
    if l: "list_prefixes api (ex_s3 e) ?ps [] w = (Inr keys, w1)" for keys w1
  proof -
    have fr: "obj (ext w1) = obj (ext w)" "docs (ext w1) = docs (ext w)" using list_prefixes_frame [OF l] by simp_all
    have "same_criteria job (?job keys)" by (simp add: same_criteria_def)
    from job_entries_mono [OF this subset_refl]
    have "job_entries E (objects obj (ex_s3 e) w1) keys (?job keys) \<subseteq> job_entries E (objects obj (ex_s3 e) w) keys job"
      using fr by (simp add: objects_def)
    moreover have "doc_of E (ex_os e) ` job_entries E (objects obj (ex_s3 e) w) keys job \<subseteq> S"
    proof (rule image_subsetI)
      fix x assume "x \<in> job_entries E (objects obj (ex_s3 e) w) keys job"
      then obtain key data all where x: "matchesJob E x job" "key \<in> set keys" "objects obj (ex_s3 e) w key = Some data"
        "chunk_entries E key data = Some all" "x \<in> set all" by (auto simp: job_entries_def)
      then have "listed key (map ((@) (s3_prefix (ex_s3 e))) ?ps)" using list_prefixes_ok [OF l] by simp
      then show "doc_of E (ex_os e) x \<in> S" by (rule S [OF x(1) _ x(3-5)])
    qed
    ultimately have "doc_of E (ex_os e) ` job_entries E (objects obj (ex_s3 e) w1) keys (?job keys) \<subseteq> S"
      by (meson image_mono order_trans)
    then show ?thesis using sent_frame [OF fr] by simp
  qed
  from run show ?thesis
  proof (cases rule: RunExport_cases)
    case (list m)
    then show ?thesis using list_prefixes_frame [OF list(1)] sent_frame by (intro exI [of _ 0]) auto
  next
    case (abort m keys w1 p t)
    note d = docs_in [OF abort(1)]
    note x = export_chunks_sent [OF abort(3) assms(2) conjunct1 [OF d]]
    show ?thesis using x sent_trans [OF conjunct2 [OF d], of t] abort(2) by (intro exI [of _ t]) auto
  next
    case (finish keys w1 p j t w2 w3 t2 j2)
    note d = docs_in [OF finish(1)]
    note x = export_chunks_sent [OF finish(2) assms(2) conjunct1 [OF d]]
    note l = last_batch_sent [OF finish(4), of S]
    have "sent obj docs S (0 + (t - 0) + (t2 - t)) w w3" using sent_trans [OF sent_trans [OF conjunct2 [OF d]]] x l by blast
    then have "sent obj docs S t2 w w'" using finish(5) by (simp add: sent_def)
    then show ?thesis using finish x l assms(3) by (intro exI [of _ t2]) simp
  qed
qed

end

context reliable_export
begin

lemma list_prefixes_total: "\<exists>keys w'. list_prefixes api c ps acc w = (Inr keys, w')"
proof (induction ps arbitrary: acc w)
  case (Cons p ps)
  obtain ks w1 where "ListObjects api c p w = (Inr ks, w1)" using ListObjects_total by blast
  then show ?case using Cons.IH by simp
qed simp

lemma RunExport_exact:
  assumes batch: "0 < ex_batchSize e"
    and ready: "\<And>key. key \<in> dom (objects obj (ex_s3 e) w) \<Longrightarrow>
        listed key (map ((@) (s3_prefix (ex_s3 e))) (timePrefixes (job_Service job) (job_StartTime job) (job_EndTime job))) \<Longrightarrow>
        \<exists>data. objects obj (ex_s3 e) w key = Some data \<and> chunk_entries E key data = Some (all key)
          \<and> (\<forall>x \<in> set (all key). matchesJob E x job \<longrightarrow> (\<exists>d. marshalEntry E x = Inr d))"
  shows "\<exists>job' w' keys. RunExport E api os C rnd now e job w = (None, job', w') \<and> distinct keys
    \<and> set keys = {key \<in> dom (objects obj (ex_s3 e) w).
        listed key (map ((@) (s3_prefix (ex_s3 e))) (timePrefixes (job_Service job) (job_StartTime job) (job_EndTime job)))}
    \<and> docs (ext w') = docs (ext w)
        @ map (doc_of E (ex_os e)) (concat (map (\<lambda>key. filter (\<lambda>x. matchesJob E x job) (all key)) keys))
    \<and> job_Status job' = ExportStatusCompleted \<and> job_ErrorCount job' = job_ErrorCount job
    \<and> job_LogsExported job' = int (length (concat (map (\<lambda>key. filter (\<lambda>x. matchesJob E x job) (all key)) keys)))"
proof -
  let ?ps = "timePrefixes (job_Service job) (job_StartTime job) (job_EndTime job)"
  obtain keys w1 where l: "list_prefixes api (ex_s3 e) ?ps [] w = (Inr keys, w1)" using list_prefixes_total by blast
  have keys: "set keys = {key \<in> dom (objects obj (ex_s3 e) w). listed key (map ((@) (s3_prefix (ex_s3 e))) ?ps)}"
    using list_prefixes_ok [OF l] by simp
  have "distinct ?ps" unfolding timePrefixes_def by (rule export_dirs.distinct_day_loop)
  then have dist: "distinct keys" using list_prefixes_distinct [OF l] timePrefixes_disjoint by auto
  have fr: "obj (ext w1) = obj (ext w)" "docs (ext w1) = docs (ext w)" using list_prefixes_frame [OF l] by simp_all
  have same: "objects obj (ex_s3 e) w1 = objects obj (ex_s3 e) w" using fr by (simp add: objects_def)
  let ?job = "job\<lparr>job_Status := ExportStatusRunning, job_ChunksTotal := int (length keys)\<rparr>"
  let ?es = "concat (map (\<lambda>key. filter (\<lambda>x. matchesJob E x job) (all key)) keys)"
  have m: "matchesJob E x ?job = matchesJob E x job" for x by (rule matchesJob_same) (simp add: same_criteria_def)
  have rd: "\<exists>data. objects obj (ex_s3 e) w key = Some data \<and> chunk_entries E key data = Some (all key)"
    "\<forall>x \<in> set (all key). matchesJob E x job \<longrightarrow> (\<exists>d. marshalEntry E x = Inr d)" if "key \<in> set keys" for key
    using ready [of key] that keys by auto
  have "\<exists>s p' w'. export_chunks E api os C rnd e keys [] ?job 0 w1
        = (None, p', ?job\<lparr>job_ChunksProcessed := job_ChunksProcessed ?job + int (length keys)\<rparr>, 0 + int (length s), w')
    \<and> [] @ concat (map (\<lambda>key. filter (\<lambda>x. matchesJob E x ?job) (all key)) keys) = s @ p'
    \<and> docs (ext w') = docs (ext w1) @ map (doc_of E (ex_os e)) s"
    by (rule export_chunks_exact [OF _ _ batch]) (use rd in \<open>auto simp: same m\<close>)
  then obtain s p w2 where x: "export_chunks E api os C rnd e keys [] ?job 0 w1
        = (None, p, ?job\<lparr>job_ChunksProcessed := job_ChunksProcessed ?job + int (length keys)\<rparr>, int (length s), w2)"
    "?es = s @ p" "docs (ext w2) = docs (ext w1) @ map (doc_of E (ex_os e)) s"
    unfolding m by auto
  have marsh: "\<forall>x \<in> set p. \<exists>d. marshalEntry E x = Inr d"
  proof
    fix x assume "x \<in> set p"
    then have "x \<in> set ?es" using x(2) by simp
    then show "\<exists>d. marshalEntry E x = Inr d" using rd(2) by auto
  qed
  obtain er job' w' where run: "RunExport E api os C rnd now e job w = (er, job', w')" by (metis prod_cases3)
  from run have "er = None \<and> docs (ext w') = docs (ext w) @ map (doc_of E (ex_os e)) ?es
    \<and> job_Status job' = ExportStatusCompleted \<and> job_ErrorCount job' = job_ErrorCount job
    \<and> job_LogsExported job' = int (length ?es)"
  proof (cases rule: RunExport_cases)
    case (finish keys1 w1a pa ja ta w2a w3 t2 j2)
    have eq: "keys1 = keys" "w1a = w1" using finish(1) l by simp_all
    have eq2: "pa = p" "ta = int (length s)" "w2a = w2" "job_ErrorCount ja = job_ErrorCount job"
      using finish(2) [unfolded eq] x(1) by auto
    have "docs (ext w3) = docs (ext w2) @ map (doc_of E (ex_os e)) p \<and> t2 = int (length s) + int (length p)
        \<and> job_ErrorCount j2 = job_ErrorCount job"
    proof (cases "p = []")
      case False
      then show ?thesis using finish(4) bulk_exact [OF False marsh, of rnd e w2] eq2 by auto
    qed (use finish(4) eq2 in auto)
    then show ?thesis using finish(3,5-7,11) x(2,3) fr by simp
  qed (use l x(1) in auto)
  then show ?thesis using run dist keys by blast
qed

end

section \<open>Properties\<close>

text \<open>
  C9. Whatever fails, an export changes no object of the bucket and indexes only documents of
  entries that match the job and belong to a stored chunk under one of the job's day prefixes.
  A run that returns no error is marked completed, has processed every chunk, and
  \<open>LogsExported\<close> is at most the number of documents it indexed (more may be indexed: a retry
  after a lost response sends a batch again). A run that returns an error is marked failed with
  that error.
\<close>

theorem export_sound:
  assumes "export_env api obj os docs C E"
    and "RunExport E api os C rnd now (NewExporter c osc n) job w = (er, job', w')" "job_ChunksProcessed job = 0"
  shows "obj (ext w') = obj (ext w) \<and> (\<exists>D. docs (ext w') = docs (ext w) @ D
    \<and> (\<forall>d \<in> set D. \<exists>x key data all. d = (IndexNameForDate osc (Timestamp x), jline E x) \<and> matchesJob E x job
        \<and> listed key (map ((@) (s3_prefix c)) (timePrefixes (job_Service job) (job_StartTime job) (job_EndTime job)))
        \<and> objects obj c w key = Some data \<and> chunk_entries E key data = Some all \<and> x \<in> set all)
    \<and> (case er of
         None \<Rightarrow> job_Status job' = ExportStatusCompleted \<and> job_ChunksProcessed job' = job_ChunksTotal job'
           \<and> 0 \<le> job_LogsExported job' \<and> job_LogsExported job' \<le> int (length D)
       | Some m \<Rightarrow> job_Status job' = ExportStatusFailed \<and> job_Error job' = m))"
proof -
  let ?S = "{d. \<exists>x key data all. d = (IndexNameForDate osc (Timestamp x), jline E x) \<and> matchesJob E x job
        \<and> listed key (map ((@) (s3_prefix c)) (timePrefixes (job_Service job) (job_StartTime job) (job_EndTime job)))
        \<and> objects obj c w key = Some data \<and> chunk_entries E key data = Some all \<and> x \<in> set all}"
  have "\<exists>k. sent obj docs ?S k w w' \<and> 0 \<le> k
    \<and> (case er of
         None \<Rightarrow> job_Status job' = ExportStatusCompleted \<and> job_ChunksProcessed job' = job_ChunksTotal job' \<and> job_LogsExported job' = k
       | Some m \<Rightarrow> job_Status job' = ExportStatusFailed \<and> job_Error job' = m)"
    by (rule export_env.RunExport_sent [OF assms(1,2) _ assms(3)]) (simp, auto simp: doc_of_def)
  then obtain k D where D: "obj (ext w') = obj (ext w)" "docs (ext w') = docs (ext w) @ D" "set D \<subseteq> ?S" "k \<le> int (length D)"
    "0 \<le> k" "case er of
         None \<Rightarrow> job_Status job' = ExportStatusCompleted \<and> job_ChunksProcessed job' = job_ChunksTotal job' \<and> job_LogsExported job' = k
       | Some m \<Rightarrow> job_Status job' = ExportStatusFailed \<and> job_Error job' = m"
    by (auto simp: sent_def)
  have d: "\<forall>d \<in> set D. d \<in> ?S" using D(3) by blast
  show ?thesis
    using D(1,2,4-6) d by (intro conjI exI [of _ D]) (simp_all split: option.splits)
qed

text \<open>
  C8. If neither service fails, the job is not cancelled, and the chunks under the job's day
  prefixes can be read and their entries marshalled, then the export completes without errors
  and indexes each matching entry exactly once, in batches, chunk by chunk; \<open>LogsExported\<close> is
  their number.
\<close>

theorem export_exact:
  assumes "reliable_export api obj os docs C E"
    and "\<And>key. key \<in> dom (objects obj c w) \<Longrightarrow>
        listed key (map ((@) (s3_prefix c)) (timePrefixes (job_Service job) (job_StartTime job) (job_EndTime job))) \<Longrightarrow>
        \<exists>data. objects obj c w key = Some data \<and> chunk_entries E key data = Some (all key)
          \<and> (\<forall>x \<in> set (all key). matchesJob E x job \<longrightarrow> (\<exists>d. marshalEntry E x = Inr d))"
  shows "\<exists>job' w' keys. RunExport E api os C rnd now (NewExporter c osc n) job w = (None, job', w') \<and> distinct keys
    \<and> set keys = {key \<in> dom (objects obj c w).
        listed key (map ((@) (s3_prefix c)) (timePrefixes (job_Service job) (job_StartTime job) (job_EndTime job)))}
    \<and> docs (ext w') = docs (ext w)
        @ map (\<lambda>x. (IndexNameForDate osc (Timestamp x), jline E x))
            (concat (map (\<lambda>key. filter (\<lambda>x. matchesJob E x job) (all key)) keys))
    \<and> job_Status job' = ExportStatusCompleted \<and> job_ErrorCount job' = job_ErrorCount job
    \<and> job_LogsExported job' = int (length (concat (map (\<lambda>key. filter (\<lambda>x. matchesJob E x job) (all key)) keys)))"
  using reliable_export.RunExport_exact [OF assms(1), of "NewExporter c osc n" w job all rnd now] assms(2)
  by (simp add: doc_of_def [abs_def])

section \<open>An in-memory index\<close>

type_synonym memdocs = "mem \<times> (string \<times> string) list"

definition memdocs_api :: "memdocs s3api" where
  "memdocs_api =
     \<lparr>api_put = (\<lambda>b k d (s, ds). (None, AList.update (b, k) d s, ds)),
      api_get = (\<lambda>b k (s, ds). (case mem_obj s b k of None \<Rightarrow> Inl ''NoSuchKey'' | Some d \<Rightarrow> Inr (Inr d), s, ds)),
      api_list = (\<lambda>b p (s, ds). ([Inr (mem_keys s b p)], s, ds))\<rparr>"

fun pair_up :: "string list \<Rightarrow> (string \<times> string) list" where
  "pair_up (l # m # r) = (dec_str l, m) # pair_up r"
| "pair_up _ = []"

definition memdocs_os :: "memdocs osapi" where
  "memdocs_os =
     \<lparr>os_bulk = (\<lambda>body (s, ds). (Inr (False, ''200 OK'', map (\<lambda>_. CHR ''.'') (pair_up (cut_lines body))),
                                 s, ds @ pair_up (cut_lines body))),
      os_info = (\<lambda>s. (Inr (False, ''200 OK''), s)),
      os_meta = enc_str,
      os_parse = (\<lambda>body. Inr (False, map (\<lambda>_. 201) body))\<rparr>"

lemma pair_up_body: "single_lines ps \<Longrightarrow> pair_up (cut_lines (bulk_body memdocs_os ps)) = ps"
proof (induction ps)
  case (Cons p ps)
  obtain i d where p: "p = (i, d)" by fastforce
  have "newline \<notin> set (enc_str i)" using enc_str_chars [of newline i] by (auto simp: is_digit_def)
  moreover have "newline \<notin> set d" "single_lines ps" using Cons.prems p by (auto simp: single_lines_def)
  ultimately show ?case using Cons.IH p by (simp add: bulk_body_def memdocs_os_def cut_lines_line)
qed (simp add: bulk_body_def)

lemma accepted_same: "accepted ps (map (\<lambda>_. 201) ps) = ps"
  by (induction ps) (simp_all add: accepted_def)

interpretation memdocs: reliable_export memdocs_api "\<lambda>s. mem_obj (fst s)" memdocs_os snd background ref_env
proof unfold_locales
  fix b p s ps and s' :: memdocs
  assume "api_list memdocs_api b p s = (ps, s')"
  then have "ps = [Inr (mem_keys (fst s) b p)]" by (auto simp: memdocs_api_def split: prod.splits)
  then show "set (page_keys ps) = {k \<in> dom (mem_obj (fst s) b). HasPrefix k p} \<and> distinct (page_keys ps)"
    using mem_keys_set [of "fst s" b p] mem_keys_distinct [of "fst s" b p] by auto
next
  fix ps :: "(string \<times> string) list" and s s' :: memdocs and status body errors items
  assume "single_lines ps" "os_bulk memdocs_os (bulk_body memdocs_os ps) s = (Inr (False, status, body), s')"
    "os_parse memdocs_os body = Inr (errors, items)"
  then show "length items = length ps \<and> snd s' = snd s @ accepted ps items"
    using pair_up_body [of ps] accepted_same [of ps] by (auto simp: memdocs_os_def comp_def split: prod.splits)
next
  fix ps :: "(string \<times> string) list" and s s' :: memdocs and r
  assume "single_lines ps" "os_bulk memdocs_os (bulk_body memdocs_os ps) s = (r, s')"
  then show "\<exists>qs. set qs \<subseteq> set ps \<and> snd s' = snd s @ qs"
    using pair_up_body [of ps] by (auto simp: memdocs_os_def split: prod.splits)
next
  fix x line assume "marshalEntry ref_env x = Inr line"
  then show "newline \<notin> set line" by (auto simp: ref_env_def ref_entry_def no_breaks)
qed (auto simp: memdocs_api_def memdocs_os_def background_def mem_update mem_update_other split: option.splits prod.splits)

section \<open>Witnesses\<close>

definition wit_job :: ExportJob where
  "wit_job =
     \<lparr>job_ID = ''1'', job_Status = ExportStatusPending, job_StartTime = 0, job_StartTZ = 0, job_EndTime = 7, job_EndTZ = 0, job_Service = ''a'',
      job_LabelFilters = [(''k'', ''v'')], job_ChunksTotal = 0, job_ChunksProcessed = 0, job_LogsExported = 0,
      job_ErrorCount = 0, job_Error = '''', job_CreatedAt = 0, job_CompletedAt = 0\<rparr>"

definition wit_osclient :: OSClient where
  "wit_osclient = \<lparr>os_indexPrefix = ''sigyn-''\<rparr>"

definition wit_exports :: "bytes \<Rightarrow> memdocs world" where
  "wit_exports z = \<lparr>ext = ([((''logs'', ''raw_logs/a/1970/01/01/0-u.gz''), z)], []), mx = metrics0\<rparr>"

lemma wit_export_ready:
  assumes z: "chunk_entries ref_env ''raw_logs/a/1970/01/01/0-u.gz'' z = Some [wit_log_entry]"
    and k: "key \<in> dom (objects (\<lambda>s. mem_obj (fst s)) wit_client (wit_exports z))"
  shows "\<exists>data. objects (\<lambda>s. mem_obj (fst s)) wit_client (wit_exports z) key = Some data
      \<and> chunk_entries ref_env key data = Some [wit_log_entry]
      \<and> (\<forall>x \<in> set [wit_log_entry]. matchesJob ref_env x wit_job \<longrightarrow> (\<exists>d. marshalEntry ref_env x = Inr d))"
proof -
  have "key = ''raw_logs/a/1970/01/01/0-u.gz''"
    using k by (auto simp: objects_def mem_obj_def wit_exports_def wit_client_def split: if_splits)
  then show ?thesis using z by (simp add: objects_def mem_obj_def wit_exports_def wit_client_def ref_env_def)
qed

lemma wit_export_chunk: "\<exists>z. chunk_entries ref_env ''raw_logs/a/1970/01/01/0-u.gz'' z = Some [wit_log_entry]"
proof (rule wit_chunk_readable)
  show "HasSuffix ''raw_logs/a/1970/01/01/0-u.gz'' (FileExtension ''gzip'')" by code_simp
qed

lemma wit_prefixes: "timePrefixes ''a'' 0 7 = [''a/1970/01/01/'']"
proof -
  have d: "format_date ''/'' 0 = ''1970/01/01''" by code_simp
  have n: "day_number 0 = 719162" "day_number 7 = 719162"
    by (simp_all add: day_number_def zero_time_def day_ns_def second_def)
  have "format_date ''/'' (zero_time + 719162 * day_ns) = format_date ''/'' 0"
    by (rule format_date_day) (simp add: day_number_def zero_time_def day_ns_def second_def)
  then show ?thesis by (simp add: timePrefixes_def day_loop_range n d)
qed

lemma distinct_singleton: "distinct xs \<Longrightarrow> set xs = {x} \<Longrightarrow> xs = [x]"
  by (cases xs; cases "tl xs") auto

lemma wit_matches: "matchesJob ref_env wit_log_entry wit_job"
  by (simp add: matchesJob_def wit_log_entry_def wit_job_def ref_compressors.fold_refl all_match_def Before_def After_def)

theorem export_exact_witness:
  "\<exists>w job' w'. RunExport ref_env memdocs_api memdocs_os background (\<lambda>_. 0) 9 (NewExporter wit_client wit_osclient 100) wit_job w
       = (None, job', w')
     \<and> snd (ext w) = [] \<and> snd (ext w') = [(''sigyn-1970.01.01'', jline ref_env wit_log_entry)] \<and> job_LogsExported job' = 1"
proof -
  obtain z where z: "chunk_entries ref_env ''raw_logs/a/1970/01/01/0-u.gz'' z = Some [wit_log_entry]"
    using wit_export_chunk by blast
  have r: "reliable_export memdocs_api (\<lambda>s. mem_obj (fst s)) memdocs_os snd background ref_env"
    by (rule memdocs.reliable_export_axioms)
  have d: "dom (objects (\<lambda>s. mem_obj (fst s)) wit_client (wit_exports z)) = {''raw_logs/a/1970/01/01/0-u.gz''}"
    by (auto simp: objects_def mem_obj_def wit_exports_def wit_client_def split: if_splits)
  have l: "listed ''raw_logs/a/1970/01/01/0-u.gz'' (map ((@) (s3_prefix wit_client))
      (timePrefixes (job_Service wit_job) (job_StartTime wit_job) (job_EndTime wit_job)))"
    by (simp add: wit_job_def wit_prefixes listed_def wit_client_def HasPrefix_def)
  have ks: "{key \<in> dom (objects (\<lambda>s. mem_obj (fst s)) wit_client (wit_exports z)).
      listed key (map ((@) (s3_prefix wit_client))
        (timePrefixes (job_Service wit_job) (job_StartTime wit_job) (job_EndTime wit_job)))} = {''raw_logs/a/1970/01/01/0-u.gz''}"
    using l unfolding d by (simp only: Collect_conv_if singleton_iff) (simp cong: conj_cong)
  let ?es = "\<lambda>keys :: string list. concat (map (\<lambda>key. filter (\<lambda>x. matchesJob ref_env x wit_job) [wit_log_entry]) keys)"
  have "\<exists>job' w' keys. RunExport ref_env memdocs_api memdocs_os background (\<lambda>_. 0) 9 (NewExporter wit_client wit_osclient 100)
      wit_job (wit_exports z) = (None, job', w') \<and> distinct keys
    \<and> set keys = {key \<in> dom (objects (\<lambda>s. mem_obj (fst s)) wit_client (wit_exports z)).
      listed key (map ((@) (s3_prefix wit_client))
        (timePrefixes (job_Service wit_job) (job_StartTime wit_job) (job_EndTime wit_job)))}
    \<and> snd (ext w') = snd (ext (wit_exports z)) @ map (\<lambda>x. (IndexNameForDate wit_osclient (Timestamp x), jline ref_env x)) (?es keys)
    \<and> job_Status job' = ExportStatusCompleted \<and> job_ErrorCount job' = job_ErrorCount wit_job
    \<and> job_LogsExported job' = int (length (?es keys))"
    by (rule export_exact [OF r]) (rule wit_export_ready [OF z])
  then obtain job' w' keys where run: "RunExport ref_env memdocs_api memdocs_os background (\<lambda>_. 0) 9 (NewExporter wit_client wit_osclient 100)
      wit_job (wit_exports z) = (None, job', w')" "distinct keys" "set keys = {''raw_logs/a/1970/01/01/0-u.gz''}"
    "snd (ext w') = snd (ext (wit_exports z)) @ map (\<lambda>x. (IndexNameForDate wit_osclient (Timestamp x), jline ref_env x)) (?es keys)"
    "job_LogsExported job' = int (length (?es keys))"
    unfolding ks by (elim exE conjE)
  have keys: "keys = [''raw_logs/a/1970/01/01/0-u.gz'']" by (rule distinct_singleton [OF run(2,3)])
  have i: "IndexNameForDate wit_osclient (Timestamp wit_log_entry) = ''sigyn-1970.01.01''" by code_simp
  show ?thesis
    using run(1,4,5) by (intro exI [of _ "wit_exports z"] exI [of _ job'] exI [of _ w'])
      (simp add: keys wit_matches i wit_exports_def)
qed

theorem export_sound_witness:
  "\<exists>w job' w' D. RunExport ref_env memdocs_api memdocs_os background (\<lambda>_. 0) 9 (NewExporter wit_client wit_osclient 100) wit_job w
       = (None, job', w')
     \<and> snd (ext w') = snd (ext w) @ D \<and> job_LogsExported job' \<le> int (length D) \<and> job_Status job' = ExportStatusCompleted"
proof -
  obtain z where z: "chunk_entries ref_env ''raw_logs/a/1970/01/01/0-u.gz'' z = Some [wit_log_entry]"
    using wit_export_chunk by blast
  have "\<exists>job' w'. RunExport ref_env memdocs_api memdocs_os background (\<lambda>_. 0) 9 (NewExporter wit_client wit_osclient 100) wit_job
      (wit_exports z) = (None, job', w')"
    using memdocs.RunExport_exact [of "NewExporter wit_client wit_osclient 100" "wit_exports z" wit_job "\<lambda>_. [wit_log_entry]" "\<lambda>_. 0" 9]
      wit_export_ready [OF z] by auto
  then obtain job' w' where run: "RunExport ref_env memdocs_api memdocs_os background (\<lambda>_. 0) 9
      (NewExporter wit_client wit_osclient 100) wit_job (wit_exports z) = (None, job', w')" by blast
  have "job_ChunksProcessed wit_job = 0" by (simp add: wit_job_def)
  from export_sound [OF memdocs.export_env_axioms run this] run show ?thesis by auto
qed

end
