(* ===== verification/EndToEnd.thy ===== *)
theory EndToEnd
  imports BufferSystem QueryEngine Exporter
begin

text \<open>
  From the buffer to the reader: a batch that was flushed to a store that works is found by a
  query and by an export. The lemmas put together the flusher, the key layout, the index, the
  chunk encoding, the query engine and the exporter.
\<close>

section \<open>Batches that can be shipped\<close>

text \<open>
  The entries survive JSON and fit the scanner's buffer, the labels keep their deduplication
  keys apart, the batch is within snappy's size, and neither the service nor the identifier of
  the chunk contains a slash.
\<close>

definition shippable :: "env \<Rightarrow> string \<Rightarrow> flushJob \<Rightarrow> bool" where
  "shippable E uid job \<longleftrightarrow> job_ok job \<and> (\<forall>e \<in> set (fj_entries job). fits E e \<and> plain_labels (Labels e))
     \<and> length (ndjson E (fj_entries job)) < 2 ^ 31
     \<and> CHR ''/'' \<notin> set (fj_service job) \<and> CHR ''/'' \<notin> set uid \<and> ascii uid"

lemma ascii_append [simp]: "ascii (s @ t) \<longleftrightarrow> ascii s \<and> ascii t"
  by (auto simp: ascii_def)

lemma ascii_Cons [simp]: "ascii (c # s) \<longleftrightarrow> (of_char c :: nat) < 128 \<and> ascii s" "ascii []"
  by (auto simp: ascii_def)

lemma ascii_num [simp]: "ascii (show_int i)" "ascii (pad_int k i)"
  by (auto simp: ascii_def is_digit_def dest!: show_int_chars pad_int_chars)

lemma ascii_date: "ascii (format_date ''/'' t)"
proof -
  obtain y m d where "format_date ''/'' t = pad_int 4 y @ ''/'' @ pad_int 2 m @ ''/'' @ pad_int 2 d"
    by (rule format_date_parts)
  then show ?thesis by simp
qed

lemma utf8_chunkKey: "utf8_ok service \<Longrightarrow> ascii uid \<Longrightarrow> utf8_ok (chunkKey service t uid algo)"
  using FileExtension_cases [of algo]
  unfolding chunkKey_def by - (rule utf8_ok_append, assumption, rule ascii_utf8, auto simp: ascii_date)

lemma shippable_index_safe:
  assumes "shippable E uid job" "order_ok mo" "bo_Compression opts \<in> {''gzip'', ''snappy''}" "length z < 2 ^ 63"
  shows "index_safe (chunk_index (job_chunk opts mo uid job z))"
proof -
  have safe: "\<forall>e \<in> set (fj_entries job). entry_safe e" and job: "job_ok job" and uid: "ascii uid"
    using assms(1) by (auto simp: shippable_def fits_def)
  have ne: "fj_entries job \<noteq> []" using job by (simp add: job_ok_def)
  then have "fj_minTime job \<in> Timestamp ` set (fj_entries job)" "fj_maxTime job \<in> Timestamp ` set (fj_entries job)"
    using job by (auto simp: job_ok_def tmin_def tmax_def)
  then have times: "time_safe (fj_minTime job)" "time_safe (fj_maxTime job)" using safe by (auto simp: entry_safe_def)
  have svc: "utf8_ok (fj_service job)" using safe ne job by (simp add: job_ok_def entry_safe_def)
  have "length (fj_entries job) < 2 ^ 31"
    using length_ndjson [of "fj_entries job" E] assms(1) by (simp add: shippable_def)
  then have count: "int (length (fj_entries job)) < 2 ^ 63" by simp
  have "set (collectLabelSets mo (fj_entries job)) = Labels ` set (fj_entries job) - {[]}"
    by (rule collectLabelSets_set [OF assms(2)])
      (use assms(1) safe in \<open>auto simp: shippable_def entry_safe_def labels_safe_def\<close>)
  then have "\<forall>m \<in> set (collectLabelSets mo (fj_entries job)). labels_safe m" using safe by (auto simp: entry_safe_def)
  moreover have "utf8_ok (bo_Compression opts)" using assms(3) by (auto intro: ascii_utf8)
  moreover have "int (length z) < 2 ^ 63" using assms(4) by simp
  ultimately show ?thesis
    using times svc utf8_chunkKey [OF svc uid] count by (simp add: index_safe_def chunk_index_def job_chunk_def)
qed

section \<open>What a flush leaves behind\<close>

lemma chunkKey_suffix: "HasSuffix (p @ chunkKey service t uid algo) (FileExtension algo)"
  by (auto simp: chunkKey_def HasSuffix_iff)

text \<open>The chunk object, which reads back as the batch under every key with the chunk's name, and its index record.\<close>

lemma executeFlush_ships:
  assumes "reliable_store api obj" "codec E" "ctx_err C w = None" "shippable E uid job" "order_ok mo"
    and "bo_Compression opts \<in> {''gzip'', ''snappy''}" "bo_Flusher opts = Flush E api C rnd (NewS3Flusher c (Some st))"
  obtains z data w1 where "executeFlush E opts mo uid job w = (Some (job_chunk opts mo uid job z), w1)"
    "\<forall>p. chunk_entries E (p @ chunkKey (fj_service job) (fj_minTime job) uid (bo_Compression opts)) z = Some (fj_entries job)"
    "objects obj c w1 (s3_prefix c @ chunkKey (fj_service job) (fj_minTime job) uid (bo_Compression opts)) = Some z"
    "objects obj (st_s3 st) w1 (indexKey (st_prefix st) (chunkKey (fj_service job) (fj_minTime job) uid (bo_Compression opts))) = Some data"
    "unmarshalIndex E data = Some (chunk_index (job_chunk opts mo uid job z))"
proof -
  let ?key = "chunkKey (fj_service job) (fj_minTime job) uid (bo_Compression opts)"
  have fit: "\<forall>e \<in> set (fj_entries job). fits E e" and small: "length (ndjson E (fj_entries job)) < 2 ^ 31"
    using assms(4) by (auto simp: shippable_def)
  have safe: "\<forall>e \<in> set (fj_entries job). entry_safe e" using fit by (simp add: fits_def)
  obtain z where z: "compressEntries E (fj_entries job) (bo_Compression opts) = Inr z"
    using codec.chunk_roundtrip [OF assms(2) safe small chunkKey_suffix] by blast
  have entries: "chunk_entries E (p @ ?key) z = Some (fj_entries job)" for p
    by (rule codec.chunk_entries_roundtrip [OF assms(2) fit small chunkKey_suffix z])
  let ?ck = "job_chunk opts mo uid job z"
  have ix: "index_safe (chunk_index ?ck)" by (rule shippable_index_safe [OF assms(4-6) codec.compressEntries_int [OF assms(2) safe small z]])
  have key: "is_chunk_key (ck_Key ?ck)" "ck_Key ?ck = ?key" by simp_all
  obtain w' data where fl: "Flush E api C rnd (NewS3Flusher c (Some st)) ?ck z w = (None, w')"
    "objects obj c w' (s3_prefix c @ ?key) = Some z" "objects obj (st_s3 st) w' (indexKey (st_prefix st) ?key) = Some data"
    "unmarshalIndex E data = Some (chunk_index ?ck)"
    using Flush_reliable [OF assms(1,2) ix assms(3) _ key(1), of "NewS3Flusher c (Some st)" st rnd z]
    by (auto simp: NewS3Flusher_def)
  let ?w = "w'\<lparr>mx := (mx w')\<lparr>ChunksFlushed := ChunksFlushed (mx w') + 1, BytesFlushed := BytesFlushed (mx w') + ck_SizeBytes ?ck,
      FlushDuration := FlushDuration (mx w') + 1\<rparr>\<rparr>"
  have "executeFlush E opts mo uid job w = (Some ?ck, ?w)" using z fl(1) assms(7) by (simp add: executeFlush_def)
  moreover have "objects obj d ?w = objects obj d w'" for d by (simp add: objects_def)
  ultimately show ?thesis using that [of z ?w data] entries fl(2-4) by simp
qed

text \<open>And nothing else: a flush on a store that works adds at most these two objects.\<close>

context object_store
begin

lemma PutObject_adds:
  assumes "PutObject api c key data w = (r, w')" "obj (ext w') b k = Some x"
  shows "obj (ext w) b k = Some x \<or> k = s3_prefix c @ key"
proof -
  obtain er s where p: "api_put api (s3_bucket c) (s3_prefix c @ key) data (ext w) = (er, s)" by fastforce
  then have "ext w' = s" using assms(1) by (auto simp: PutObject_def Let_def split: option.splits)
  then show ?thesis
    using assms(2) p put_frame [OF p, of b] put_nil [of "s3_bucket c" "s3_prefix c @ key" data "ext w" s]
      put_err [of "s3_bucket c" "s3_prefix c @ key" data "ext w" _ s]
    by (cases er; cases "b = s3_bucket c") (auto split: if_splits)
qed

lemma PutObjectRaw_adds:
  assumes "PutObjectRaw api c key data w = (r, w')" "obj (ext w') b k = Some x"
  shows "obj (ext w) b k = Some x \<or> k = key"
proof -
  obtain er s where p: "api_put api (s3_bucket c) key data (ext w) = (er, s)" by fastforce
  then have "ext w' = s" using assms(1) by (auto simp: PutObjectRaw_def Let_def split: option.splits)
  then show ?thesis
    using assms(2) p put_frame [OF p, of b] put_nil [of "s3_bucket c" key data "ext w" s]
      put_err [of "s3_bucket c" key data "ext w" _ s]
    by (cases er; cases "b = s3_bucket c") (auto split: if_splits)
qed

end

lemma executeFlush_adds:
  assumes "reliable_store api obj" "ctx_err C w = None" "bo_Flusher opts = Flush E api C rnd (NewS3Flusher c (Some st))"
    and "executeFlush E opts mo uid job w = (r, w1)" "obj (ext w1) b k = Some x"
  shows "obj (ext w) b k = Some x \<or> k = s3_prefix c @ chunkKey (fj_service job) (fj_minTime job) uid (bo_Compression opts)
    \<or> k = indexKey (st_prefix st) (chunkKey (fj_service job) (fj_minTime job) uid (bo_Compression opts))"
proof (cases "compressEntries E (fj_entries job) (bo_Compression opts)")
  case (Inl e)
  then show ?thesis using assms(4,5) by (auto simp: executeFlush_def)
next
  case (Inr z)
  note os = reliable_store.axioms(1) [OF assms(1)]
  let ?ck = "job_chunk opts mo uid job z"
  obtain w2 where put: "PutObject api c (ck_Key ?ck) z w = (Inr (int (length z)), w2)"
    using reliable_store.PutObject_total [OF assms(1)] by blast
  then have d: "Do C DefaultOptions rnd (flush_put api (NewS3Flusher c (Some st)) ?ck z) w = (None, w2)"
    using assms(2) by (intro Do_fst_success) (simp_all add: flush_put_def DefaultOptions_def NewS3Flusher_def)
  obtain er w3 where wr: "Write E api st (chunk_index ?ck) w2 = (er, w3)" by fastforce
  have "ext w1 = ext w3" using assms(3,4) Inr d wr by (auto simp: executeFlush_def Let_def Flush_def NewS3Flusher_def)
  then have "obj (ext w2) b k = Some x \<or> k = indexKey (st_prefix st) (ck_Key ?ck)"
    using assms(5) wr object_store.PutObjectRaw_adds [OF os]
    by (fastforce simp: Write_def chunk_index_def Let_def split: sum.splits)
  then show ?thesis using object_store.PutObject_adds [OF os put] by auto
qed

section \<open>Queries and exports of a flushed batch\<close>

lemma job_times: "job_ok job \<Longrightarrow> x \<in> set (fj_entries job) \<Longrightarrow> fj_minTime job \<le> Timestamp x \<and> Timestamp x \<le> fj_maxTime job"
  by (simp add: job_ok_def tmin_le tmax_ge)

lemma day_mono: "s \<le> t \<Longrightarrow> day_number s \<le> day_number t"
  by (simp add: day_number_def zdiv_mono1 day_ns_def second_def)

text \<open>The index record of a shipped batch matches every query that one of its labelled entries matches.\<close>

lemma shipped_index_matches:
  assumes "shippable E uid job" "order_ok mo" "x \<in> set (fj_entries job)" "Service x = fj_service job"
    and "entry_matches E req x" "rq_Labels req = [] \<or> Labels x \<noteq> []"
  shows "index_matches E (rq_StartTime req) (rq_EndTime req) (rq_Service req) (rq_Labels req) (chunk_index (job_chunk opts mo uid job z))"
proof -
  have job: "job_ok job" "\<forall>e \<in> set (fj_entries job). wf_labels (Labels e) \<and> plain_labels (Labels e)"
    using assms(1) by (auto simp: shippable_def fits_def entry_safe_def labels_safe_def)
  note m = assms(5) [unfolded entry_matches_iff]
  have "timeOverlaps (fj_minTime job) (fj_maxTime job) (rq_StartTime req) (rq_EndTime req)"
    using m job_times [OF job(1) assms(3)] by (auto simp: timeOverlaps_def Before_def After_def)
  moreover have "MatchLabels (collectLabelSets mo (fj_entries job)) (rq_Labels req)"
    using assms(3,6) m collectLabelSets_set [OF assms(2) job(2)] by (auto simp: MatchLabels_iff)
  ultimately show ?thesis
    using m assms(4) by (auto simp: index_matches_def chunk_index_def job_chunk_def)
qed

lemma shipped_queried:
  assumes rel: "reliable_store api obj" and cod: "codec E" and ctx: "\<And>w. ctx_err C w = None"
    and ship: "shippable E uid job" "order_ok mo" "bo_Compression opts \<in> {''gzip'', ''snappy''}"
      "bo_Flusher opts = Flush E api C rnd (NewS3Flusher c (Some st))"
    and fl: "executeFlush E opts mo uid job w = (r, w1)"
    and readable: "\<And>ix. ix \<in> stored_indexes E (objects obj (st_s3 st) w1) (dayPrefixes (st_prefix st) (rq_StartTime req) (rq_EndTime req)) \<Longrightarrow>
        index_matches E (rq_StartTime req) (rq_EndTime req) (rq_Service req) (rq_Labels req) ix \<Longrightarrow>
        \<exists>data all. objects obj c w1 (s3_prefix c @ ix_ChunkKey ix) = Some data \<and> chunk_entries E (ix_ChunkKey ix) data = Some all"
    and x: "x \<in> set (fj_entries job)" "Service x = fj_service job" "entry_matches E req x" "rq_Labels req = [] \<or> Labels x \<noteq> []"
      "day_number (rq_StartTime req) \<le> day_number (fj_minTime job)"
  shows "\<exists>resp w2. Run E api C dur (NewEngine c st) req w1 = (Inr resp, w2)
    \<and> (length (rs_Entries resp) < (if rq_Limit req \<le> 0 then 200 else nat (rq_Limit req)) \<longrightarrow> x \<in> set (rs_Entries resp))"
proof -
  let ?key = "chunkKey (fj_service job) (fj_minTime job) uid (bo_Compression opts)"
  obtain z data w1' where st: "executeFlush E opts mo uid job w = (Some (job_chunk opts mo uid job z), w1')"
    "\<forall>p. chunk_entries E (p @ ?key) z = Some (fj_entries job)" "objects obj c w1' (s3_prefix c @ ?key) = Some z"
    "objects obj (st_s3 st) w1' (indexKey (st_prefix st) ?key) = Some data"
    "unmarshalIndex E data = Some (chunk_index (job_chunk opts mo uid job z))"
    by (rule executeFlush_ships [OF rel cod ctx [of w] ship])
  have w1: "w1' = w1" using st(1) fl by simp
  let ?ix = "chunk_index (job_chunk opts mo uid job z)"
  have job: "job_ok job" "CHR ''/'' \<notin> set (fj_service job)" "CHR ''/'' \<notin> set uid" using ship(1) by (auto simp: shippable_def)
  have "Timestamp x \<le> rq_EndTime req" using x(3) by (simp add: entry_matches_iff)
  then have "day_number (fj_minTime job) \<le> day_number (rq_EndTime req)"
    using job_times [OF job(1) x(1)] by (intro day_mono) simp
  then have "listed (indexKey (st_prefix st) ?key) (dayPrefixes (st_prefix st) (rq_StartTime req) (rq_EndTime req))"
    using listed_index [OF job(2,3)] x(5) by blast
  then have ix: "?ix \<in> stored_indexes E (objects obj (st_s3 st) w1) (dayPrefixes (st_prefix st) (rq_StartTime req) (rq_EndTime req))"
    using st(4,5) w1 unfolding stored_indexes_def by blast
  have im: "index_matches E (rq_StartTime req) (rq_EndTime req) (rq_Service req) (rq_Labels req) ?ix"
    by (rule shipped_index_matches [OF ship(1,2) x(1-4)])
  have k: "ix_ChunkKey ?ix = ?key" by (simp add: chunk_index_def)
  have src: "query_source E obj (NewEngine c st) req w1 x"
    unfolding query_source_def
    by (intro exI [of _ ?ix] exI [of _ z] exI [of _ "fj_entries job"] conjI)
      (use ix im st(2) [THEN spec, of "''''"] st(3) k w1 x(1) in \<open>simp_all add: NewEngine_def\<close>)
  have "\<exists>resp w2. Run E api C dur (NewEngine c st) req w1 = (Inr resp, w2)
    \<and> (length (rs_Entries resp) < (if rq_Limit req \<le> 0 then 200 else nat (rq_Limit req)) \<longrightarrow>
        set (rs_Entries resp) = {x. entry_matches E req x \<and> query_source E obj (NewEngine c st) req w1 x})"
    by (rule Run_complete [OF rel ctx]) (use readable in \<open>simp add: NewEngine_def\<close>)
  then show ?thesis using src x(3) by blast
qed

lemma shipped_exported:
  assumes rel: "reliable_export api obj os docs C E" and cod: "codec E"
    and ship: "shippable E uid job" "order_ok mo" "bo_Compression opts \<in> {''gzip'', ''snappy''}"
      "bo_Flusher opts = Flush E api C rnd (NewS3Flusher c (Some st))"
    and fl: "executeFlush E opts mo uid job w = (r, w1)"
    and ready: "\<And>key. key \<in> dom (objects obj c w1) \<Longrightarrow>
        listed key (map ((@) (s3_prefix c)) (timePrefixes (job_Service xj) (job_StartTime xj) (job_EndTime xj))) \<Longrightarrow>
        \<exists>data. objects obj c w1 key = Some data \<and> chunk_entries E key data = Some (all key)
          \<and> (\<forall>x \<in> set (all key). matchesJob E x xj \<longrightarrow> (\<exists>d. marshalEntry E x = Inr d))"
    and x: "x \<in> set (fj_entries job)" "matchesJob E x xj" "job_Service xj = fj_service job" "fj_service job \<noteq> ''''"
      "day_number (job_StartTime xj) \<le> day_number (fj_minTime job)"
  shows "\<exists>job' w2. RunExport E api os C rnd' now (NewExporter c osc n) xj w1 = (None, job', w2)
    \<and> (IndexNameForDate osc (Timestamp x), jline E x) \<in> set (docs (ext w2)) \<and> job_Status job' = ExportStatusCompleted"
proof -
  let ?key = "s3_prefix c @ chunkKey (fj_service job) (fj_minTime job) uid (bo_Compression opts)"
  have rs: "reliable_store api obj" and ctx: "ctx_err C w = None"
    using rel by (auto simp: reliable_export_def reliable_export_axioms_def)
  obtain z data w1' where st: "executeFlush E opts mo uid job w = (Some (job_chunk opts mo uid job z), w1')"
    "\<forall>p. chunk_entries E (p @ chunkKey (fj_service job) (fj_minTime job) uid (bo_Compression opts)) z = Some (fj_entries job)"
    "objects obj c w1' ?key = Some z"
    by (rule executeFlush_ships [OF rs cod ctx ship])
  have key: "objects obj c w1 ?key = Some z" using st(1,3) fl by simp
  have job: "job_ok job" using ship(1) by (simp add: shippable_def)
  have "Timestamp x \<le> job_EndTime xj" using x(2) by (auto simp: matchesJob_def After_def split: if_splits)
  then have "day_number (fj_minTime job) \<le> day_number (job_EndTime xj)" using job_times [OF job x(1)] by (intro day_mono) simp
  then have l: "listed ?key (map ((@) (s3_prefix c)) (timePrefixes (job_Service xj) (job_StartTime xj) (job_EndTime xj)))"
    using listed_chunk [OF x(4)] x(3,5) by simp
  then have "chunk_entries E ?key z = Some (all ?key)" using ready [of ?key] key by auto
  then have all: "all ?key = fj_entries job" using st(2) by simp
  obtain job' w2 keys where run: "RunExport E api os C rnd' now (NewExporter c osc n) xj w1 = (None, job', w2)"
    "set keys = {key \<in> dom (objects obj c w1).
        listed key (map ((@) (s3_prefix c)) (timePrefixes (job_Service xj) (job_StartTime xj) (job_EndTime xj)))}"
    "docs (ext w2) = docs (ext w1) @ map (doc_of E osc) (concat (map (\<lambda>key. filter (\<lambda>x. matchesJob E x xj) (all key)) keys))"
    "job_Status job' = ExportStatusCompleted"
    using reliable_export.RunExport_exact [OF rel, of "NewExporter c osc n" w1 xj all rnd' now] ready by auto
  have "?key \<in> set keys" using run(2) key l by auto
  then have "doc_of E osc x \<in> set (docs (ext w2))" using run(3) all x(1,2) by fastforce
  then show ?thesis using run(1,4) by (auto simp: doc_of_def)
qed

end
