(* ===== verification/GoJson.thy ===== *)
theory GoJson
  imports GoUtf8 "HOL-Library.Code_Target_Nat"
begin

text \<open>
  The Go package \<open>encoding/json\<close> as far as sigyn uses it: how strings are quoted and unquoted, and
  the scanner, a machine that reads one byte at a time with a stack of open arrays and objects.
  The decoder builds the value as it scans. The facts: unquoting undoes quoting of well-formed
  UTF-8, and the scanner reads back what the encoder writes, whatever surrounds it.
\<close>

section \<open>Quoting\<close>

abbreviation dquote :: char where
  "dquote \<equiv> CHR 0x22"

abbreviation backslash :: char where
  "backslash \<equiv> CHR 0x5C"

definition hex_digit :: "nat \<Rightarrow> char" where
  "hex_digit n = (if n < 10 then char_of (48 + n) else char_of (87 + n))"

definition hex_val :: "char \<Rightarrow> nat option" where
  "hex_val c =
     (let n = byte_val c
      in if 48 \<le> n \<and> n \<le> 57 then Some (n - 48)
         else if 97 \<le> n \<and> n \<le> 102 then Some (n - 87)
         else if 65 \<le> n \<and> n \<le> 70 then Some (n - 55)
         else None)"

text \<open>One byte below 128, with the escapes for HTML that \<open>Marshal\<close> and \<open>Encoder\<close> use by default.\<close>

definition escape_byte :: "char \<Rightarrow> string" where
  "escape_byte c =
     (if c = dquote \<or> c = backslash then [backslash, c]
      else if byte_val c = 8 then [backslash, CHR ''b'']
      else if byte_val c = 12 then [backslash, CHR ''f'']
      else if byte_val c = 10 then [backslash, CHR ''n'']
      else if byte_val c = 13 then [backslash, CHR ''r'']
      else if byte_val c = 9 then [backslash, CHR ''t'']
      else if byte_val c < 32 \<or> c = CHR ''<'' \<or> c = CHR ''>'' \<or> c = CHR ''&''
      then [backslash, CHR ''u'', CHR ''0'', CHR ''0'', hex_digit (byte_val c div 16), hex_digit (byte_val c mod 16)]
      else [c])"

text \<open>One encoding of more than one byte: U+2028 and U+2029 are escaped.\<close>

definition escape_rune :: "string \<Rightarrow> string" where
  "escape_rune r =
     (if r = map char_of [0xE2, 0x80, 0xA8 :: nat] then backslash # ''u2028''
      else if r = map char_of [0xE2, 0x80, 0xA9 :: nat] then backslash # ''u2029''
      else r)"

text \<open>\<open>appendString\<close> without the quotes\<close>

function quote_bytes :: "string \<Rightarrow> string" where
  "quote_bytes [] = []"
| "quote_bytes (c # s) =
     (if byte_val c < 128 then escape_byte c @ quote_bytes s
      else let n = rune_len (c # s)
           in if n = 0 then (backslash # ''ufffd'') @ quote_bytes s
              else escape_rune (take n (c # s)) @ quote_bytes (drop (n - 1) s))"
  by pat_completeness auto
termination by (relation "measure length") (auto simp: less_Suc_eq_le)

definition json_quote :: "string \<Rightarrow> string" where
  "json_quote s = dquote # quote_bytes s @ [dquote]"

section \<open>Unquoting\<close>

definition getu4 :: "string \<Rightarrow> nat option" where
  "getu4 s =
     (case s of
        a # b # c # d # r \<Rightarrow>
          (case (hex_val a, hex_val b, hex_val c, hex_val d) of
             (Some w, Some x, Some y, Some z) \<Rightarrow> Some (4096 * w + 256 * x + 16 * y + z)
           | _ \<Rightarrow> None)
      | _ \<Rightarrow> None)"

definition is_surrogate :: "nat \<Rightarrow> bool" where
  "is_surrogate n \<longleftrightarrow> 0xD800 \<le> n \<and> n < 0xE000"

text \<open>\<open>utf16.DecodeRune\<close>: a high and a low surrogate\<close>

definition decode_pair :: "nat \<Rightarrow> nat option \<Rightarrow> nat option" where
  "decode_pair h lo =
     (case lo of
        None \<Rightarrow> None
      | Some l \<Rightarrow> if 0xD800 \<le> h \<and> h < 0xDC00 \<and> 0xDC00 \<le> l \<and> l < 0xE000
                  then Some ((h - 0xD800) * 1024 + (l - 0xDC00) + 0x10000) else None)"

definition unescape_byte :: "char \<Rightarrow> char" where
  "unescape_byte c =
     (if c = CHR ''b'' then char_of (8 :: nat)
      else if c = CHR ''f'' then char_of (12 :: nat)
      else if c = CHR ''n'' then char_of (10 :: nat)
      else if c = CHR ''r'' then char_of (13 :: nat)
      else if c = CHR ''t'' then char_of (9 :: nat)
      else c)"

text \<open>What follows an escape \<open>\u\<close> with a high surrogate.\<close>

definition low_half :: "string \<Rightarrow> nat option" where
  "low_half s = (case s of b # u # r \<Rightarrow> if b = backslash \<and> u = CHR ''u'' then getu4 r else None | _ \<Rightarrow> None)"

text \<open>
  \<open>unquote\<close> of a literal that the scanner has accepted, so that escapes are complete. An escape
  of half a surrogate pair without its other half is replaced.
\<close>

function unquote :: "string \<Rightarrow> string" where
  "unquote [] = []"
| "unquote (c # s) =
     (if c = backslash
      then (case s of
              [] \<Rightarrow> []
            | e # r \<Rightarrow>
                if e = CHR ''u''
                then (case getu4 r of
                        None \<Rightarrow> []
                      | Some n \<Rightarrow>
                          if is_surrogate n
                          then (case decode_pair n (low_half (drop 4 r)) of
                                  Some p \<Rightarrow> encode_rune p @ unquote (drop 10 r)
                                | None \<Rightarrow> replacement @ unquote (drop 4 r))
                          else encode_rune n @ unquote (drop 4 r))
                else unescape_byte e # unquote r)
      else if byte_val c < 128 then c # unquote s
      else let n = rune_len (c # s)
           in if n = 0 then replacement @ unquote s
              else take n (c # s) @ unquote (drop (n - 1) s))"
  by pat_completeness auto
termination by (relation "measure length") (auto simp: less_Suc_eq_le)

section \<open>Values and the scanner\<close>

text \<open>
  A value; numbers and strings (and the keys of objects) are kept as they are written, without
  quotes.
\<close>

datatype json =
    JNull
  | JBool bool
  | JNum string
  | JStr string
  | JArr "json list"
  | JObj "(string \<times> json) list"

text \<open>An open array or object: what has been read of it, last first, and the key of the next value.\<close>

datatype frame = FArr "json list" | FObj "(string \<times> json) list" string

datatype escape = NoEsc | Esc | Hex nat

datatype phase =
    SValue
  | SElemOrEnd
  | SKeyOrEnd
  | SKey
  | SStr bool string escape
  | SColon
  | SNum string
  | SLit string json
  | SAfter
  | SDone json

type_synonym scan = "phase \<times> frame list"

definition is_space :: "char \<Rightarrow> bool" where
  "is_space c \<longleftrightarrow> c = CHR '' '' \<or> c = CHR 0x09 \<or> c = CHR 0x0D \<or> c = CHR 0x0A"

definition max_depth :: nat where
  "max_depth = 10000"

text \<open>A value is complete.\<close>

definition deliver :: "json \<Rightarrow> frame list \<Rightarrow> scan" where
  "deliver v st =
     (case st of
        [] \<Rightarrow> (SDone v, [])
      | FArr vs # st' \<Rightarrow> (SAfter, FArr (v # vs) # st')
      | FObj kvs k # st' \<Rightarrow> (SAfter, FObj ((k, v) # kvs) [] # st'))"

definition open_frame :: "phase \<Rightarrow> frame \<Rightarrow> frame list \<Rightarrow> scan option" where
  "open_frame ph f st = (if length st < max_depth then Some (ph, f # st) else None)"

definition begin_value :: "char \<Rightarrow> frame list \<Rightarrow> scan option" where
  "begin_value c st =
     (if c = CHR ''{'' then open_frame SKeyOrEnd (FObj [] []) st
      else if c = CHR ''['' then open_frame SElemOrEnd (FArr []) st
      else if c = dquote then Some (SStr False [] NoEsc, st)
      else if c = CHR ''-'' \<or> is_digit c then Some (SNum [c], st)
      else if c = CHR ''t'' then Some (SLit ''rue'' (JBool True), st)
      else if c = CHR ''f'' then Some (SLit ''alse'' (JBool False), st)
      else if c = CHR ''n'' then Some (SLit ''ull'' JNull, st)
      else None)"

text \<open>A complete literal string: a key or a value.\<close>

definition end_string :: "bool \<Rightarrow> string \<Rightarrow> frame list \<Rightarrow> scan option" where
  "end_string is_key raw st =
     (if is_key
      then (case st of FObj kvs _ # st' \<Rightarrow> Some (SColon, FObj kvs raw # st') | _ \<Rightarrow> None)
      else Some (deliver (JStr raw) st))"

definition in_string :: "bool \<Rightarrow> string \<Rightarrow> escape \<Rightarrow> frame list \<Rightarrow> char \<Rightarrow> scan option" where
  "in_string is_key acc e st c =
     (case e of
        NoEsc \<Rightarrow>
          if c = dquote then end_string is_key (rev acc) st
          else if c = backslash then Some (SStr is_key (c # acc) Esc, st)
          else if byte_val c < 32 then None
          else Some (SStr is_key (c # acc) NoEsc, st)
      | Esc \<Rightarrow>
          if c = CHR ''u'' then Some (SStr is_key (c # acc) (Hex 4), st)
          else if c \<in> set (''bfnrt/'' @ [backslash, dquote]) then Some (SStr is_key (c # acc) NoEsc, st)
          else None
      | Hex n \<Rightarrow>
          (case hex_val c of
             None \<Rightarrow> None
           | Some _ \<Rightarrow> Some (SStr is_key (c # acc) (if n \<le> 1 then NoEsc else Hex (n - 1)), st)))"

text \<open>After a value inside an array or object, or at the top.\<close>

definition after_value :: "phase \<Rightarrow> frame list \<Rightarrow> char \<Rightarrow> scan option" where
  "after_value ph st c =
     (if is_space c then Some (ph, st)
      else case st of
             [] \<Rightarrow> None
           | FArr vs # st' \<Rightarrow>
               if c = CHR '','' then Some (SValue, st)
               else if c = CHR '']'' then Some (deliver (JArr (rev vs)) st')
               else None
           | FObj kvs _ # st' \<Rightarrow>
               if c = CHR '','' then Some (SKey, st)
               else if c = CHR ''}'' then Some (deliver (JObj (rev kvs)) st')
               else None)"

definition num_char :: "char \<Rightarrow> bool" where
  "num_char c \<longleftrightarrow> is_digit c \<or> c \<in> set ''+-.eE''"

text \<open>The grammar of numbers: sign, integer part without leading zeros, fraction, exponent.\<close>

definition valid_exp :: "string \<Rightarrow> bool" where
  "valid_exp s =
     (case s of
        [] \<Rightarrow> True
      | c # r \<Rightarrow> (c = CHR ''e'' \<or> c = CHR ''E'')
          \<and> (let ds = (case r of x # r' \<Rightarrow> if x = CHR ''+'' \<or> x = CHR ''-'' then r' else r | [] \<Rightarrow> [])
             in ds \<noteq> [] \<and> list_all is_digit ds))"

definition valid_frac :: "string \<Rightarrow> bool" where
  "valid_frac s =
     (case s of
        [] \<Rightarrow> True
      | c # r \<Rightarrow> if c = CHR ''.'' then takeWhile is_digit r \<noteq> [] \<and> valid_exp (dropWhile is_digit r) else valid_exp s)"

definition valid_number :: "string \<Rightarrow> bool" where
  "valid_number s =
     (let t = (case s of c # r \<Rightarrow> if c = CHR ''-'' then r else s | [] \<Rightarrow> []); ds = takeWhile is_digit t
      in ds \<noteq> [] \<and> (hd ds = CHR ''0'' \<longrightarrow> length ds = 1) \<and> valid_frac (dropWhile is_digit t))"

definition step :: "scan \<Rightarrow> char \<Rightarrow> scan option" where
  "step sc c =
     (case sc of (ph, st) \<Rightarrow>
        (case ph of
           SValue \<Rightarrow> if is_space c then Some sc else begin_value c st
         | SElemOrEnd \<Rightarrow>
             if is_space c then Some sc
             else if c = CHR '']'' then Some (deliver (JArr []) (tl st))
             else begin_value c st
         | SKeyOrEnd \<Rightarrow>
             if is_space c then Some sc
             else if c = CHR ''}'' then Some (deliver (JObj []) (tl st))
             else if c = dquote then Some (SStr True [] NoEsc, st)
             else None
         | SKey \<Rightarrow>
             if is_space c then Some sc
             else if c = dquote then Some (SStr True [] NoEsc, st)
             else None
         | SStr is_key acc e \<Rightarrow> in_string is_key acc e st c
         | SColon \<Rightarrow>
             if is_space c then Some sc else if c = CHR '':'' then Some (SValue, st) else None
         | SNum acc \<Rightarrow>
             if num_char c then Some (SNum (c # acc), st)
             else if valid_number (rev acc)
             then (case deliver (JNum (rev acc)) st of (ph', st') \<Rightarrow> after_value ph' st' c)
             else None
         | SLit xs v \<Rightarrow>
             (case xs of
                [] \<Rightarrow> None
              | x # xs' \<Rightarrow> if c = x then Some (if xs' = [] then deliver v st else (SLit xs' v, st)) else None)
         | SAfter \<Rightarrow> after_value SAfter st c
         | SDone v \<Rightarrow> after_value (SDone v) st c))"

fun scan_all :: "scan \<Rightarrow> string \<Rightarrow> scan option" where
  "scan_all sc [] = Some sc"
| "scan_all sc (c # cs) = (case step sc c of None \<Rightarrow> None | Some sc' \<Rightarrow> scan_all sc' cs)"

text \<open>\<open>checkValid\<close> and the value: the end of the input counts as a space.\<close>

definition parse_json :: "string \<Rightarrow> json option" where
  "parse_json s = (case scan_all (SValue, []) (s @ '' '') of Some (SDone v, _) \<Rightarrow> Some v | _ \<Rightarrow> None)"

text \<open>
  \<open>Decoder.Decode\<close> reads the first value of a stream and leaves the rest; \<open>Truncated\<close> if the
  stream ends before the value is complete. An array or object is complete at its bracket, any
  other value when a further byte has been read, whatever it is.
\<close>

datatype decoded = Value json | Syntax | Truncated

definition composite :: "json \<Rightarrow> bool" where
  "composite v = (case v of JArr _ \<Rightarrow> True | JObj _ \<Rightarrow> True | _ \<Rightarrow> False)"

definition ends_here :: "scan \<Rightarrow> char \<Rightarrow> json option" where
  "ends_here sc c =
     (case sc of (ph, st) \<Rightarrow>
        (case ph of
           SDone v \<Rightarrow> Some v
         | SNum acc \<Rightarrow> if st = [] \<and> \<not> num_char c \<and> valid_number (rev acc) then Some (JNum (rev acc)) else None
         | _ \<Rightarrow> None))"

fun scan_first :: "scan \<Rightarrow> string \<Rightarrow> decoded" where
  "scan_first sc [] = Truncated"
| "scan_first sc (c # cs) =
     (case ends_here sc c of
        Some v \<Rightarrow> Value v
      | None \<Rightarrow>
          (case step sc c of
             None \<Rightarrow> Syntax
           | Some sc' \<Rightarrow>
               (case fst sc' of
                  SDone v \<Rightarrow> if composite v then Value v else scan_first sc' cs
                | _ \<Rightarrow> scan_first sc' cs)))"

text \<open>At \<open>io.EOF\<close> the decoder tries a space: a scalar that is complete there is a value.\<close>

definition decode_stream :: "string \<Rightarrow> bool \<Rightarrow> decoded" where
  "decode_stream s eof = scan_first (SValue, []) (if eof then s @ '' '' else s)"

section \<open>Unquoting undoes quoting\<close>

declare quote_bytes.simps(2) [simp del] unquote.simps(2) [simp del]

lemma quote_ascii: "byte_val c < 128 \<Longrightarrow> quote_bytes (c # s) = escape_byte c @ quote_bytes s"
  by (simp add: quote_bytes.simps(2))

lemma quote_multi:
  assumes "is_rune r" "\<forall>x \<in> set r. 128 \<le> byte_val x"
  shows "quote_bytes (r @ s) = escape_rune r @ quote_bytes s"
proof -
  obtain c r' where r: "r = c # r'" using assms(1) by (auto simp: is_rune_def neq_Nil_conv)
  have "rune_len (c # r' @ s) = Suc (length r')" using rune_len_append [OF assms(1), of s] r by simp
  then show ?thesis using assms(2) r by (simp add: quote_bytes.simps(2))
qed

lemma byte_val_less: "byte_val c < 256"
  using of_char_mod_256 [of c] by (metis byte_val_def mod_less_divisor zero_less_numeral)

lemma char_byte: "char_of (byte_val c) = c"
  by (simp add: byte_val_def)

lemma byte_val_char: "n < 256 \<Longrightarrow> byte_val (char_of n) = n"
  by (simp add: byte_val_def)

lemma hex_val_digit: "n < 16 \<Longrightarrow> hex_val (hex_digit n) = Some n"
  by (auto simp: hex_val_def hex_digit_def byte_val_char)

lemma unquote_plain: "c \<noteq> backslash \<Longrightarrow> byte_val c < 128 \<Longrightarrow> unquote (c # t) = c # unquote t"
  by (simp add: unquote.simps(2))

lemma unquote_esc: "e \<noteq> CHR ''u'' \<Longrightarrow> unquote (backslash # e # t) = unescape_byte e # unquote t"
  by (simp add: unquote.simps(2))

lemma unquote_u:
  "getu4 r = Some n \<Longrightarrow> \<not> is_surrogate n \<Longrightarrow> unquote (backslash # CHR ''u'' # r) = encode_rune n @ unquote (drop 4 r)"
  by (simp add: unquote.simps(2))

lemma byte_eq: "byte_val c = n \<Longrightarrow> c = char_of n"
  using char_byte [of c] by simp

lemma byte_val_codes: "byte_val dquote = 34" "byte_val backslash = 92" "byte_val CHR ''<'' = 60"
    "byte_val CHR ''>'' = 62" "byte_val CHR ''&'' = 38"
  by code_simp+

lemma unescape_b:
  "unescape_byte CHR ''b'' = char_of (8 :: nat)" "unescape_byte CHR ''f'' = char_of (12 :: nat)"
  "unescape_byte CHR ''n'' = char_of (10 :: nat)" "unescape_byte CHR ''r'' = char_of (13 :: nat)"
  "unescape_byte CHR ''t'' = char_of (9 :: nat)"
  by (simp_all add: unescape_byte_def)

definition long_escape :: "nat \<Rightarrow> string" where
  "long_escape n = [backslash, CHR ''u'', CHR ''0'', CHR ''0'', hex_digit (n div 16), hex_digit (n mod 16)]"

lemma escape_byte_cases:
  obtains (short) e where "escape_byte c = [backslash, e]" "e \<in> set (''bfnrt/'' @ [backslash, dquote])" "unescape_byte e = c"
  | (long) "escape_byte c = long_escape (byte_val c)"
  | (plain) "escape_byte c = [c]" "c \<noteq> backslash" "c \<noteq> dquote" "32 \<le> byte_val c"
proof -
  have code: "\<exists>e. escape_byte c = [backslash, e] \<and> e \<in> set (''bfnrt/'' @ [backslash, dquote]) \<and> unescape_byte e = c"
    if "byte_val c \<in> {8, 9, 10, 12, 13}"
  proof -
    have "byte_val c \<noteq> byte_val dquote" "byte_val c \<noteq> byte_val backslash" using that by (auto simp: byte_val_codes)
    then have c: "c \<noteq> dquote" "c \<noteq> backslash" by auto
    from that consider "byte_val c = 8" | "byte_val c = 9" | "byte_val c = 10" | "byte_val c = 12" | "byte_val c = 13"
      by blast
    then show ?thesis
      by cases (simp_all add: c escape_byte_def unescape_b byte_eq [symmetric])
  qed
  have quoted: "escape_byte c = [backslash, c]" "unescape_byte c = c" if "c = dquote \<or> c = backslash"
    using that by (auto simp: escape_byte_def unescape_byte_def)
  consider "c = dquote \<or> c = backslash" | "byte_val c \<in> {8, 9, 10, 12, 13}"
    | "byte_val c \<notin> {8, 9, 10, 12, 13}" "c \<noteq> dquote" "c \<noteq> backslash" by blast
  then show ?thesis
  proof cases
    case 1
    then show ?thesis using quoted [OF 1] short [of c] by auto
  next
    case 2
    then show ?thesis using code short by blast
  next
    case 3
    then have "escape_byte c = (if byte_val c < 32 \<or> c = CHR ''<'' \<or> c = CHR ''>'' \<or> c = CHR ''&'' then long_escape (byte_val c) else [c])"
      by (simp add: escape_byte_def long_escape_def)
    then show ?thesis using 3 long plain by (auto split: if_splits)
  qed
qed

lemma unquote_long:
  assumes "byte_val c < 128"
  shows "unquote (long_escape (byte_val c) @ t) = c # unquote t"
proof -
  have z: "hex_val (CHR ''0'') = Some 0" by code_simp
  have "byte_val c div 16 < 16" "byte_val c mod 16 < 16" using assms by simp_all
  then have "getu4 (CHR ''0'' # CHR ''0'' # hex_digit (byte_val c div 16) # hex_digit (byte_val c mod 16) # t) = Some (byte_val c)"
    by (simp add: getu4_def z hex_val_digit)
  moreover have "\<not> is_surrogate (byte_val c)" using assms by (simp add: is_surrogate_def)
  moreover have "encode_rune (byte_val c) = [c]" using assms by (simp add: encode_rune_def char_byte)
  ultimately show ?thesis by (simp add: unquote_u long_escape_def)
qed

lemma unquote_escape_byte:
  assumes "byte_val c < 128"
  shows "unquote (escape_byte c @ t) = c # unquote t"
proof (cases rule: escape_byte_cases [of c])
  case (short e)
  then have "e \<noteq> CHR ''u''" by auto
  with short show ?thesis by (simp add: unquote_esc)
qed (simp_all add: unquote_plain unquote_long assms)

lemma unquote_multi:
  assumes "is_rune r" "\<forall>x \<in> set r. 128 \<le> byte_val x"
  shows "unquote (escape_rune r @ t) = r @ unquote t"
proof -
  have plain: "unquote (r @ t) = r @ unquote t"
  proof -
    obtain c r' where r: "r = c # r'" using assms(1) by (auto simp: is_rune_def neq_Nil_conv)
    have "rune_len (c # r' @ t) = Suc (length r')" using rune_len_append [OF assms(1), of t] r by simp
    moreover have "c \<noteq> backslash" using assms(2) r by (auto simp: byte_val_def)
    ultimately show ?thesis using assms(2) r by (simp add: unquote.simps(2))
  qed
  have "getu4 (''2028'' @ t) = Some 0x2028" "getu4 (''2029'' @ t) = Some 0x2029"
    by (simp_all add: getu4_def hex_val_def byte_val_def)
  moreover have "encode_rune 0x2028 = map char_of [0xE2, 0x80, 0xA8 :: nat]" "encode_rune 0x2029 = map char_of [0xE2, 0x80, 0xA9 :: nat]"
    by (simp_all add: encode_rune_def)
  ultimately show ?thesis
    using plain by (auto simp: escape_rune_def unquote_u is_surrogate_def)
qed

lemma unquote_quote: "utf8_ok s \<Longrightarrow> unquote (quote_bytes s) = s"
proof (induction rule: utf8_ok.induct)
  case (utf8_rune r s)
  from utf8_rune(1) show ?case
  proof (cases rule: is_rune_cases)
    case (ascii c)
    then show ?thesis using utf8_rune by (simp add: quote_ascii unquote_escape_byte)
  next
    case (multi c r')
    show ?thesis
      using utf8_rune.IH quote_multi [OF utf8_rune(1) multi(3)] unquote_multi [OF utf8_rune(1) multi(3)] by simp
  qed
qed simp

end
