(* ===== verification/JsonText.thy ===== *)
theory JsonText
  imports GoJson
begin

text \<open>
  The compact text of a value, as the encoder of \<open>encoding/json\<close> writes it, and that the scanner
  of \<open>GoJson\<close> reads it back, alone, inside other values and at the front of a stream.
\<close>

section \<open>The compact text\<close>

lemma size_snd_less: "kv \<in> set kvs \<Longrightarrow> size (snd kv) < Suc (size_list (size_prod (\<lambda>_. 0) size) kvs)"
  by (induction kvs) (auto simp: less_Suc_eq_le split: prod.splits)

lemma size_in_list: "v \<in> set vs \<Longrightarrow> size v < Suc (size_list size vs)"
  by (induction vs) auto

function render :: "json \<Rightarrow> string" where
  "render JNull = ''null''"
| "render (JBool b) = (if b then ''true'' else ''false'')"
| "render (JNum n) = n"
| "render (JStr r) = dquote # r @ [dquote]"
| "render (JArr vs) = CHR ''['' # str_join '','' (map render vs) @ '']''"
| "render (JObj kvs) =
     CHR ''{'' # str_join '','' (map (\<lambda>kv. dquote # fst kv @ [dquote] @ '':'' @ render (snd kv)) kvs) @ ''}''"
  by pat_completeness auto

termination
  by (relation "measure size") (auto simp: size_snd_less size_in_list)

text \<open>
  Text that passes the scanner inside a string; values whose strings and numbers are written
  properly and that are nested at most \<open>n\<close> deep.
\<close>

definition quotable :: "string \<Rightarrow> bool" where
  "quotable p \<longleftrightarrow>
     (\<forall>k acc st t. scan_all (SStr k acc NoEsc, st) (p @ t) = scan_all (SStr k (rev p @ acc) NoEsc, st) t)
     \<and> (\<forall>c \<in> set p. 32 \<le> byte_val c)"

function wf_json :: "nat \<Rightarrow> json \<Rightarrow> bool" where
  "wf_json n JNull = True"
| "wf_json n (JBool b) = True"
| "wf_json n (JNum s) =
     (valid_number s \<and> list_all num_char s \<and> s \<noteq> [] \<and> (hd s = CHR ''-'' \<or> is_digit (hd s)))"
| "wf_json n (JStr r) = quotable r"
| "wf_json n (JArr vs) = (0 < n \<and> (\<forall>v \<in> set vs. wf_json (n - 1) v))"
| "wf_json n (JObj kvs) = (0 < n \<and> (\<forall>kv \<in> set kvs. quotable (fst kv) \<and> wf_json (n - 1) (snd kv)))"
  by pat_completeness auto
termination
  by (relation "measure (\<lambda>(n, v). size v)") (auto simp: size_snd_less size_in_list)

section \<open>Quoted text passes the scanner\<close>

lemma scan_all_append: "scan_all sc (s @ t) = (case scan_all sc s of None \<Rightarrow> None | Some sc' \<Rightarrow> scan_all sc' t)"
  by (induction s arbitrary: sc) (auto split: option.splits)

lemma quotable_Nil [simp]: "quotable []"
  by (simp add: quotable_def)

lemma quotable_append [intro]: "quotable p \<Longrightarrow> quotable q \<Longrightarrow> quotable (p @ q)"
  by (auto simp: quotable_def)

lemma quotable_plain: "c \<noteq> dquote \<Longrightarrow> c \<noteq> backslash \<Longrightarrow> 32 \<le> byte_val c \<Longrightarrow> quotable [c]"
  by (simp add: quotable_def step_def in_string_def)

lemma quotable_plains: "\<forall>c \<in> set p. c \<noteq> dquote \<and> c \<noteq> backslash \<and> 32 \<le> byte_val c \<Longrightarrow> quotable p"
proof (induction p)
  case (Cons c p)
  then show ?case using quotable_append [OF quotable_plain [of c], of p] by simp
qed simp

lemma quotable_short:
  assumes "e \<in> set (''bfnrt/'' @ [backslash, dquote])"
  shows "quotable [backslash, e]"
proof -
  have "\<forall>x \<in> set (''bfnrt/'' @ [backslash, dquote]). 32 \<le> byte_val x \<and> x \<noteq> CHR ''u''" by code_simp
  then have "32 \<le> byte_val e" "e \<noteq> CHR ''u''" using assms by blast+
  moreover have "step (SStr k acc Esc, st) e = Some (SStr k (e # acc) NoEsc, st)" for k acc st
    by (simp only: step_def in_string_def split_conv phase.case escape.case assms \<open>e \<noteq> CHR ''u''\<close> if_True if_False)
  moreover have "step (SStr k acc NoEsc, st) backslash = Some (SStr k (backslash # acc) Esc, st)" for k acc st
    by (simp add: step_def in_string_def)
  ultimately show ?thesis by (simp add: quotable_def byte_val_codes)
qed

lemma quotable_u:
  assumes "length h = 4" "\<forall>c \<in> set h. hex_val c \<noteq> None"
  shows "quotable (backslash # CHR ''u'' # h)"
proof -
  obtain a b c d where h: "h = [a, b, c, d]" using assms(1) by (auto simp: length_Suc_conv eval_nat_numeral)
  have "32 \<le> byte_val x" if "x \<in> set h" for x
    using assms(2) that by (fastforce simp: hex_val_def Let_def split: if_splits)
  moreover have hex: "step (SStr k acc (Hex n), st) x = Some (SStr k (x # acc) (if n \<le> 1 then NoEsc else Hex (n - 1)), st)"
    if "x \<in> set h" for k acc n st x
    using assms(2) that by (auto simp: step_def in_string_def)
  moreover have "step (SStr k acc NoEsc, st) backslash = Some (SStr k (backslash # acc) Esc, st)"
    "step (SStr k acc Esc, st) (CHR ''u'') = Some (SStr k (CHR ''u'' # acc) (Hex 4), st)" for k acc st
    by (simp_all add: step_def in_string_def)
  moreover have "byte_val (CHR ''u'') = 117" by code_simp
  ultimately show ?thesis
    unfolding quotable_def h by (simp add: byte_val_codes)
qed

lemma quotable_long: "n < 256 \<Longrightarrow> quotable (long_escape n)"
  unfolding long_escape_def by (rule quotable_u) (auto simp: hex_val_digit, simp_all add: hex_val_def byte_val_def)

lemma quotable_escape_byte: "quotable (escape_byte c)"
  by (cases rule: escape_byte_cases [of c]) (auto simp: quotable_short quotable_long quotable_plain byte_val_less)

lemma quotable_escape_rune:
  assumes "\<forall>x \<in> set r. 128 \<le> byte_val x"
  shows "quotable (escape_rune r)"
proof -
  have "quotable r" by (rule quotable_plains) (use assms in \<open>auto simp: byte_val_codes\<close>)
  moreover have "quotable (backslash # ''u2028'')" "quotable (backslash # ''u2029'')"
    by (rule quotable_u; simp add: hex_val_def byte_val_def)+
  ultimately show ?thesis by (simp add: escape_rune_def)
qed

lemma take_rune:
  assumes "rune_len (c # s) \<noteq> 0" "128 \<le> byte_val c"
  shows "\<forall>x \<in> set (take (rune_len (c # s)) (c # s)). 128 \<le> byte_val x"
proof -
  obtain rs where rs: "tail_ranges (byte_val c) = Some rs" "tail_in rs s" "rune_len (c # s) = Suc (length rs)"
    using assms(1) by (auto simp: rune_len_def split: option.splits if_splits)
  then have "rs \<noteq> []" using assms(2) by (auto simp: tail_ranges_def split: if_splits)
  then show ?thesis
    using tail_in_high [OF rs(2)] tail_ranges_high [OF rs(1)] assms(2) rs(3) by auto
qed

lemma quotable_quote: "quotable (quote_bytes s)"
proof (induction s rule: quote_bytes.induct)
  case (2 c s)
  have "quotable (backslash # ''ufffd'')" by (rule quotable_u) (simp_all add: hex_val_def byte_val_def)
  with 2 show ?case
    using quotable_escape_rune [OF take_rune [of c s]] quotable_escape_byte [of c]
    by (auto simp: quote_bytes.simps(2) Let_def intro!: quotable_append [of "backslash # ''ufffd''", simplified])
qed simp

section \<open>The scanner reads values back\<close>

lemma json_induct [case_names Null Bool Num Str Arr Obj]:
  assumes "P JNull" "\<And>b. P (JBool b)" "\<And>s. P (JNum s)" "\<And>r. P (JStr r)"
    and "\<And>vs. (\<And>v. v \<in> set vs \<Longrightarrow> P v) \<Longrightarrow> P (JArr vs)"
    and "\<And>kvs. (\<And>kv. kv \<in> set kvs \<Longrightarrow> P (snd kv)) \<Longrightarrow> P (JObj kvs)"
  shows "P v"
  by (induction v) (auto simp: assms snds.simps)

lemma scan_open:
  "length st < max_depth \<Longrightarrow> scan_all (SValue, st) (CHR ''['' # t) = scan_all (SElemOrEnd, FArr [] # st) t"
  "length st < max_depth \<Longrightarrow> scan_all (SValue, st) (CHR ''{'' # t) = scan_all (SKeyOrEnd, FObj [] [] # st) t"
  by (simp_all add: step_def begin_value_def open_frame_def is_space_def)

lemma scan_close:
  "scan_all (SAfter, FArr vs # st) (CHR '']'' # t) = scan_all (deliver (JArr (rev vs)) st) t"
  "scan_all (SAfter, FObj kvs k # st) (CHR ''}'' # t) = scan_all (deliver (JObj (rev kvs)) st) t"
  "scan_all (SElemOrEnd, FArr vs # st) (CHR '']'' # t) = scan_all (deliver (JArr []) st) t"
  "scan_all (SKeyOrEnd, FObj kvs k # st) (CHR ''}'' # t) = scan_all (deliver (JObj []) st) t"
  by (simp_all add: step_def after_value_def is_space_def)

lemma scan_comma:
  "scan_all (SAfter, FArr vs # st) (CHR '','' # t) = scan_all (SValue, FArr vs # st) t"
  "scan_all (SAfter, FObj kvs k # st) (CHR '','' # t) = scan_all (SKey, FObj kvs k # st) t"
  by (simp_all add: step_def after_value_def is_space_def)

lemma scan_string:
  assumes "quotable r"
  shows "scan_all (SStr k [] NoEsc, st) (r @ dquote # t) = (case end_string k r st of None \<Rightarrow> None | Some sc \<Rightarrow> scan_all sc t)"
  using assms by (simp add: quotable_def) (simp add: step_def in_string_def)

lemma scan_str_value: "quotable r \<Longrightarrow> scan_all (SValue, st) (dquote # r @ dquote # t) = scan_all (deliver (JStr r) st) t"
  by (simp add: step_def is_space_def begin_value_def scan_string end_string_def)

lemma scan_key:
  assumes "quotable r" "ph = SKey \<or> ph = SKeyOrEnd"
  shows "scan_all (ph, FObj kvs k # st) (dquote # r @ dquote # CHR '':'' # t) = scan_all (SValue, FObj kvs r # st) t"
proof -
  have "scan_all (ph, FObj kvs k # st) (dquote # u) = scan_all (SStr True [] NoEsc, FObj kvs k # st) u" for u
    using assms(2) by (auto simp: step_def is_space_def)
  moreover have "scan_all (SColon, st') (CHR '':'' # t) = scan_all (SValue, st') t" for st'
    by (simp add: step_def is_space_def)
  ultimately show ?thesis using scan_string [OF assms(1)] by (simp add: end_string_def)
qed

text \<open>A number ends where a character that is none of its begins.\<close>

lemma scan_num:
  "list_all num_char p \<Longrightarrow> scan_all (SNum acc, st) (p @ t) = scan_all (SNum (rev p @ acc), st) t"
  by (induction p arbitrary: acc) (auto simp: step_def)

lemma scan_num_end:
  assumes "valid_number (rev acc)" "\<not> num_char c"
  shows "scan_all (SNum acc, st) (c # t) = scan_all (deliver (JNum (rev acc)) st) (c # t)"
  using assms by (auto simp: step_def deliver_def split: list.splits frame.splits)

lemma scan_num_value:
  assumes "wf_json n (JNum s)" "\<not> num_char c"
  shows "scan_all (SValue, st) (s @ c # t) = scan_all (deliver (JNum s) st) (c # t)"
proof -
  obtain d s' where s: "s = d # s'" "d = CHR ''-'' \<or> is_digit d" "list_all num_char s'" "valid_number s"
    using assms(1) by (cases s) auto
  have "step (SValue, st) d = Some (SNum [d], st)"
    using s(2) by (auto simp: step_def begin_value_def is_space_def is_digit_def)
  then show ?thesis
    using s scan_num [OF s(3), of "[d]" st "c # t"] scan_num_end [of "rev s" c st t] assms(2) by simp
qed

lemma scan_lit:
  "scan_all (SValue, st) (''null'' @ t) = scan_all (deliver JNull st) t"
  "scan_all (SValue, st) (''true'' @ t) = scan_all (deliver (JBool True) st) t"
  "scan_all (SValue, st) (''false'' @ t) = scan_all (deliver (JBool False) st) t"
  by (simp_all add: step_def begin_value_def is_space_def is_digit_def)

lemma delim: "\<not> num_char (CHR '','')" "\<not> num_char (CHR '']'')" "\<not> num_char (CHR ''}'')" "\<not> num_char (CHR '' '')"
  by (simp_all add: num_char_def is_digit_def)

definition reads :: "json \<Rightarrow> frame list \<Rightarrow> bool" where
  "reads v st \<longleftrightarrow> (\<forall>c t. \<not> num_char c \<longrightarrow> scan_all (SValue, st) (render v @ c # t) = scan_all (deliver v st) (c # t))"

lemma readsD: "reads v st \<Longrightarrow> \<not> num_char c \<Longrightarrow> scan_all (SValue, st) (render v @ c # t) = scan_all (deliver v st) (c # t)"
  by (simp add: reads_def)

lemma reads_elems:
  assumes "vs \<noteq> []" "\<And>v ws. v \<in> set vs \<Longrightarrow> reads v (FArr ws # st)"
  shows "scan_all (SValue, FArr ws # st) (str_join '','' (map render vs) @ '']'' @ t) = scan_all (deliver (JArr (rev ws @ vs)) st) t"
  using assms
proof (induction vs arbitrary: ws)
  case (Cons v vs)
  have v: "scan_all (SValue, FArr ws # st) (render v @ c # u) = scan_all (SAfter, FArr (v # ws) # st) (c # u)"
    if "\<not> num_char c" for c u
    using readsD [OF Cons.prems(2) that, of v ws u] by (simp add: deliver_def)
  show ?case
  proof (cases vs)
    case Nil
    then show ?thesis using v [OF delim(2), of t] scan_close(1) [of "v # ws" st t] by simp
  next
    case (Cons x xs)
    have "scan_all (SValue, FArr ws # st) (render v @ CHR '','' # u) = scan_all (SValue, FArr (v # ws) # st) u" for u
      by (simp only: v [OF delim(1)] scan_comma)
    then show ?thesis using Cons.IH [of "v # ws"] Cons.prems(2) \<open>vs = x # xs\<close> by simp
  qed
qed simp

lemma reads_members:
  assumes "kvs \<noteq> []" "\<And>kv ws k. kv \<in> set kvs \<Longrightarrow> quotable (fst kv) \<and> reads (snd kv) (FObj ws k # st)" "ph = SKey \<or> ph = SKeyOrEnd"
  shows "scan_all (ph, FObj ws k # st) (str_join '','' (map (\<lambda>kv. dquote # fst kv @ [dquote] @ '':'' @ render (snd kv)) kvs) @ ''}'' @ t)
    = scan_all (deliver (JObj (rev ws @ kvs)) st) t"
  using assms
proof (induction kvs arbitrary: ws k ph)
  case (Cons kv kvs)
  have q: "quotable (fst kv)" "reads (snd kv) (FObj ws (fst kv) # st)" using Cons.prems(2) by simp_all
  have v: "scan_all (ph, FObj ws k # st) (dquote # fst kv @ dquote # CHR '':'' # render (snd kv) @ c # u)
      = scan_all (SAfter, FObj (kv # ws) [] # st) (c # u)" if "\<not> num_char c" for c u
    using scan_key [OF q(1) Cons.prems(3)] readsD [OF q(2) that] by (simp add: deliver_def)
  show ?case
  proof (cases kvs)
    case Nil
    then show ?thesis using v [OF delim(3), of t] scan_close(2) [of "kv # ws" "[]" st t] by simp
  next
    case (Cons x xs)
    have "scan_all (ph, FObj ws k # st) (dquote # fst kv @ dquote # CHR '':'' # render (snd kv) @ CHR '','' # u)
        = scan_all (SKey, FObj (kv # ws) [] # st) u" for u
      by (simp only: v [OF delim(1)] scan_comma)
    then show ?thesis using Cons.IH [of SKey "kv # ws" "[]"] Cons.prems(2) \<open>kvs = x # xs\<close> by simp
  qed
qed simp

lemma render_start: "wf_json n v \<Longrightarrow> \<exists>c s. render v = c # s \<and> \<not> is_space c \<and> c \<noteq> CHR '']''"
  by (cases v) (auto simp: is_space_def is_digit_def neq_Nil_conv)

lemma scan_elem: "render v = c # s \<Longrightarrow> \<not> is_space c \<Longrightarrow> c \<noteq> CHR '']'' \<Longrightarrow>
    scan_all (SElemOrEnd, st) (render v @ t) = scan_all (SValue, st) (render v @ t)"
  by (simp add: step_def)

lemma reads_object:
  assumes "length st < max_depth" "\<And>kv ws k. kv \<in> set kvs \<Longrightarrow> quotable (fst kv) \<and> reads (snd kv) (FObj ws k # st)"
  shows "scan_all (SValue, st) (render (JObj kvs) @ t) = scan_all (deliver (JObj kvs) st) t"
proof (cases "kvs = []")
  case True
  then show ?thesis using scan_open(2) [OF assms(1)] scan_close(4) [of "[]" "[]" st] by simp
next
  case False
  then show ?thesis using scan_open(2) [OF assms(1)] reads_members [OF False assms(2), of SKeyOrEnd "[]" "[]" t] by simp
qed

lemma reads_render: "wf_json n v \<Longrightarrow> length st + n \<le> max_depth \<Longrightarrow> reads v st"
proof (induction v arbitrary: n st rule: json_induct)
  case (Arr vs)
  have "reads v (FArr ws # st)" if "v \<in> set vs" for v ws
    using Arr that by (intro Arr.IH [of _ "n - 1"]) auto
  note elems = reads_elems [OF _ this]
  have room: "length st < max_depth" using Arr.prems by auto
  have first: "scan_all (SElemOrEnd, FArr [] # st) (str_join '','' (map render vs) @ t) = scan_all (SValue, FArr [] # st) (str_join '','' (map render vs) @ t)"
    if "vs \<noteq> []" for t
  proof -
    obtain v vs' where vs: "vs = v # vs'" using \<open>vs \<noteq> []\<close> by (cases vs) auto
    then obtain c s where c: "render v = c # s" "\<not> is_space c" "c \<noteq> CHR '']''"
      using render_start [of "n - 1" v] Arr.prems(1) by auto
    have "\<exists>u. str_join '','' (map render vs) = render v @ u" using vs by (cases vs') auto
    then show ?thesis using scan_elem [OF c] by auto
  qed
  show ?case unfolding reads_def
  proof (intro allI impI)
    fix c t
    show "scan_all (SValue, st) (render (JArr vs) @ c # t) = scan_all (deliver (JArr vs) st) (c # t)"
    proof (cases "vs = []")
      case True
      then show ?thesis using scan_open(1) [OF room] scan_close(3) [of "[]" st] by simp
    next
      case False
      then show ?thesis using scan_open(1) [OF room] first [OF False] elems [OF False, of "[]" "c # t"] by simp
    qed
  qed
next
  case (Obj kvs)
  have "quotable (fst kv) \<and> reads (snd kv) (FObj ws k # st)" if "kv \<in> set kvs" for kv ws k
    using Obj that by (auto intro!: Obj.IH [of _ "n - 1"])
  note members = this
  have room: "length st < max_depth" using Obj.prems by auto
  show ?case unfolding reads_def using reads_object [OF room members] by blast
next
  case (Bool b)
  show ?case using scan_lit(2,3) [of st] by (cases b) (simp_all add: reads_def)
qed (use scan_lit(1) scan_str_value scan_num_value in \<open>auto simp: reads_def\<close>)

theorem parse_render_json:
  assumes "wf_json max_depth v"
  shows "parse_json (render v) = Some v"
proof -
  have "scan_all (SValue, []) (render v @ CHR '' '' # []) = scan_all (deliver v []) '' ''"
    using readsD [OF reads_render [OF assms, of "[]"] delim(4)] by simp
  also have "\<dots> = Some (SDone v, [])" by (simp add: deliver_def step_def after_value_def is_space_def)
  finally show ?thesis by (simp add: parse_json_def)
qed

text \<open>Written text has no control characters.\<close>

lemma str_join_all: "\<forall>c \<in> set sep. P c \<Longrightarrow> \<forall>s \<in> set xs. \<forall>c \<in> set s. P c \<Longrightarrow> \<forall>c \<in> set (str_join sep xs). P c"
  using set_str_join [of sep xs] by blast

lemma byte_val_punct: "byte_val CHR '','' = 44" "byte_val CHR ''['' = 91" "byte_val CHR '']'' = 93" "byte_val CHR ''{'' = 123"
    "byte_val CHR ''}'' = 125" "byte_val CHR '':'' = 58"
  by code_simp+

lemma num_char_printable: "num_char c \<Longrightarrow> 32 \<le> byte_val c"
proof -
  have "\<forall>x \<in> set ''+-.eE''. 32 \<le> byte_val x" by code_simp
  then show "num_char c \<Longrightarrow> 32 \<le> byte_val c" unfolding num_char_def by (auto simp: is_digit_def byte_val_def)
qed

lemma render_printable: "wf_json n v \<Longrightarrow> \<forall>c \<in> set (render v). 32 \<le> byte_val c"
proof (induction v arbitrary: n rule: json_induct)
  case Null
  show ?case by code_simp
next
  case (Bool b)
  have "\<forall>c \<in> set ''true''. 32 \<le> byte_val c" "\<forall>c \<in> set ''false''. 32 \<le> byte_val c" by code_simp+
  then show ?case by simp
next
  case (Num s)
  then show ?case by (auto simp: list_all_iff num_char_printable)
next
  case (Str r)
  then show ?case by (simp add: quotable_def byte_val_codes)
next
  case (Arr vs)
  have "\<forall>c \<in> set (str_join '','' (map render vs)). 32 \<le> byte_val c"
    by (rule str_join_all) (use Arr in \<open>auto simp: byte_val_punct\<close>)
  then show ?case by (simp add: byte_val_punct)
next
  case (Obj kvs)
  have "\<forall>c \<in> set (str_join '','' (map (\<lambda>kv. dquote # fst kv @ [dquote] @ '':'' @ render (snd kv)) kvs)). 32 \<le> byte_val c"
    by (rule str_join_all) (use Obj in \<open>fastforce simp: byte_val_punct byte_val_codes quotable_def\<close>)+
  then show ?case by (simp add: byte_val_punct)
qed

section \<open>The first value of a stream\<close>

lemma SDone_stays: "scan_all (SDone v, []) s = Some sc \<Longrightarrow> sc = (SDone v, [])"
  by (induction s) (auto simp: step_def after_value_def split: option.splits if_splits)

lemma deliver_SDone: "fst (deliver u st) = SDone v \<Longrightarrow> deliver u st = (SDone v, [])"
  by (auto simp: deliver_def split: list.splits frame.splits)

text \<open>A complete value has an empty stack.\<close>

definition done_empty :: "scan set" where
  "done_empty = {sc. \<forall>v. fst sc = SDone v \<longrightarrow> snd sc = []}"

lemma step_done_empty:
  assumes "sc \<in> done_empty" "step sc c = Some sc'"
  shows "sc' \<in> done_empty"
proof -
  have d: "deliver v st \<in> done_empty" for v st
    using deliver_SDone [of v st] by (auto simp: done_empty_def)
  have a: "r \<in> done_empty" if "after_value ph st c = Some r" "(ph, st) \<in> done_empty" for ph st r
    using that d by (auto simp: after_value_def done_empty_def split: if_splits list.splits frame.splits)
  have b: "r \<in> done_empty" if "begin_value c st = Some r" for st r
    using that by (auto simp: begin_value_def open_frame_def done_empty_def split: if_splits)
  have s: "r \<in> done_empty" if "in_string k acc e st c = Some r" for k acc e st r
    using that d by (auto simp: in_string_def end_string_def done_empty_def split: escape.splits if_splits list.splits frame.splits option.splits)
  obtain ph st where sc: "sc = (ph, st)" by fastforce
  show ?thesis
  proof (cases ph)
    case (SNum acc)
    obtain ph' st' where dl: "deliver (JNum (rev acc)) st = (ph', st')" by fastforce
    then show ?thesis
      using assms a [of ph' st' sc'] d [of "JNum (rev acc)" st] sc SNum
      by (auto simp: step_def done_empty_def split: if_splits)
  next
    case (SLit xs v)
    then show ?thesis using assms sc d by (auto simp: step_def done_empty_def split: list.splits if_splits)
  next
    case (SStr k acc e)
    then show ?thesis using assms s sc by (simp add: step_def)
  next
    case SAfter
    then show ?thesis using assms a [of SAfter st sc'] sc by (simp add: step_def done_empty_def)
  next
    case (SDone v)
    then show ?thesis using assms a [of "SDone v" st sc'] sc by (simp add: step_def)
  qed (use assms d b sc in \<open>auto simp: step_def done_empty_def split: if_splits\<close>)
qed

lemma scan_first_done:
  assumes "sc \<in> done_empty" "\<nexists>v. fst sc = SDone v" "scan_all sc s = Some (SDone v, st)" "composite v"
  shows "scan_first sc (s @ t) = Value v"
  using assms
proof (induction s arbitrary: sc)
  case (Cons c s)
  then obtain sc' where sc': "step sc c = Some sc'" "scan_all sc' s = Some (SDone v, st)" by (auto split: option.splits)
  have de: "sc' \<in> done_empty" by (rule step_done_empty [OF Cons.prems(1) sc'(1)])
  have fin: "u = v" if "fst sc' = SDone u" for u
  proof -
    have "sc' = (SDone u, [])" using that de by (cases sc') (simp add: done_empty_def)
    then show ?thesis using SDone_stays sc'(2) by fastforce
  qed
  have "ends_here sc c = None"
  proof (rule ccontr)
    assume "ends_here sc c \<noteq> None"
    then obtain acc where sc: "sc = (SNum acc, [])" "\<not> num_char c" using Cons.prems(2)
      by (auto simp: ends_here_def split: prod.splits phase.splits if_splits)
    then have "fst sc' = SDone (JNum (rev acc))"
      using sc'(1) by (auto simp: step_def deliver_def after_value_def split: if_splits)
    then show False using fin Cons.prems(4) by (force simp: composite_def)
  qed
  moreover have "scan_first sc' (s @ t) = Value v" if "\<nexists>v. fst sc' = SDone v"
    by (rule Cons.IH [OF de that sc'(2) Cons.prems(4)])
  ultimately show ?case using sc'(1) fin Cons.prems(4) by (auto split: phase.splits)
qed auto

text \<open>An object is complete at its closing brace, whatever follows.\<close>

theorem decode_stream_object:
  assumes "wf_json max_depth (JObj kvs)"
  shows "decode_stream (render (JObj kvs) @ t) eof = Value (JObj kvs)"
proof -
  have "quotable (fst kv) \<and> reads (snd kv) (FObj ws k # [])" if "kv \<in> set kvs" for kv ws k
    using assms that by (auto intro!: reads_render [of "max_depth - 1"])
  from reads_object [where kvs = kvs and st = "[]" and t = "[]", OF _ this] assms
  have "scan_all (SValue, []) (render (JObj kvs)) = Some (SDone (JObj kvs), [])"
    by (simp add: deliver_def del: render.simps)
  moreover have "(SValue, []) \<in> done_empty" by (simp add: done_empty_def)
  ultimately have "scan_first (SValue, []) (render (JObj kvs) @ u) = Value (JObj kvs)" for u
    by (intro scan_first_done [where st = "[]"]) (simp_all add: composite_def del: render.simps)
  then show ?thesis by (simp add: decode_stream_def del: render.simps)
qed

end
