(* ===== verification/GoRfc3339.thy ===== *)
theory GoRfc3339
  imports GoTime "HOL-Library.Monad_Syntax" "HOL-Library.Code_Target_Nat"
begin

text \<open>
  Times as text: \<open>time.Parse(time.RFC3339, s)\<close>, which both \<open>main\<close> functions and the JSON decoder
  of the standard library use, and the rendering that the JSON encoder uses. Parsing yields the
  instant together with the offset of its zone, in minutes east of UTC. The facts: rendering an
  instant in any zone and parsing it yields the instant and the zone, and a text that parses has
  all its numbers in range.
\<close>

section \<open>Parsing\<close>

definition digit_val :: "char \<Rightarrow> int" where
  "digit_val c = int (of_char c) - 48"

definition check :: "bool \<Rightarrow> unit option" where
  "check p = (if p then Some () else None)"

text \<open>\<open>skip\<close> of one character, \<open>getnum\<close> (one digit is enough unless \<open>fixed\<close>)\<close>

definition skip_char :: "char \<Rightarrow> string \<Rightarrow> string option" where
  "skip_char c s = (case s of [] \<Rightarrow> None | x # r \<Rightarrow> if x = c then Some r else None)"

definition getnum :: "bool \<Rightarrow> string \<Rightarrow> (int \<times> string) option" where
  "getnum fixed s =
     (case s of
        [] \<Rightarrow> None
      | a # r \<Rightarrow>
          if \<not> is_digit a then None
          else (case r of
                  b # r' \<Rightarrow> if is_digit b then Some (10 * digit_val a + digit_val b, r')
                            else if fixed then None else Some (digit_val a, r)
                | [] \<Rightarrow> if fixed then None else Some (digit_val a, r)))"

definition get_year :: "string \<Rightarrow> (int \<times> string) option" where
  "get_year s =
     (if 4 \<le> length s \<and> list_all is_digit (take 4 s) then Some (int (undec (take 4 s)), drop 4 s) else None)"

text \<open>
  \<open>parseNanoseconds\<close>: after the seconds, a comma or period and at least one digit; digits after
  the ninth are dropped.
\<close>

definition get_frac :: "string \<Rightarrow> int \<times> string" where
  "get_frac s =
     (case s of
        c # d # r \<Rightarrow>
          if (c = CHR ''.'' \<or> c = CHR '','') \<and> is_digit d
          then let ds = take 9 (takeWhile is_digit (d # r))
               in (int (undec ds) * 10 ^ (9 - length ds), dropWhile is_digit (d # r))
          else (0, s)
      | _ \<Rightarrow> (0, s))"

text \<open>The zone \<open>Z07:00\<close>, in minutes; 24 hours and 60 minutes are let through.\<close>

definition get_zone :: "string \<Rightarrow> (int \<times> string) option" where
  "get_zone s =
     (case s of
        [] \<Rightarrow> None
      | sg # r \<Rightarrow>
          if sg = CHR ''Z'' then Some (0, r)
          else do {
            check (6 \<le> length s \<and> s ! 3 = CHR '':'');
            (hr, _) \<leftarrow> getnum True (take 2 (drop 1 s));
            (mm, _) \<leftarrow> getnum True (take 2 (drop 4 s));
            check (hr \<le> 24 \<and> mm \<le> 60 \<and> (sg = CHR ''+'' \<or> sg = CHR ''-''));
            Some (if sg = CHR ''+'' then hr * 60 + mm else - (hr * 60 + mm), drop 6 s)
          })"

definition days_in :: "int \<Rightarrow> int \<Rightarrow> int" where
  "days_in m y = month_lens (leap_year y) ! nat (m - 1)"

text \<open>\<open>time.Date(...).Add(-offset)\<close>\<close>

definition instant :: "civil \<Rightarrow> int \<Rightarrow> int \<Rightarrow> int \<Rightarrow> int \<Rightarrow> int \<Rightarrow> time" where
  "instant c h mi s ns z =
     zero_time + day_of_civil c * day_ns + ((h * 60 + mi - z) * 60 + s) * second + ns"

definition parse_clock :: "string \<Rightarrow> ((civil \<times> int \<times> int \<times> int) \<times> string) option" where
  "parse_clock v = do {
     (y, v) \<leftarrow> get_year v;
     v \<leftarrow> skip_char (CHR ''-'') v;
     (m, v) \<leftarrow> getnum True v;
     check (0 < m \<and> m \<le> 12);
     v \<leftarrow> skip_char (CHR ''-'') v;
     (d, v) \<leftarrow> getnum True v;
     v \<leftarrow> skip_char (CHR ''T'') v;
     (h, v) \<leftarrow> getnum False v;
     check (h < 24);
     v \<leftarrow> skip_char (CHR '':'') v;
     (mi, v) \<leftarrow> getnum True v;
     check (mi < 60);
     v \<leftarrow> skip_char (CHR '':'') v;
     (s, v) \<leftarrow> getnum True v;
     check (s < 60);
     Some ((Civil y m d, h, mi, s), v)
   }"

text \<open>The day is compared with the length of the month only after the rest has been read.\<close>

definition ParseRFC3339 :: "string \<Rightarrow> (time \<times> int) option" where
  "ParseRFC3339 v = do {
     ((c, h, mi, s), v) \<leftarrow> parse_clock v;
     let (ns, v) = get_frac v in do {
       (z, v) \<leftarrow> get_zone v;
       check (v = [] \<and> 1 \<le> cday c \<and> cday c \<le> days_in (cmonth c) (cyear c));
       Some (instant c h mi s ns z, z)
     }
   }"

section \<open>Rendering\<close>

text \<open>\<open>appendNano\<close> with nine digits, the trailing zeros removed\<close>

definition format_nano :: "int \<Rightarrow> string" where
  "format_nano ns =
     (let ds = rev (dropWhile (\<lambda>c. c = CHR ''0'') (rev (pad_int 9 ns)))
      in if ds = [] then [] else CHR ''.'' # ds)"

definition format_zone :: "int \<Rightarrow> string" where
  "format_zone z =
     (if z = 0 then ''Z''
      else (if z < 0 then CHR ''-'' else CHR ''+'') # pad_int 2 (\<bar>z\<bar> div 60) @ '':'' @ pad_int 2 (\<bar>z\<bar> mod 60))"

definition format_clock :: "int \<Rightarrow> string" where
  "format_clock s = pad_int 2 (s div 3600) @ '':'' @ pad_int 2 (s div 60 mod 60) @ '':'' @ pad_int 2 (s mod 60)"

text \<open>\<open>appendFormatRFC3339(b, true)\<close> of an instant in the zone \<open>z\<close> (minutes)\<close>

definition local_time :: "int \<Rightarrow> time \<Rightarrow> time" where
  "local_time z t = t + z * 60 * second"

definition FormatRFC3339 :: "int \<Rightarrow> time \<Rightarrow> string" where
  "FormatRFC3339 z t =
     (let l = local_time z t; r = (l - zero_time) mod day_ns
      in format_date ''-'' l @ ''T'' @ format_clock (r div second) @ format_nano (r mod second) @ format_zone z)"

definition local_year :: "int \<Rightarrow> time \<Rightarrow> int" where
  "local_year z t = cyear (civil_of_day (day_number (local_time z t)))"

section \<open>Facts\<close>

lemma check_Some [simp]: "check p = Some u \<longleftrightarrow> p"
  by (simp add: check_def)

lemma check_bind [simp]: "check p \<bind> f = (if p then f () else None)"
  by (simp add: check_def)

lemma digit_val_digit: "n < 10 \<Longrightarrow> digit_val (digit n) = int n"
  by (simp add: digit_val_def of_char_digit)

lemma digit_val_range: "is_digit c \<Longrightarrow> 0 \<le> digit_val c \<and> digit_val c \<le> 9"
  by (auto simp: is_digit_def digit_val_def)

lemma skip_char_Cons [simp]: "skip_char c (c # r) = Some r"
  by (simp add: skip_char_def)

lemma pad2:
  assumes "0 \<le> i" "i < 100"
  shows "pad_int 2 i = [digit (nat i div 10), digit (nat i mod 10)]"
proof (cases "i < 10")
  case True
  moreover have "digit 0 = CHR ''0''" by code_simp
  moreover have "nat i < 10" using True by simp
  ultimately show ?thesis using assms by (simp add: pad_int_def Let_def dec.simps [of "nat i"])
next
  case False
  then have "\<not> nat i < 10" "nat i div 10 < 10" using assms by linarith+
  then have "dec (nat i) = [digit (nat i div 10), digit (nat i mod 10)]"
    by (simp add: dec.simps [of "nat i"] dec.simps [of "nat i div 10"])
  then show ?thesis using assms by (simp add: pad_int_def Let_def)
qed

lemma getnum_pad2:
  assumes "0 \<le> i" "i < 100"
  shows "getnum fixed (pad_int 2 i @ r) = Some (i, r)"
proof -
  have "int (10 * (nat i div 10) + nat i mod 10) = i" using assms by simp
  then have "10 * int (nat i div 10) + int (nat i mod 10) = i" by (simp only: of_nat_add of_nat_mult of_nat_numeral)
  then show ?thesis using assms by (simp add: pad2 getnum_def is_digit_digit digit_val_digit)
qed

lemma getnum_range: "getnum fixed s = Some (n, r) \<Longrightarrow> 0 \<le> n \<and> n < 100"
  by (auto simp: getnum_def split: list.splits if_splits dest!: digit_val_range)

lemma dec_length_le: "n < 10 ^ Suc k \<Longrightarrow> length (dec n) \<le> Suc k"
proof (induction k arbitrary: n)
  case (Suc k)
  show ?case
  proof (cases "n < 10")
    case False
    have "n div 10 < 10 ^ Suc k" using Suc.prems by (simp add: less_mult_imp_div_less)
    then show ?thesis using Suc.IH False by (simp add: dec.simps [of n])
  qed (simp add: dec.simps [of n])
next
  case 0
  then show ?case by (simp add: dec.simps [of n])
qed

lemma pad_int_pos: "0 \<le> i \<Longrightarrow> i < 10 ^ Suc k \<Longrightarrow> length (pad_int (Suc k) i) = Suc k"
  using dec_length_le [of "nat i" k] by (simp add: pad_int_def Let_def nat_less_iff)

lemma pad_int_digits: "0 \<le> i \<Longrightarrow> list_all is_digit (pad_int w i)"
  using dec_digits [of _ "nat i"] by (auto simp: pad_int_def Let_def list_all_iff is_digit_def)

lemma undec_pad_int: "0 \<le> i \<Longrightarrow> undec (pad_int w i) = nat i"
  by (simp add: pad_int_def Let_def undec_zeros)

lemma get_year_pad: "0 \<le> y \<Longrightarrow> y < 10000 \<Longrightarrow> get_year (pad_int 4 y @ r) = Some (y, r)"
  using pad_int_pos [of y 3] pad_int_digits [of y 4] by (simp add: get_year_def undec_pad_int)

subsection \<open>The fraction\<close>

lemma undec_append_zeros: "undec (s @ replicate k (CHR ''0'')) = undec s * 10 ^ k"
proof (induction k)
  case (Suc k)
  have "s @ replicate (Suc k) (CHR ''0'') = (s @ replicate k (CHR ''0'')) @ [CHR ''0'']"
    by (simp add: replicate_append_same)
  then show ?case using Suc by (simp only: undec_snoc) simp
qed simp

lemma strip_zeros:
  obtains k where "p = rev (dropWhile (\<lambda>c. c = z) (rev p)) @ replicate k z"
proof -
  have "rev p = takeWhile (\<lambda>c. c = z) (rev p) @ dropWhile (\<lambda>c. c = z) (rev p)" by simp
  moreover have "takeWhile (\<lambda>c. c = z) (rev p) = replicate (length (takeWhile (\<lambda>c. c = z) (rev p))) z"
    by (metis (mono_tags, lifting) replicate_length_same set_takeWhileD)
  ultimately have "p = rev (dropWhile (\<lambda>c. c = z) (rev p)) @ replicate (length (takeWhile (\<lambda>c. c = z) (rev p))) z"
    by (metis rev_append rev_replicate rev_rev_ident)
  then show ?thesis by (rule that)
qed

text \<open>The first character of what follows a fraction is no digit, comma or period.\<close>

lemma get_frac_format:
  assumes ns: "0 \<le> ns" "ns < 10 ^ 9" and r: "r \<noteq> []" "\<not> is_digit (hd r)" "hd r \<noteq> CHR ''.''" "hd r \<noteq> CHR '',''"
  shows "get_frac (format_nano ns @ r) = (ns, r)"
proof -
  let ?p = "pad_int 9 ns" and ?ds = "rev (dropWhile (\<lambda>c. c = CHR ''0'') (rev (pad_int 9 ns)))"
  obtain k where k: "?p = ?ds @ replicate k (CHR ''0'')" by (rule strip_zeros)
  have len: "length ?p = 9" using pad_int_pos [of ns 8] ns by simp
  then have lds: "length ?ds + k = 9" by (metis k length_append length_replicate)
  have val: "undec ?ds * 10 ^ k = nat ns" by (metis k undec_append_zeros undec_pad_int [OF ns(1)])
  have dig: "list_all is_digit ?ds"
    using pad_int_digits [OF ns(1), of 9] by (metis k list_all_append)
  obtain x xs where r': "r = x # xs" "\<not> is_digit x" "x \<noteq> CHR ''.''" "x \<noteq> CHR '',''"
    using r by (cases r) auto
  show ?thesis
  proof (cases "?ds = []")
    case True
    have "nat ns = undec [] * 10 ^ k" using val unfolding True by simp
    then have "ns = 0" using ns(1) by (simp add: undec_def)
    then show ?thesis using True r' by (cases xs) (simp_all add: format_nano_def get_frac_def)
  next
    case False
    then obtain d ds where ds: "?ds = d # ds" by (cases ?ds) auto
    have tw: "takeWhile is_digit (d # ds @ r) = d # ds" "dropWhile is_digit (d # ds @ r) = r"
      using dig ds r' takeWhile_append2 [of "d # ds" is_digit r] dropWhile_append2 [of "d # ds" is_digit r]
      by (simp_all add: list_all_iff)
    have k': "9 - length (d # ds) = k" "take 9 (d # ds) = d # ds" using lds ds by simp_all
    have "int (undec (d # ds) * 10 ^ k) = ns" unfolding val [unfolded ds] using ns(1) by simp
    then have "int (undec (take 9 (d # ds))) * 10 ^ (9 - length (take 9 (d # ds))) = ns"
      unfolding k' by (simp only: of_nat_mult of_nat_power of_nat_numeral)
    moreover have "is_digit d" using dig ds by simp
    ultimately show ?thesis
      using tw by (simp add: format_nano_def get_frac_def ds Let_def del: takeWhile.simps dropWhile.simps take_Suc_Cons)
  qed
qed

subsection \<open>Zone, clock and date\<close>

lemma get_zone_format:
  assumes "\<bar>z\<bar> < 1440"
  shows "get_zone (format_zone z) = Some (z, [])"
proof (cases "z = 0")
  case False
  let ?h = "\<bar>z\<bar> div 60" and ?m = "\<bar>z\<bar> mod 60"
  have r: "0 \<le> ?h" "?h < 24" "0 \<le> ?m" "?m < 60" using assms by (simp_all add: pos_imp_zdiv_nonneg_iff)
  have num: "getnum True (pad_int 2 ?h) = Some (?h, [])" "getnum True (pad_int 2 ?m) = Some (?m, [])"
    using r getnum_pad2 [of ?h True "[]"] getnum_pad2 [of ?m True "[]"] by simp_all
  obtain a b c d where hm: "pad_int 2 ?h = [a, b]" "pad_int 2 ?m = [c, d]" using r by (simp add: pad2)
  have "?h * 60 + ?m = \<bar>z\<bar>" by simp
  then show ?thesis
    using False r num unfolding hm format_zone_def get_zone_def by (auto simp: numeral_eq_Suc)
qed (simp add: format_zone_def get_zone_def)

lemma format_zone_hd: "format_zone z \<noteq> [] \<and> \<not> is_digit (hd (format_zone z)) \<and> hd (format_zone z) \<noteq> CHR ''.'' \<and> hd (format_zone z) \<noteq> CHR '',''"
  by (simp add: format_zone_def is_digit_def)

lemma month_day_in:
  "0 \<le> d \<Longrightarrow> d < sum_list ls \<Longrightarrow> month_day m ls d = (m', md) \<Longrightarrow> md \<le> ls ! nat (m' - m)"
proof (induction m ls d arbitrary: m' md rule: month_day.induct)
  case (2 m l ls d)
  show ?case
  proof (cases "d < l")
    case True
    then show ?thesis using 2 by auto
  next
    case False
    have rec: "0 \<le> d - l" "d - l < sum_list ls" "month_day (m + 1) ls (d - l) = (m', md)" using 2 False by auto
    have "m + 1 \<le> m'" using month_day_inverse [OF rec] by simp
    then have "nat (m' - m) = Suc (nat (m' - (m + 1)))" by simp
    then show ?thesis using 2(1) [OF False rec] by simp
  qed
qed auto

lemma civil_of_day_in_month:
  assumes "civil_of_day n = Civil y m d"
  shows "d \<le> days_in m y"
proof -
  obtain yd where yd: "year_yday n = (y, yd)" "month_day 1 (month_lens (leap_year y)) yd = (m, d)"
    using assms by (auto simp: civil_of_day_def Let_def split: prod.splits)
  have "0 \<le> yd" "yd < sum_list (month_lens (leap_year y))"
    using year_yday_bounds [OF yd(1)] by (auto simp: month_lens_sum)
  from month_day_in [OF this yd(2)] show ?thesis by (simp add: days_in_def)
qed

lemma split_nanos:
  fixes r :: int
  assumes "0 \<le> r" "r < day_ns"
  defines "s \<equiv> r div second"
  shows "0 \<le> s div 3600" "s div 3600 < 24" "0 \<le> s div 60 mod 60" "s div 60 mod 60 < 60"
    "0 \<le> s mod 60" "s mod 60 < 60" "0 \<le> r mod second" "r mod second < 10 ^ 9"
    "((s div 3600 * 60 + s div 60 mod 60) * 60 + s mod 60) * second + r mod second = r"
proof -
  have s: "0 \<le> s" "s < 86400" using assms by (simp_all add: second_def day_ns_def pos_imp_zdiv_nonneg_iff)
  then show "0 \<le> s div 3600" "s div 3600 < 24" "0 \<le> s div 60 mod 60" "s div 60 mod 60 < 60" "0 \<le> s mod 60" "s mod 60 < 60"
    by simp_all
  show "0 \<le> r mod second" "r mod second < 10 ^ 9" by (simp_all add: second_def)
  have "s div 3600 = s div 60 div 60" by (simp flip: zdiv_zmult2_eq)
  then have "s div 3600 * 60 + s div 60 mod 60 = s div 60" by simp
  moreover have "s div 60 * 60 + s mod 60 = s" by simp
  ultimately show "((s div 3600 * 60 + s div 60 mod 60) * 60 + s mod 60) * second + r mod second = r"
    by (simp add: s_def)
qed

lemma FormatRFC3339_not_Nil: "FormatRFC3339 z t \<noteq> []"
  by (simp add: FormatRFC3339_def Let_def)

lemma parse_parts:
  assumes "0 \<le> y" "y < 10000" "1 \<le> m" "m \<le> 12" "1 \<le> d" "d \<le> 31" "d \<le> days_in m y"
    and "0 \<le> h" "h < 24" "0 \<le> mi" "mi < 60" "0 \<le> s" "s < 60"
    and frac: "get_frac fr = (ns, zn)" and zone: "get_zone zn = Some (z, [])"
  shows "ParseRFC3339 (pad_int 4 y @ CHR ''-'' # pad_int 2 m @ CHR ''-'' # pad_int 2 d @ CHR ''T'' #
      pad_int 2 h @ CHR '':'' # pad_int 2 mi @ CHR '':'' # pad_int 2 s @ fr) = Some (instant (Civil y m d) h mi s ns z, z)"
proof -
  have "getnum True (pad_int 2 m @ r) = Some (m, r)" "getnum True (pad_int 2 d @ r) = Some (d, r)"
    "getnum False (pad_int 2 h @ r) = Some (h, r)" "getnum True (pad_int 2 mi @ r) = Some (mi, r)"
    "getnum True (pad_int 2 s @ r) = Some (s, r)" for r
    using assms(3-13) by (simp_all add: getnum_pad2)
  then show ?thesis
    using assms(3,4,5,7,9,11,13) unfolding ParseRFC3339_def parse_clock_def by (simp add: get_year_pad [OF assms(1,2)] frac zone)
qed

lemma parse_format_rfc3339:
  assumes year: "0 \<le> local_year z t" "local_year z t \<le> 9999" and z: "\<bar>z\<bar> < 1440"
  shows "ParseRFC3339 (FormatRFC3339 z t) = Some (t, z)"
proof -
  define l where "l = local_time z t"
  define r where "r = (l - zero_time) mod day_ns"
  have r: "0 \<le> r" "r < day_ns" by (simp_all add: r_def)
  note s = split_nanos [OF r]
  obtain y m d where c: "civil_of_day (day_number l) = Civil y m d" by (rule civil.exhaust)
  have y: "0 \<le> y" "y < 10000" using year c by (simp_all add: local_year_def l_def)
  have md: "1 \<le> m" "m \<le> 12" "1 \<le> d" "d \<le> 31" "d \<le> days_in m y"
    using civil_of_day_fields [OF c] civil_of_day_in_month [OF c] by simp_all
  let ?s = "r div second"
  have fmt: "FormatRFC3339 z t = pad_int 4 y @ CHR ''-'' # pad_int 2 m @ CHR ''-'' # pad_int 2 d @ CHR ''T'' #
      pad_int 2 (?s div 3600) @ CHR '':'' # pad_int 2 (?s div 60 mod 60) @ CHR '':'' # pad_int 2 (?s mod 60)
      @ format_nano (r mod second) @ format_zone z"
    by (simp add: FormatRFC3339_def Let_def format_date_def c format_clock_def flip: l_def r_def)
  have frac: "get_frac (format_nano (r mod second) @ format_zone z) = (r mod second, format_zone z)"
    using format_zone_hd by (intro get_frac_format s(7,8)) auto
  have day: "day_of_civil (Civil y m d) = day_number l" using day_of_civil_of_day [of "day_number l"] c by simp
  have "l = zero_time + day_number l * day_ns + r"
    by (simp add: r_def day_number_def)
  then have "instant (Civil y m d) (?s div 3600) (?s div 60 mod 60) (?s mod 60) (r mod second) z = t"
    using s(9) by (simp add: instant_def day l_def local_time_def algebra_simps)
  then show ?thesis
    unfolding fmt using parse_parts [OF y md s(1-6) frac get_zone_format [OF z]] by simp
qed

subsection \<open>Dates of the calendar\<close>

lemma div_step:
  fixes n k :: int
  assumes "0 < k"
  shows "(n + 1) div k = n div k + (if (n + 1) mod k = 0 then 1 else 0)"
proof -
  have r: "n = k * (n div k) + n mod k" "0 \<le> n mod k" "n mod k < k" using assms by simp_all
  show ?thesis
  proof (cases "n mod k + 1 = k")
    case True
    then have "n + 1 = k * (n div k + 1)" using r(1) unfolding distrib_left by linarith
    then have "(n + 1) div k = n div k + 1" "(n + 1) mod k = 0" using assms by (metis less_irrefl nonzero_mult_div_cancel_left, metis mod_mult_self1_is_0)
    then show ?thesis by simp
  next
    case False
    have "(n + 1) div k = n div k" by (rule int_div_pos_eq [of _ _ _ "n mod k + 1"]) (use r False in auto)
    moreover have "(n + 1) mod k = n mod k + 1" by (rule int_mod_pos_eq [of _ _ "n div k"]) (use r False in auto)
    ultimately show ?thesis using r(2) by simp
  qed
qed

definition year_start :: "int \<Rightarrow> int" where
  "year_start y = 365 * (y - 1) + (y - 1) div 4 - (y - 1) div 100 + (y - 1) div 400"

lemma year_start_Suc: "year_start (y + 1) = year_start y + (if leap_year y then 366 else 365)"
proof -
  have "y mod 100 mod 4 = y mod 4" "y mod 400 mod 100 = y mod 100" by (simp_all add: mod_mod_cancel)
  then have m: "y mod 100 = 0 \<Longrightarrow> y mod 4 = 0" "y mod 400 = 0 \<Longrightarrow> y mod 100 = 0" by auto
  have d: "y div 4 = (y - 1) div 4 + (if y mod 4 = 0 then 1 else 0)"
    "y div 100 = (y - 1) div 100 + (if y mod 100 = 0 then 1 else 0)"
    "y div 400 = (y - 1) div 400 + (if y mod 400 = 0 then 1 else 0)"
    by (rule div_step [of _ "y - 1", unfolded diff_add_cancel], simp)+
  have eq: "year_start (y + 1) = 365 * y + y div 4 - y div 100 + y div 400" by (simp add: year_start_def)
  have aux: "365 * y + (p + (if a then 1 else 0)) - (q + (if b then 1 else 0)) + (r + (if c then 1 else 0))
      = 365 * (y - 1) + p - q + r + (if a \<and> (\<not> b \<or> c) then 366 else 365)"
    if "b \<Longrightarrow> a" "c \<Longrightarrow> b" for a b c and p q r :: int using that by (cases a; cases b; cases c) auto
  show ?thesis unfolding eq d leap_year_def year_start_def [of y] by (rule aux [OF m])
qed


lemma year_start_mono: "y + 1 \<le> y' \<Longrightarrow> year_start (y + 1) \<le> year_start y'"
proof (induction "nat (y' - (y + 1))" arbitrary: y')
  case (Suc n)
  then have "year_start (y + 1) \<le> year_start (y' - 1)" by simp
  moreover have "year_start (y' - 1) \<le> year_start y'" using year_start_Suc [of "y' - 1"] by simp
  ultimately show ?case by simp
qed simp

text \<open>A date of the calendar, its day of the year and back.\<close>

definition date_ok :: "civil \<Rightarrow> bool" where
  "date_ok c \<longleftrightarrow> 1 \<le> cmonth c \<and> cmonth c \<le> 12 \<and> 1 \<le> cday c \<and> cday c \<le> days_in (cmonth c) (cyear c)"

lemma month_day_days_before:
  "1 \<le> k \<Longrightarrow> nat k \<le> length ls \<Longrightarrow> \<forall>l \<in> set ls. 0 \<le> l \<Longrightarrow> 1 \<le> d \<Longrightarrow> d \<le> ls ! nat (k - 1) \<Longrightarrow>
   month_day m ls (days_before ls k + d - 1) = (m + k - 1, d)
   \<and> 0 \<le> days_before ls k \<and> days_before ls k + d \<le> sum_list ls"
proof (induction ls arbitrary: m k)
  case (Cons l ls)
  show ?case
  proof (cases "k = 1")
    case True
    have "0 \<le> sum_list ls" using Cons.prems(3) by (intro sum_list_nonneg) simp
    then show ?thesis using Cons.prems True by simp
  next
    case False
    then have k: "1 \<le> k - 1" "nat (k - 1) \<le> length ls" "nat (k - 1) = Suc (nat (k - 1 - 1))" using Cons.prems(1,2) by auto
    have "\<forall>l \<in> set ls. 0 \<le> l" "d \<le> ls ! nat (k - 1 - 1)" using Cons.prems(3,5) k(3) by auto
    from Cons.IH [OF k(1,2) this(1) Cons.prems(4) this(2), of "m + 1"] show ?thesis
      using False Cons.prems(1,3,4) by (auto simp: algebra_simps)
  qed
qed simp

lemma day_of_civil_eq:
  "day_of_civil c = year_start (cyear c) + days_before (month_lens (leap_year (cyear c))) (cmonth c) + cday c - 1"
  by (simp add: day_of_civil_def year_start_def Let_def)

lemma date_ok_yday:
  assumes "date_ok c"
  shows "month_day 1 (month_lens (leap_year (cyear c))) (day_of_civil c - year_start (cyear c)) = (cmonth c, cday c)"
    and "year_start (cyear c) \<le> day_of_civil c" "day_of_civil c < year_start (cyear c + 1)"
proof -
  let ?ls = "month_lens (leap_year (cyear c))"
  have ls: "length ?ls = 12" "\<forall>l \<in> set ?ls. 0 \<le> l" "nat (cmonth c) \<le> 12"
    using assms by (auto simp: month_lens_def date_ok_def)
  have d: "day_of_civil c - year_start (cyear c) = days_before ?ls (cmonth c) + cday c - 1" by (simp add: day_of_civil_eq)
  note md = month_day_days_before [of "cmonth c" ?ls "cday c" 1]
  show "month_day 1 ?ls (day_of_civil c - year_start (cyear c)) = (cmonth c, cday c)"
    using md ls assms unfolding d by (simp add: date_ok_def days_in_def)
  show "year_start (cyear c) \<le> day_of_civil c" "day_of_civil c < year_start (cyear c + 1)"
    using md ls assms d by (simp_all add: date_ok_def days_in_def year_start_Suc month_lens_sum)
qed

lemma date_ok_civil_of_day: "date_ok (civil_of_day n)"
proof -
  obtain y m d where "civil_of_day n = Civil y m d" by (rule civil.exhaust)
  then show ?thesis using civil_of_day_fields civil_of_day_in_month by (fastforce simp: date_ok_def)
qed

lemma day_of_civil_inj:
  assumes "date_ok c" "date_ok e" "day_of_civil c = day_of_civil e"
  shows "c = e"
proof -
  note c = date_ok_yday [OF assms(1)] and e = date_ok_yday [OF assms(2)]
  have "\<not> cyear c + 1 \<le> cyear e" "\<not> cyear e + 1 \<le> cyear c"
    using year_start_mono [of "cyear c" "cyear e"] year_start_mono [of "cyear e" "cyear c"] c(2,3) e(2,3) assms(3) by auto
  then have y: "cyear c = cyear e" by simp
  then have "cmonth c = cmonth e \<and> cday c = cday e" using c(1) e(1) assms(3) by simp
  with y show ?thesis by (simp add: civil.expand)
qed

lemma civil_of_day_of_civil: "date_ok c \<Longrightarrow> civil_of_day (day_of_civil c) = c"
  by (rule day_of_civil_inj) (simp_all add: date_ok_civil_of_day day_of_civil_of_day)

subsection \<open>What a text that parses says\<close>

lemma undec_bound: "list_all is_digit ds \<Longrightarrow> undec ds < 10 ^ length ds"
proof (induction ds rule: rev_induct)
  case (snoc c ds)
  then have "undec ds + 1 \<le> 10 ^ length ds" "of_char c - 48 \<le> (9 :: nat)" by (auto simp: is_digit_def)
  then show ?case by (simp add: undec_snoc)
qed (simp add: undec_def)

lemma get_year_range:
  assumes "get_year s = Some (y, r)"
  shows "0 \<le> y \<and> y \<le> 9999"
proof -
  have "undec (take 4 s) < 10 ^ 4" "y = int (undec (take 4 s))"
    using assms undec_bound [of "take 4 s"] by (auto simp: get_year_def min_def split: if_splits)
  then show ?thesis by simp
qed

lemma get_frac_range:
  assumes "get_frac s = (ns, r)"
  shows "0 \<le> ns \<and> ns < 10 ^ 9"
proof (cases "ns = 0")
  case False
  then obtain x where x: "ns = int (undec (take 9 (takeWhile is_digit x))) * 10 ^ (9 - length (take 9 (takeWhile is_digit x)))"
    using assms by (auto simp: get_frac_def Let_def simp del: take_Suc_Cons takeWhile.simps length_take split: list.splits if_splits)
  define ds where "ds = take 9 (takeWhile is_digit x)"
  have ds: "ns = int (undec ds) * 10 ^ (9 - length ds)" "length ds \<le> 9" "list_all is_digit ds"
    using x by (auto simp: ds_def list_all_iff dest!: in_set_takeD set_takeWhileD)
  have "int (undec ds) < 10 ^ length ds" using undec_bound [OF ds(3)] by (metis of_nat_less_iff of_nat_numeral of_nat_power)
  then have "ns < 10 ^ length ds * 10 ^ (9 - length ds)" using ds(1) by simp
  then show ?thesis using ds by (simp flip: power_add)
qed simp

lemma get_zone_range:
  assumes "get_zone s = Some (z, r)"
  shows "\<bar>z\<bar> \<le> 1500"
proof -
  have "\<bar>z\<bar> \<le> 1500" if "getnum True a = Some (hr, x)" "getnum True b = Some (mm, y)" "hr \<le> 24" "mm \<le> 60"
      "z = hr * 60 + mm \<or> z = - (hr * 60 + mm)" for a b x y hr mm
    using that getnum_range [OF that(1)] getnum_range [OF that(2)] by auto
  then show ?thesis
    using assms by (auto simp: get_zone_def split: list.splits if_splits Option.bind_splits)
qed

lemma parse_rfc3339_parts:
  assumes "ParseRFC3339 v = Some (t, z)"
  obtains y m d h mi s ns where "t = instant (Civil y m d) h mi s ns z" "0 \<le> y" "y \<le> 9999" "date_ok (Civil y m d)"
    "0 \<le> h" "h < 24" "0 \<le> mi" "mi < 60" "0 \<le> s" "s < 60" "0 \<le> ns" "ns < 10 ^ 9" "\<bar>z\<bar> \<le> 1500"
proof -
  obtain c h mi s v11 where clock: "parse_clock v = Some ((c, h, mi, s), v11)"
    using assms by (auto simp: ParseRFC3339_def bind_eq_Some_conv)
  obtain ns v12 where frac: "get_frac v11 = (ns, v12)" by fastforce
  obtain v13 where zone: "get_zone v12 = Some (z, v13)" "1 \<le> cday c" "cday c \<le> days_in (cmonth c) (cyear c)"
    and t: "t = instant c h mi s ns z"
    using assms clock frac by (auto simp: ParseRFC3339_def bind_eq_Some_conv split: if_splits)
  obtain y m d v0 v1 v2 v3 v4 v5 v6 v7 v8 v9 v10 where c: "c = Civil y m d" and
    p: "get_year v0 = Some (y, v1)" "getnum True v2 = Some (m, v3)" "0 < m" "m \<le> 12" "getnum True v4 = Some (d, v5)"
      "getnum False v6 = Some (h, v7)" "h < 24" "getnum True v8 = Some (mi, v9)" "mi < 60" "getnum True v10 = Some (s, v11)" "s < 60"
    using clock by (auto simp: parse_clock_def bind_eq_Some_conv split: if_splits)
  note r = get_year_range [OF p(1)] getnum_range [OF p(2)] getnum_range [OF p(5)] getnum_range [OF p(6)]
    getnum_range [OF p(8)] getnum_range [OF p(10)] get_frac_range [OF frac] get_zone_range [OF zone(1)]
  show ?thesis
    by (rule that [OF t [unfolded c]]) (use p r zone(2,3) in \<open>simp_all add: date_ok_def c\<close>)
qed

lemma parse_rfc3339_range:
  assumes "ParseRFC3339 v = Some (t, z)"
  shows "0 \<le> local_year z t \<and> local_year z t \<le> 9999 \<and> \<bar>z\<bar> \<le> 1500"
proof -
  obtain y m d h mi s ns where p: "t = instant (Civil y m d) h mi s ns z" "0 \<le> y" "y \<le> 9999" "date_ok (Civil y m d)"
    "0 \<le> h" "h < 24" "0 \<le> mi" "mi < 60" "0 \<le> s" "s < 60" "0 \<le> ns" "ns < 10 ^ 9" "\<bar>z\<bar> \<le> 1500"
    by (rule parse_rfc3339_parts [OF assms])
  let ?r = "((h * 60 + mi) * 60 + s) * second + ns"
  have "(h * 60 + mi) * 60 + s \<le> 86399" unfolding distrib_right using p(5-10) by linarith
  then have "((h * 60 + mi) * 60 + s) * second \<le> 86399 * second" by (intro mult_right_mono) (simp_all add: second_def)
  then have r: "0 \<le> ?r" "?r < day_ns" using p(5-12) by (simp_all add: day_ns_def second_def)
  have "local_time z t - zero_time = day_of_civil (Civil y m d) * day_ns + ?r"
    by (simp add: p(1) local_time_def instant_def algebra_simps)
  then have "day_number (local_time z t) = day_of_civil (Civil y m d)"
    unfolding day_number_def by (intro int_div_pos_eq [of _ _ _ ?r]) (use r in simp_all)
  then show ?thesis using p(2,3,13) civil_of_day_of_civil [OF p(4)] by (simp add: local_year_def)
qed

end
