(* ===== verification/JsonCodec.thy ===== *)
theory JsonCodec
  imports JsonText GoRfc3339 ChunkCodec
begin

text \<open>
  What \<open>encoding/json\<close> makes of sigyn's types: the struct tags of \<open>LogEntry\<close>, \<open>ChunkIndex\<close> and of the
  request bodies, encoded field by field and decoded as the reflection of the package does it:
  names match whatever their case, unknown ones are skipped, \<open>null\<close> leaves a field alone, a value
  of another type is an error, and a slice that is decoded twice reuses its elements. The facts:
  every entry and index record whose times can be written decodes to itself, so that the contract
  \<open>codec\<close> holds of these definitions, and a client's entries arrive as they were sent.
\<close>

section \<open>Decoding into Go values\<close>

text \<open>\<open>foldName\<close>: upper case, with the two other runes that fold to ASCII, U+017F and U+212A.\<close>

definition upper_char :: "char \<Rightarrow> char" where
  "upper_char c = (if 97 \<le> byte_val c \<and> byte_val c \<le> 122 then char_of (byte_val c - 32) else c)"

function fold_name :: "string \<Rightarrow> string" where
  "fold_name [] = []"
| "fold_name (c # s) =
     (if take 2 (c # s) = map char_of [0xC5, 0xBF :: nat] then CHR ''S'' # fold_name (drop 1 s)
      else if take 3 (c # s) = map char_of [0xE2, 0x84, 0xAA :: nat] then CHR ''K'' # fold_name (drop 2 s)
      else upper_char c # fold_name s)"
  by pat_completeness auto
termination by (relation "measure length") (auto simp: less_Suc_eq_le)

definition into_string :: "json \<Rightarrow> string \<Rightarrow> string option" where
  "into_string v old = (case v of JNull \<Rightarrow> Some old | JStr r \<Rightarrow> Some (unquote r) | _ \<Rightarrow> None)"

text \<open>\<open>Time.UnmarshalJSON\<close>, which does not unquote\<close>

definition into_time :: "json \<Rightarrow> time \<times> int \<Rightarrow> (time \<times> int) option" where
  "into_time v old = (case v of JNull \<Rightarrow> Some old | JStr r \<Rightarrow> ParseRFC3339 r | _ \<Rightarrow> None)"

text \<open>\<open>strconv.ParseInt(s, 10, 64)\<close> of a number literal\<close>

definition into_int :: "json \<Rightarrow> int \<Rightarrow> int option" where
  "into_int v old =
     (case v of
        JNull \<Rightarrow> Some old
      | JNum s \<Rightarrow>
          (let neg = (s \<noteq> [] \<and> hd s = CHR ''-''); ds = (if neg then tl s else s);
               n = (if neg then - int (undec ds) else int (undec ds))
           in if list_all is_digit ds \<and> - (2 ^ 63) \<le> n \<and> n < 2 ^ 63 then Some n else None)
      | _ \<Rightarrow> None)"

text \<open>A map: \<open>null\<close> sets it to nil, an object is merged into it.\<close>

fun into_pairs :: "(string \<times> json) list \<Rightarrow> labels \<Rightarrow> labels option" where
  "into_pairs [] m = Some m"
| "into_pairs ((k, v) # kvs) m =
     (case into_string v '''' of None \<Rightarrow> None | Some x \<Rightarrow> into_pairs kvs (lput (unquote k) x m))"

definition into_labels :: "json \<Rightarrow> labels \<Rightarrow> labels option" where
  "into_labels v old = (case v of JNull \<Rightarrow> Some [] | JObj kvs \<Rightarrow> into_pairs kvs old | _ \<Rightarrow> None)"

text \<open>
  A slice: its backing array with what is beyond its length, and its length. An element is
  decoded into what is there.
\<close>

fun into_elems :: "(json \<Rightarrow> 'a \<Rightarrow> 'a option) \<Rightarrow> 'a \<Rightarrow> json list \<Rightarrow> 'a list \<Rightarrow> 'a list option" where
  "into_elems dcd zero [] bk = Some bk"
| "into_elems dcd zero (v # vs) bk =
     (case dcd v (case bk of [] \<Rightarrow> zero | x # _ \<Rightarrow> x) of
        None \<Rightarrow> None
      | Some y \<Rightarrow> (case into_elems dcd zero vs (tl bk) of None \<Rightarrow> None | Some ys \<Rightarrow> Some (y # ys)))"

definition into_slice ::
  "(json \<Rightarrow> 'a \<Rightarrow> 'a option) \<Rightarrow> 'a \<Rightarrow> json \<Rightarrow> 'a list \<times> nat \<Rightarrow> ('a list \<times> nat) option" where
  "into_slice dcd zero v old =
     (case v of
        JNull \<Rightarrow> Some ([], 0)
      | JArr vs \<Rightarrow>
          if vs = [] then Some ([], 0)
          else (case into_elems dcd zero vs (fst old) of None \<Rightarrow> None | Some bk \<Rightarrow> Some (bk, length vs))
      | _ \<Rightarrow> None)"

text \<open>A struct, given how a field is set by its folded name.\<close>

fun into_fields :: "(string \<Rightarrow> json \<Rightarrow> 'a \<Rightarrow> 'a option) \<Rightarrow> (string \<times> json) list \<Rightarrow> 'a \<Rightarrow> 'a option" where
  "into_fields fld [] x = Some x"
| "into_fields fld ((k, v) # kvs) x =
     (case fld (fold_name (unquote k)) v x of None \<Rightarrow> None | Some y \<Rightarrow> into_fields fld kvs y)"

definition into_struct :: "(string \<Rightarrow> json \<Rightarrow> 'a \<Rightarrow> 'a option) \<Rightarrow> json \<Rightarrow> 'a \<Rightarrow> 'a option" where
  "into_struct fld v x = (case v of JNull \<Rightarrow> Some x | JObj kvs \<Rightarrow> into_fields fld kvs x | _ \<Rightarrow> None)"

section \<open>Log entries\<close>

text \<open>\<open>Time.MarshalJSON\<close>: years of four digits, zone hours below 24\<close>

definition time_error :: "time \<Rightarrow> int \<Rightarrow> err option" where
  "time_error t z =
     (if local_year z t < 0 \<or> 9999 < local_year z t
      then Some ''json: error calling MarshalJSON for type time.Time: Time.MarshalJSON: year outside of range [0,9999]''
      else if 24 * 60 \<le> \<bar>z\<bar>
      then Some ''json: error calling MarshalJSON for type time.Time: Time.MarshalJSON: timezone hour outside of range [0,23]''
      else None)"

abbreviation quoted :: "string \<Rightarrow> json" where
  "quoted s \<equiv> JStr (quote_bytes s)"

definition labels_json :: "labels \<Rightarrow> json" where
  "labels_json m = JObj (map (\<lambda>kv. (quote_bytes (fst kv), quoted (snd kv))) m)"

definition entry_json :: "LogEntry \<Rightarrow> json" where
  "entry_json e = JObj
     ([(''timestamp'', JStr (FormatRFC3339 (TZ e) (Timestamp e))), (''service'', quoted (Service e)),
       (''level'', quoted (Level e)), (''message'', quoted (Message e))]
      @ (if Labels e = [] then [] else [(''labels'', labels_json (Labels e))]))"

definition marshal_entry :: "LogEntry \<Rightarrow> bytes result" where
  "marshal_entry e =
     (case time_error (Timestamp e) (TZ e) of Some er \<Rightarrow> Inl er | None \<Rightarrow> Inr (render (entry_json e)))"

definition entry_field :: "string \<Rightarrow> json \<Rightarrow> LogEntry \<Rightarrow> LogEntry option" where
  "entry_field nm v e =
     (if nm = ''TIMESTAMP'' then map_option (\<lambda>(t, z). e\<lparr>Timestamp := t, TZ := z\<rparr>) (into_time v (Timestamp e, TZ e))
      else if nm = ''SERVICE'' then map_option (\<lambda>s. e\<lparr>Service := s\<rparr>) (into_string v (Service e))
      else if nm = ''LEVEL'' then map_option (\<lambda>s. e\<lparr>Level := s\<rparr>) (into_string v (Level e))
      else if nm = ''MESSAGE'' then map_option (\<lambda>s. e\<lparr>Message := s\<rparr>) (into_string v (Message e))
      else if nm = ''LABELS'' then map_option (\<lambda>m. e\<lparr>Labels := m\<rparr>) (into_labels v (Labels e))
      else Some e)"

definition zero_entry :: LogEntry where
  "zero_entry = \<lparr>Timestamp = zero_time, TZ = 0, Service = '''', Level = '''', Message = '''', Labels = []\<rparr>"

definition unmarshal_entry :: "bytes \<Rightarrow> LogEntry option" where
  "unmarshal_entry s = (case parse_json s of None \<Rightarrow> None | Some v \<Rightarrow> into_struct entry_field v zero_entry)"

section \<open>Index records\<close>

text \<open>The zones of the two times are those of the entries they come from: an argument.\<close>

definition index_json :: "int \<times> int \<Rightarrow> ChunkIndex \<Rightarrow> json" where
  "index_json zs i = JObj
     [(''chunk_key'', quoted (ix_ChunkKey i)), (''service'', quoted (ix_Service i)),
      (''min_time'', JStr (FormatRFC3339 (fst zs) (ix_MinTime i))), (''max_time'', JStr (FormatRFC3339 (snd zs) (ix_MaxTime i))),
      (''label_sets'', JArr (map labels_json (ix_LabelSets i))), (''entry_count'', JNum (show_int (ix_EntryCount i))),
      (''size_bytes'', JNum (show_int (ix_SizeBytes i))), (''compression'', quoted (ix_Compression i))]"

definition marshal_index :: "(ChunkIndex \<Rightarrow> int \<times> int) \<Rightarrow> ChunkIndex \<Rightarrow> bytes result" where
  "marshal_index zones i =
     (case time_error (ix_MinTime i) (fst (zones i)) of
        Some er \<Rightarrow> Inl er
      | None \<Rightarrow> (case time_error (ix_MaxTime i) (snd (zones i)) of
                   Some er \<Rightarrow> Inl er
                 | None \<Rightarrow> Inr (render (index_json (zones i) i))))"

text \<open>The record, with the backing array of its label sets.\<close>

definition index_field :: "string \<Rightarrow> json \<Rightarrow> ChunkIndex \<times> labels list \<Rightarrow> (ChunkIndex \<times> labels list) option" where
  "index_field nm v st =
     (case st of (i, bk) \<Rightarrow>
        if nm = ''CHUNK_KEY'' then map_option (\<lambda>s. (i\<lparr>ix_ChunkKey := s\<rparr>, bk)) (into_string v (ix_ChunkKey i))
        else if nm = ''SERVICE'' then map_option (\<lambda>s. (i\<lparr>ix_Service := s\<rparr>, bk)) (into_string v (ix_Service i))
        else if nm = ''MIN_TIME'' then map_option (\<lambda>(t, _). (i\<lparr>ix_MinTime := t\<rparr>, bk)) (into_time v (ix_MinTime i, 0))
        else if nm = ''MAX_TIME'' then map_option (\<lambda>(t, _). (i\<lparr>ix_MaxTime := t\<rparr>, bk)) (into_time v (ix_MaxTime i, 0))
        else if nm = ''LABEL_SETS''
        then map_option (\<lambda>(bk', n). (i\<lparr>ix_LabelSets := take n bk'\<rparr>, bk')) (into_slice into_labels [] v (bk, length (ix_LabelSets i)))
        else if nm = ''ENTRY_COUNT'' then map_option (\<lambda>n. (i\<lparr>ix_EntryCount := n\<rparr>, bk)) (into_int v (ix_EntryCount i))
        else if nm = ''SIZE_BYTES'' then map_option (\<lambda>n. (i\<lparr>ix_SizeBytes := n\<rparr>, bk)) (into_int v (ix_SizeBytes i))
        else if nm = ''COMPRESSION'' then map_option (\<lambda>s. (i\<lparr>ix_Compression := s\<rparr>, bk)) (into_string v (ix_Compression i))
        else Some st)"

definition zero_index :: ChunkIndex where
  "zero_index =
     \<lparr>ix_ChunkKey = '''', ix_Service = '''', ix_MinTime = zero_time, ix_MaxTime = zero_time, ix_LabelSets = [],
      ix_EntryCount = 0, ix_SizeBytes = 0, ix_Compression = ''''\<rparr>"

definition unmarshal_index :: "bytes \<Rightarrow> ChunkIndex option" where
  "unmarshal_index s =
     (case parse_json s of None \<Rightarrow> None | Some v \<Rightarrow> map_option fst (into_struct index_field v (zero_index, [])))"

section \<open>Request bodies\<close>

text \<open>
  \<open>json.NewDecoder(r.Body).Decode\<close>: the first value of the body, decoded; a failing read that
  comes first is the error. \<open>msg\<close> is the text of all other errors.
\<close>

definition decode_body ::
  "(bytes \<Rightarrow> err) \<Rightarrow> (json \<Rightarrow> 'a option) \<Rightarrow> bytes \<Rightarrow> err option \<Rightarrow> 'a result" where
  "decode_body msg dcd body rerr =
     (case decode_stream body (rerr = None) of
        Value v \<Rightarrow> (case dcd v of None \<Rightarrow> Inl (msg body) | Some x \<Rightarrow> Inr x)
      | Syntax \<Rightarrow> Inl (msg body)
      | Truncated \<Rightarrow> Inl (case rerr of None \<Rightarrow> msg body | Some er \<Rightarrow> er))"

text \<open>\<open>logRequest\<close>: the entries, as the backing array and the length of the slice.\<close>

definition request_field :: "string \<Rightarrow> json \<Rightarrow> LogEntry list \<times> nat \<Rightarrow> (LogEntry list \<times> nat) option" where
  "request_field nm v es =
     (if nm = ''ENTRIES'' then into_slice (into_struct entry_field) zero_entry v es else Some es)"

definition logRequest :: "json \<Rightarrow> LogEntry list option" where
  "logRequest v = map_option (\<lambda>(bk, n). take n bk) (into_struct request_field v ([], 0))"

section \<open>What is written is well formed\<close>

lemma plain_text: "\<forall>c \<in> set p. is_digit c \<or> c \<in> set ''-+:.TZ'' \<Longrightarrow> quotable p"
proof (rule quotable_plains)
  assume a: "\<forall>c \<in> set p. is_digit c \<or> c \<in> set ''-+:.TZ''"
  have marks: "\<forall>c \<in> set ''-+:.TZ''. c \<noteq> dquote \<and> c \<noteq> backslash \<and> 32 \<le> byte_val c" by code_simp
  have digits: "c \<noteq> dquote \<and> c \<noteq> backslash \<and> 32 \<le> byte_val c" if "is_digit c" for c
    using that by (auto simp: is_digit_def byte_val_def)
  show "\<forall>c \<in> set p. c \<noteq> dquote \<and> c \<noteq> backslash \<and> 32 \<le> byte_val c"
  proof
    fix c assume "c \<in> set p"
    then have "is_digit c \<or> c \<in> set ''-+:.TZ''" using a by (rule bspec [rotated])
    then show "c \<noteq> dquote \<and> c \<noteq> backslash \<and> 32 \<le> byte_val c" by (rule disjE) (rule digits, assumption, rule bspec [OF marks])
  qed
qed

definition time_text :: "string \<Rightarrow> bool" where
  "time_text p \<longleftrightarrow> (\<forall>c \<in> set p. is_digit c \<or> c \<in> set ''-+:.TZ'')"

lemma time_text_append [simp]: "time_text (p @ q) \<longleftrightarrow> time_text p \<and> time_text q"
  by (auto simp: time_text_def)

lemma time_text_pad [simp]: "time_text (pad_int w i)"
  by (auto simp: time_text_def dest!: pad_int_chars)

lemma time_text_Cons: "time_text (c # s) \<longleftrightarrow> time_text [c] \<and> time_text s"
  by (simp add: time_text_def)

lemma time_text_marks [simp]: "time_text ''T''" "time_text '':''" "time_text ''Z''" "time_text ''-''" "time_text ''+''" "time_text ''.''" "time_text []"
  by (simp_all add: time_text_def)

lemma time_text_nano: "time_text (format_nano ns)"
proof -
  have "time_text (rev (dropWhile P (rev (pad_int 9 ns))))" for P
    using time_text_pad [of 9 ns] by (auto simp: time_text_def dest!: set_dropWhileD)
  then show ?thesis using time_text_Cons [of "CHR ''.''"] by (simp add: format_nano_def Let_def)
qed

lemma time_text_format: "time_text (FormatRFC3339 z t)"
proof -
  have "time_text (format_zone z)"
    using time_text_Cons [of "CHR ''-''"] time_text_Cons [of "CHR ''+''"] time_text_append [of "'':''"]
    by (simp add: format_zone_def)
  then show ?thesis
    using time_text_nano time_text_append [of "'':''"] time_text_append [of "''T''"] time_text_append [of "''-''"]
    by (simp add: FormatRFC3339_def Let_def format_clock_def format_date_def)
qed

lemma quotable_time: "quotable (FormatRFC3339 z t)"
  by (rule plain_text) (use time_text_format in \<open>simp only: time_text_def\<close>)

lemma dec_head: "hd (dec n) = CHR ''0'' \<Longrightarrow> length (dec n) = 1"
proof (induction n rule: dec.induct)
  case (1 n)
  show ?case
  proof (cases "n < 10")
    case True
    then show ?thesis by (simp add: dec.simps [of n])
  next
    case False
    then have h: "hd (dec n) = hd (dec (n div 10))" by (simp add: dec.simps [of n])
    show ?thesis
    proof (cases "n div 10 < 10")
      case True
      then have "hd (dec (n div 10)) = digit (n div 10)" by (simp add: dec.simps [of "n div 10"])
      then show ?thesis using 1(2) h False True of_char_digit [of "n div 10"] by auto
    next
      case ge: False
      then have "1 < length (dec (n div 10))" by (simp add: dec.simps [of "n div 10"])
      then show ?thesis using 1 h False by simp
    qed
  qed
qed

lemma digits_number:
  assumes "ds \<noteq> []" "list_all is_digit ds" "hd ds = CHR ''0'' \<Longrightarrow> length ds = 1"
  shows "valid_number ds" "valid_number (CHR ''-'' # ds)"
proof -
  have d: "takeWhile is_digit ds = ds" "dropWhile is_digit ds = []" using assms(2) by (simp_all add: list_all_iff)
  obtain c r where ds: "ds = c # r" using assms(1) by (cases ds) auto
  then have "c \<noteq> CHR ''-''" using assms(2) by (auto simp: is_digit_def)
  then have "(case ds of c # r \<Rightarrow> if c = CHR ''-'' then r else ds | [] \<Rightarrow> []) = ds" using ds by simp
  then show "valid_number ds" unfolding valid_number_def Let_def by (simp only: d) (simp add: valid_frac_def assms)
  have "valid_number (CHR ''-'' # ds) \<longleftrightarrow> ds \<noteq> [] \<and> (hd ds = CHR ''0'' \<longrightarrow> length ds = 1) \<and> valid_frac []"
    unfolding valid_number_def Let_def by (simp only: d list.case if_True refl)
  then show "valid_number (CHR ''-'' # ds)" by (simp add: valid_frac_def assms)
qed

lemma show_int_number: "wf_json n (JNum (show_int i))"
proof -
  have d: "list_all is_digit (dec k)" for k by (auto simp: list_all_iff dec_digits)
  then have "is_digit (hd (dec k))" for k using dec_digits [of "hd (dec k)" k] by simp
  moreover have "list_all num_char (dec k)" for k using d [of k] by (auto simp: list_all_iff num_char_def)
  moreover have "num_char (CHR ''-'')" by (simp add: num_char_def)
  ultimately show ?thesis
    using digits_number [OF dec_not_Nil d dec_head] by (simp add: show_int_def)
qed

lemma into_show_int:
  assumes "\<bar>i\<bar> < 2 ^ 63"
  shows "into_int (JNum (show_int i)) old = Some i"
proof -
  have "hd (dec n) \<noteq> CHR ''-''" for n using dec_digits [of "hd (dec n)" n] by (auto simp: is_digit_def)
  moreover have "list_all is_digit (dec n)" for n by (auto simp: list_all_iff dec_digits)
  moreover have "- (2 ^ 63) \<le> i" "i < 2 ^ 63" using assms by simp_all
  ultimately show ?thesis by (simp add: into_int_def show_int_def Let_def nat_le_iff nat_less_iff)
qed

lemma wf_labels_json: "1 < n \<Longrightarrow> wf_json n (labels_json m)"
  by (auto simp: labels_json_def quotable_quote)

lemma plain_keys:
  "quotable ''timestamp''" "quotable ''service''" "quotable ''level''" "quotable ''message''" "quotable ''labels''"
  "quotable ''chunk_key''" "quotable ''min_time''" "quotable ''max_time''" "quotable ''label_sets''"
  "quotable ''entry_count''" "quotable ''size_bytes''" "quotable ''compression''" "quotable ''entries''"
  by (rule quotable_plains, code_simp)+

lemma wf_entry_json: "3 < n \<Longrightarrow> wf_json n (entry_json e)"
  by (auto simp: entry_json_def plain_keys quotable_quote quotable_time wf_labels_json)

lemma wf_index_json: "4 < n \<Longrightarrow> wf_json n (index_json zs i)"
  by (auto simp: index_json_def plain_keys quotable_quote quotable_time wf_labels_json show_int_number simp del: wf_json.simps(3))

section \<open>Round trips\<close>

lemma lput_last: "\<forall>a \<in> fst ` set m. a < k \<Longrightarrow> lput k v m = m @ [(k, v)]"
  by (induction k v m rule: lput.induct) (auto dest: less_asym)

lemma into_pairs_labels:
  "wf_labels (m @ n) \<Longrightarrow> \<forall>(k, v) \<in> set n. utf8_ok k \<and> utf8_ok v \<Longrightarrow>
   into_pairs (map (\<lambda>kv. (quote_bytes (fst kv), quoted (snd kv))) n) m = Some (m @ n)"
proof (induction n arbitrary: m)
  case (Cons kv n)
  obtain k v where kv: "kv = (k, v)" by fastforce
  have "\<forall>a \<in> fst ` set m. a < k" using Cons.prems(1) by (auto simp: wf_labels_def sorted_wrt_append kv)
  then show ?case
    using Cons.IH [of "m @ [(k, v)]"] Cons.prems by (simp add: kv into_string_def unquote_quote lput_last)
qed simp

lemma into_labels_json: "labels_safe m \<Longrightarrow> into_labels (labels_json m) [] = Some m"
  using into_pairs_labels [of "[]" m] by (auto simp: labels_json_def into_labels_def labels_safe_def)

lemma quoted_keys:
  "fold_name (unquote ''timestamp'') = ''TIMESTAMP''" "fold_name (unquote ''service'') = ''SERVICE''"
  "fold_name (unquote ''level'') = ''LEVEL''" "fold_name (unquote ''message'') = ''MESSAGE''"
  "fold_name (unquote ''labels'') = ''LABELS''" "fold_name (unquote ''chunk_key'') = ''CHUNK_KEY''"
  "fold_name (unquote ''min_time'') = ''MIN_TIME''" "fold_name (unquote ''max_time'') = ''MAX_TIME''"
  "fold_name (unquote ''label_sets'') = ''LABEL_SETS''" "fold_name (unquote ''entry_count'') = ''ENTRY_COUNT''"
  "fold_name (unquote ''size_bytes'') = ''SIZE_BYTES''" "fold_name (unquote ''compression'') = ''COMPRESSION''"
  "fold_name (unquote ''entries'') = ''ENTRIES''"
  by code_simp+

text \<open>Times of the years 1 to 9998 can be written in every zone.\<close>

lemma time_safe_year:
  assumes "time_safe t" "\<bar>z\<bar> < 24 * 60"
  shows "0 \<le> local_year z t \<and> local_year z t \<le> 9999"
proof -
  define l where "l = local_time z t"
  define c where "c = civil_of_day (day_number l)"
  have z: "- (86400 * second) < z * 60 * second" "z * 60 * second < 86400 * second"
    using assms(2) by (simp_all add: second_def)
  have l: "zero_time - day_ns < l" "l < 253370764800 * second + day_ns"
    using assms(1) z by (simp_all add: l_def local_time_def time_safe_def day_ns_def second_def)
  have "- day_ns < l - zero_time" "l - zero_time < 3651695 * day_ns" using l by (simp_all add: zero_time_def day_ns_def second_def)
  then have n: "-1 \<le> day_number l" "day_number l < 3651695"
    by (simp_all add: day_number_def day_ns_def second_def)
  have c: "date_ok c" "day_of_civil c = day_number l" by (simp_all add: c_def date_ok_civil_of_day day_of_civil_of_day)
  have y: "year_start (cyear c) \<le> day_number l" "day_number l < year_start (cyear c + 1)"
    using date_ok_yday(2,3) [OF c(1)] c(2) by simp_all
  have "0 \<le> cyear c"
  proof (rule ccontr)
    assume "\<not> 0 \<le> cyear c"
    then have "year_start (cyear c + 1) \<le> year_start 0" by (intro year_start_mono) simp
    then show False using y(2) n(1) by (simp add: year_start_def)
  qed
  moreover have "cyear c \<le> 9999"
  proof (rule ccontr)
    assume "\<not> cyear c \<le> 9999"
    then have "year_start (9999 + 1) \<le> year_start (cyear c)" by (intro year_start_mono) simp
    then show False using y(1) n(2) by (simp add: year_start_def)
  qed
  ultimately show ?thesis by (simp add: local_year_def l_def [symmetric] c_def [symmetric])
qed

lemma time_error_None: "time_safe t \<Longrightarrow> \<bar>z\<bar> < 24 * 60 \<Longrightarrow> time_error t z = None"
  using time_safe_year [of t z] by (simp add: time_error_def)

lemma into_time_format:
  "time_safe t \<Longrightarrow> \<bar>z\<bar> < 24 * 60 \<Longrightarrow> into_time (JStr (FormatRFC3339 z t)) old = Some (t, z)"
  using time_safe_year [of t z] by (simp add: into_time_def parse_format_rfc3339)

lemma into_entry_json:
  assumes "entry_safe e"
  shows "into_struct entry_field (entry_json e) zero_entry = Some e"
proof -
  have t: "into_time (JStr (FormatRFC3339 (TZ e) (Timestamp e))) old = Some (Timestamp e, TZ e)" for old
    using assms by (simp add: entry_safe_def into_time_format)
  have u: "unquote (quote_bytes (Service e)) = Service e" "unquote (quote_bytes (Level e)) = Level e"
      "unquote (quote_bytes (Message e)) = Message e"
    using assms by (simp_all add: entry_safe_def unquote_quote)
  have l: "into_labels (labels_json (Labels e)) [] = Some (Labels e)"
    using assms by (simp add: entry_safe_def into_labels_json)
  show ?thesis
    by (simp add: entry_json_def into_struct_def quoted_keys entry_field_def t into_string_def u l zero_entry_def)
qed

lemma marshal_entry_ok:
  assumes "entry_safe e"
  shows "marshal_entry e = Inr (render (entry_json e)) \<and> unmarshal_entry (render (entry_json e)) = Some e"
proof -
  have "wf_json max_depth (entry_json e)" by (rule wf_entry_json) (simp add: max_depth_def)
  then have "unmarshal_entry (render (entry_json e)) = Some e"
    using into_entry_json [OF assms] by (simp add: unmarshal_entry_def parse_render_json)
  moreover have "time_error (Timestamp e) (TZ e) = None" using assms by (simp add: entry_safe_def time_error_None)
  ultimately show ?thesis by (simp add: marshal_entry_def)
qed

lemma into_elems_map:
  "\<forall>x \<in> set xs. dcd (f x) zero = Some x \<Longrightarrow> into_elems dcd zero (map f xs) [] = Some xs"
  by (induction xs) auto

lemma into_slice_map:
  "\<forall>x \<in> set xs. dcd (f x) zero = Some x \<Longrightarrow> into_slice dcd zero (JArr (map f xs)) ([], n) = Some (xs, length xs)"
  by (auto simp: into_slice_def into_elems_map)

lemma into_index_json:
  assumes "index_safe i" "\<bar>fst zs\<bar> < 24 * 60" "\<bar>snd zs\<bar> < 24 * 60"
  shows "map_option fst (into_struct index_field (index_json zs i) (zero_index, [])) = Some i"
proof -
  have t: "into_time (JStr (FormatRFC3339 (fst zs) (ix_MinTime i))) old = Some (ix_MinTime i, fst zs)"
      "into_time (JStr (FormatRFC3339 (snd zs) (ix_MaxTime i))) old = Some (ix_MaxTime i, snd zs)" for old
    using assms by (simp_all add: index_safe_def into_time_format)
  have u: "unquote (quote_bytes (ix_ChunkKey i)) = ix_ChunkKey i" "unquote (quote_bytes (ix_Service i)) = ix_Service i"
      "unquote (quote_bytes (ix_Compression i)) = ix_Compression i"
    using assms(1) by (simp_all add: index_safe_def unquote_quote)
  have l: "into_slice into_labels [] (JArr (map labels_json (ix_LabelSets i))) ([], n) = Some (ix_LabelSets i, length (ix_LabelSets i))" for n
    using assms(1) by (intro into_slice_map) (simp add: index_safe_def into_labels_json)
  have n: "into_int (JNum (show_int (ix_EntryCount i))) old = Some (ix_EntryCount i)"
      "into_int (JNum (show_int (ix_SizeBytes i))) old = Some (ix_SizeBytes i)" for old
    using assms(1) into_show_int by (simp_all add: index_safe_def)
  show ?thesis
    by (simp add: index_json_def into_struct_def quoted_keys index_field_def t into_string_def u l n zero_index_def)
qed

lemma marshal_index_ok:
  assumes "index_safe i" "\<bar>fst (zones i)\<bar> < 24 * 60" "\<bar>snd (zones i)\<bar> < 24 * 60"
  shows "marshal_index zones i = Inr (render (index_json (zones i) i)) \<and> unmarshal_index (render (index_json (zones i) i)) = Some i"
proof -
  have "wf_json max_depth (index_json (zones i) i)" by (rule wf_index_json) (simp add: max_depth_def)
  then have "unmarshal_index (render (index_json (zones i) i)) = Some i"
    using into_index_json [OF assms] by (simp add: unmarshal_index_def parse_render_json)
  moreover have "time_error (ix_MinTime i) (fst (zones i)) = None" "time_error (ix_MaxTime i) (snd (zones i)) = None"
    using assms by (simp_all add: index_safe_def time_error_None)
  ultimately show ?thesis by (simp add: marshal_index_def)
qed

section \<open>Request bodies arrive\<close>

definition request_json :: "LogEntry list \<Rightarrow> json" where
  "request_json es = JObj [(''entries'', JArr (map entry_json es))]"

lemma decode_request:
  assumes "\<forall>e \<in> set es. entry_safe e"
  shows "decode_body msg logRequest (render (request_json es) @ t) rerr = Inr es"
proof -
  have "wf_json max_depth (request_json es)"
    by (auto simp: request_json_def plain_keys max_depth_def intro!: wf_entry_json simp del: One_nat_def)
  then have "decode_stream (render (request_json es) @ t) eof = Value (request_json es)" for eof
    unfolding request_json_def by (rule decode_stream_object)
  moreover have "into_slice (into_struct entry_field) zero_entry (JArr (map entry_json es)) ([], 0) = Some (es, length es)"
    by (rule into_slice_map) (use assms into_entry_json in blast)
  then have "logRequest (request_json es) = Some es"
    by (simp add: logRequest_def request_json_def into_struct_def quoted_keys request_field_def)
  ultimately show ?thesis by (simp add: decode_body_def)
qed

section \<open>The contract of the environment\<close>

text \<open>An environment with the JSON codec of these definitions.\<close>

definition with_json :: "(ChunkIndex \<Rightarrow> int \<times> int) \<Rightarrow> env \<Rightarrow> env" where
  "with_json zones E = E\<lparr>marshalEntry := marshal_entry, unmarshalEntry := unmarshal_entry,
     marshalIndex := marshal_index zones, unmarshalIndex := unmarshal_index\<rparr>"

lemma with_json_sel [simp]:
  "marshalEntry (with_json zones E) = marshal_entry" "unmarshalEntry (with_json zones E) = unmarshal_entry"
  "marshalIndex (with_json zones E) = marshal_index zones" "unmarshalIndex (with_json zones E) = unmarshal_index"
  "gzipEncode (with_json zones E) = gzipEncode E" "gzipDecode (with_json zones E) = gzipDecode E"
  "snappyEncode (with_json zones E) = snappyEncode E" "snappyDecode (with_json zones E) = snappyDecode E"
  "toLower (with_json zones E) = toLower E" "equalFold (with_json zones E) = equalFold E"
  by (simp_all add: with_json_def)

lemma entry_no_breaks: "marshal_entry e = Inr s \<Longrightarrow> newline \<notin> set s \<and> carriage_return \<notin> set s"
proof -
  assume "marshal_entry e = Inr s"
  then have "s = render (entry_json e)" by (simp add: marshal_entry_def split: option.splits)
  moreover have "wf_json max_depth (entry_json e)" by (rule wf_entry_json) (simp add: max_depth_def)
  ultimately have "\<forall>c \<in> set s. 32 \<le> byte_val c" using render_printable by blast
  moreover have "byte_val newline = 10" "byte_val carriage_return = 13" by code_simp+
  ultimately show ?thesis by fastforce
qed

lemma json_codec:
  assumes "compressors E" "\<And>i. \<bar>fst (zones i)\<bar> < 24 * 60 \<and> \<bar>snd (zones i)\<bar> < 24 * 60"
  shows "codec (with_json zones E)"
proof (intro codec.intro codec_axioms.intro)
  show "compressors (with_json zones E)"
    using assms(1) by (simp add: compressors_def)
next
  fix e assume e: "entry_safe e"
  show "\<exists>s. marshalEntry (with_json zones E) e = Inr s \<and> newline \<notin> set s \<and> carriage_return \<notin> set s
      \<and> unmarshalEntry (with_json zones E) s = Some e"
    using marshal_entry_ok [OF e] entry_no_breaks [of e] by simp
next
  fix i assume i: "index_safe i"
  show "\<exists>s. marshalIndex (with_json zones E) i = Inr s \<and> unmarshalIndex (with_json zones E) s = Some i"
    using marshal_index_ok [OF i, of zones] assms(2) by simp
qed

end
