(* ===== verification/Config.thy ===== *)
theory Config
  imports GoStrings Complex_Main
begin

text \<open>
  \<open>internal/config/config.go\<close>: the configuration, its defaults and its validation. Reading the
  file, expanding environment variables and decoding JSON are parameters of \<open>Load\<close>. The facts:
  what a configuration that was loaded satisfies, and exactly when validation fails.
\<close>

section \<open>The configuration\<close>

record TLSConfig =
  tls_Enabled :: bool
  tls_CertFile :: string
  tls_KeyFile :: string

text \<open>A floating-point number from JSON is a rational.\<close>

record IngesterConfig =
  ic_ListenAddress :: string
  ic_BatchSizeBytes :: int
  ic_BatchTimeWindowSec :: int
  ic_CompressionAlgo :: string
  ic_MaxBodyBytes :: int
  ic_MaxEntriesPerReq :: int
  ic_RateLimitRPS :: rat
  ic_WALDir :: string
  ic_TLS :: TLSConfig
  ic_MinLevel :: string

record S3Config =
  sc_Bucket :: string
  sc_Region :: string
  sc_Prefix :: string
  sc_Endpoint :: string
  sc_AccessKey :: string
  sc_SecretKey :: string
  sc_UsePathStyle :: bool
  sc_RetentionDays :: int

record IndexConfig =
  xc_Prefix :: string

record StorageConfig =
  st_S3 :: S3Config
  st_Index :: IndexConfig

record OpenSearchConfig =
  oc_Endpoint :: string
  oc_IndexPrefix :: string
  oc_Username :: string
  oc_Password :: string

record ExporterConfig =
  ec_ListenAddress :: string
  ec_OpenSearch :: OpenSearchConfig
  ec_DefaultBatchSize :: int
  ec_MaxConcurrentJobs :: int
  ec_IngesterURL :: string

record AuthConfig =
  ac_Enabled :: bool
  ac_APIKeys :: "string list"

record MetricsConfig =
  mc_Enabled :: bool
  mc_Address :: string

record Config =
  cf_Debug :: bool
  cf_TenantID :: string
  cf_Ingester :: IngesterConfig
  cf_Storage :: StorageConfig
  cf_Exporter :: ExporterConfig
  cf_Auth :: AuthConfig
  cf_Metrics :: MetricsConfig

section \<open>Defaults and validation\<close>

definition or_default :: "string \<Rightarrow> string \<Rightarrow> string" where
  "or_default d s = (if s = '''' then d else s)"

definition or_positive :: "int \<Rightarrow> int \<Rightarrow> int" where
  "or_positive d n = (if n \<le> 0 then d else n)"

definition ingester_defaults :: "IngesterConfig \<Rightarrow> IngesterConfig" where
  "ingester_defaults c =
     c\<lparr>ic_ListenAddress := or_default '':8082'' (ic_ListenAddress c),
       ic_BatchSizeBytes := or_positive (5 * 1024 * 1024) (ic_BatchSizeBytes c),
       ic_BatchTimeWindowSec := or_positive 30 (ic_BatchTimeWindowSec c),
       ic_CompressionAlgo := or_default ''gzip'' (ic_CompressionAlgo c),
       ic_MaxBodyBytes := or_positive (10 * 1024 * 1024) (ic_MaxBodyBytes c),
       ic_MaxEntriesPerReq := or_positive 10000 (ic_MaxEntriesPerReq c)\<rparr>"

definition exporter_defaults :: "ExporterConfig \<Rightarrow> ExporterConfig" where
  "exporter_defaults c =
     c\<lparr>ec_ListenAddress := or_default '':8081'' (ec_ListenAddress c),
       ec_DefaultBatchSize := or_positive 1000 (ec_DefaultBatchSize c),
       ec_MaxConcurrentJobs := or_positive 4 (ec_MaxConcurrentJobs c),
       ec_OpenSearch := (ec_OpenSearch c)\<lparr>oc_IndexPrefix := or_default ''exported-logs-'' (oc_IndexPrefix (ec_OpenSearch c))\<rparr>,
       ec_IngesterURL := or_default ''ws://localhost:8082'' (ec_IngesterURL c)\<rparr>"

definition applyDefaults :: "Config \<Rightarrow> Config" where
  "applyDefaults c =
     c\<lparr>cf_Ingester := ingester_defaults (cf_Ingester c),
       cf_Exporter := exporter_defaults (cf_Exporter c),
       cf_Metrics := (cf_Metrics c)\<lparr>mc_Address := or_default '':9090'' (mc_Address (cf_Metrics c))\<rparr>,
       cf_Storage := (cf_Storage c)\<lparr>st_Index := (st_Index (cf_Storage c))
          \<lparr>xc_Prefix := or_default ''index/'' (xc_Prefix (st_Index (cf_Storage c)))\<rparr>\<rparr>\<rparr>"

text \<open>\<open>quote\<close> is the rendering of the verb \<open>%q\<close>.\<close>

definition Validate_errs :: "(string \<Rightarrow> string) \<Rightarrow> Config \<Rightarrow> string list" where
  "Validate_errs quote c =
     (let errs = (if sc_Bucket (st_S3 (cf_Storage c)) = '''' then [''storage.s3.bucket is required''] else []);
          errs = errs @ (if sc_Region (st_S3 (cf_Storage c)) = '''' then [''storage.s3.region is required''] else []);
          errs = errs @ (if oc_Endpoint (ec_OpenSearch (cf_Exporter c)) = '''' then [''exporter.opensearch.endpoint is required''] else []);
          algo = ic_CompressionAlgo (cf_Ingester c);
          errs = errs @ (if algo \<noteq> ''gzip'' \<and> algo \<noteq> ''snappy''
                         then [''ingester.compression_algo must be gzip or snappy, got '' @ quote algo] else []);
          tls = ic_TLS (cf_Ingester c);
          errs = errs @ (if tls_Enabled tls \<and> (tls_CertFile tls = '''' \<or> tls_KeyFile tls = '''')
                         then [''ingester.tls.cert_file and key_file required when tls.enabled is true''] else []);
          errs = errs @ (if ac_Enabled (cf_Auth c) \<and> length (ac_APIKeys (cf_Auth c)) = 0
                         then [''auth.api_keys must not be empty when auth.enabled is true''] else [])
      in errs)"

definition Validate :: "(string \<Rightarrow> string) \<Rightarrow> Config \<Rightarrow> err option" where
  "Validate quote c =
     (let errs = Validate_errs quote c
      in if 0 < length errs then Some (''config validation failed: '' @ str_join ''; '' errs) else None)"

definition Load ::
  "(string \<Rightarrow> string result) \<Rightarrow> (string \<Rightarrow> string) \<Rightarrow> (string \<Rightarrow> Config result) \<Rightarrow> (string \<Rightarrow> string) \<Rightarrow> string \<Rightarrow> Config result" where
  "Load readFile expandEnv unmarshal quote path =
     (case readFile path of
        Inl er \<Rightarrow> Inl er
      | Inr data \<Rightarrow>
          (case unmarshal (expandEnv data) of
             Inl er \<Rightarrow> Inl er
           | Inr cfg \<Rightarrow>
               (let cfg = applyDefaults cfg
                in case Validate quote cfg of Some er \<Rightarrow> Inl er | None \<Rightarrow> Inr cfg)))"

section \<open>What a loaded configuration satisfies\<close>

definition config_ok :: "Config \<Rightarrow> bool" where
  "config_ok c \<longleftrightarrow> 0 < ic_BatchSizeBytes (cf_Ingester c) \<and> 0 < ic_BatchTimeWindowSec (cf_Ingester c)
     \<and> 0 < ic_MaxBodyBytes (cf_Ingester c) \<and> 0 < ic_MaxEntriesPerReq (cf_Ingester c)
     \<and> ic_CompressionAlgo (cf_Ingester c) \<in> {''gzip'', ''snappy''}
     \<and> (tls_Enabled (ic_TLS (cf_Ingester c)) \<longrightarrow> tls_CertFile (ic_TLS (cf_Ingester c)) \<noteq> '''' \<and> tls_KeyFile (ic_TLS (cf_Ingester c)) \<noteq> '''')
     \<and> (ac_Enabled (cf_Auth c) \<longrightarrow> ac_APIKeys (cf_Auth c) \<noteq> [])
     \<and> sc_Bucket (st_S3 (cf_Storage c)) \<noteq> '''' \<and> sc_Region (st_S3 (cf_Storage c)) \<noteq> ''''
     \<and> xc_Prefix (st_Index (cf_Storage c)) \<noteq> ''''
     \<and> 0 < ec_DefaultBatchSize (cf_Exporter c) \<and> 0 < ec_MaxConcurrentJobs (cf_Exporter c)
     \<and> oc_Endpoint (ec_OpenSearch (cf_Exporter c)) \<noteq> '''' \<and> oc_IndexPrefix (ec_OpenSearch (cf_Exporter c)) \<noteq> ''''"

lemma or_default_nonempty: "d \<noteq> '''' \<Longrightarrow> or_default d s \<noteq> ''''"
  by (simp add: or_default_def)

lemma or_positive_pos: "0 < d \<Longrightarrow> 0 < or_positive d n"
  by (simp add: or_positive_def)

lemma or_idem [simp]: "or_default d (or_default d s) = or_default d s" "or_positive k (or_positive k n) = or_positive k n"
  by (simp_all add: or_default_def or_positive_def)

lemma applyDefaults_idem: "applyDefaults (applyDefaults c) = applyDefaults c"
  by (simp add: applyDefaults_def ingester_defaults_def exporter_defaults_def)

lemma Validate_None: "Validate quote c = None \<longleftrightarrow> Validate_errs quote c = []"
  by (simp add: Validate_def Let_def)

lemma defaults_valid_ok:
  assumes "Validate quote (applyDefaults c) = None"
  shows "config_ok (applyDefaults c)"
proof -
  let ?c = "applyDefaults c"
  have v: "Validate_errs quote ?c = []" using assms by (simp add: Validate_None)
  have req: "sc_Bucket (st_S3 (cf_Storage ?c)) \<noteq> ''''" "sc_Region (st_S3 (cf_Storage ?c)) \<noteq> ''''"
    "oc_Endpoint (ec_OpenSearch (cf_Exporter ?c)) \<noteq> ''''" "ic_CompressionAlgo (cf_Ingester ?c) \<in> {''gzip'', ''snappy''}"
    "tls_Enabled (ic_TLS (cf_Ingester ?c)) \<longrightarrow> tls_CertFile (ic_TLS (cf_Ingester ?c)) \<noteq> '''' \<and> tls_KeyFile (ic_TLS (cf_Ingester ?c)) \<noteq> ''''"
    "ac_Enabled (cf_Auth ?c) \<longrightarrow> ac_APIKeys (cf_Auth ?c) \<noteq> []"
    using v by (auto simp: Validate_errs_def Let_def split: if_splits)
  have pos: "0 < ic_BatchSizeBytes (cf_Ingester ?c)" "0 < ic_BatchTimeWindowSec (cf_Ingester ?c)"
    "0 < ic_MaxBodyBytes (cf_Ingester ?c)" "0 < ic_MaxEntriesPerReq (cf_Ingester ?c)"
    "0 < ec_DefaultBatchSize (cf_Exporter ?c)" "0 < ec_MaxConcurrentJobs (cf_Exporter ?c)"
    "xc_Prefix (st_Index (cf_Storage ?c)) \<noteq> ''''" "oc_IndexPrefix (ec_OpenSearch (cf_Exporter ?c)) \<noteq> ''''"
    by (simp_all add: applyDefaults_def ingester_defaults_def exporter_defaults_def or_positive_pos or_default_nonempty)
  show ?thesis using req pos by (simp add: config_ok_def)
qed

lemma config_ok_valid: "config_ok c \<Longrightarrow> Validate quote c = None"
  by (auto simp: Validate_None Validate_errs_def config_ok_def Let_def)

section \<open>Properties\<close>

text \<open>
  C38. A configuration is loaded exactly if the file can be read and decoded and the result, with
  the defaults filled in, is sound: positive batch sizes, limits and concurrency, a known
  compression algorithm, bucket, region and endpoints present, certificate files if TLS is on
  and at least one key if authentication is on. Filling in the defaults again changes nothing.
\<close>

theorem load_sound:
  "(Load readFile expandEnv unmarshal quote path = Inr c \<longleftrightarrow>
     (\<exists>data c0. readFile path = Inr data \<and> unmarshal (expandEnv data) = Inr c0 \<and> c = applyDefaults c0
       \<and> 0 < ic_BatchSizeBytes (cf_Ingester c) \<and> 0 < ic_BatchTimeWindowSec (cf_Ingester c)
       \<and> 0 < ic_MaxBodyBytes (cf_Ingester c) \<and> 0 < ic_MaxEntriesPerReq (cf_Ingester c)
       \<and> ic_CompressionAlgo (cf_Ingester c) \<in> {''gzip'', ''snappy''}
       \<and> (if tls_Enabled (ic_TLS (cf_Ingester c))
          then tls_CertFile (ic_TLS (cf_Ingester c)) \<noteq> '''' \<and> tls_KeyFile (ic_TLS (cf_Ingester c)) \<noteq> '''' else True)
       \<and> (if ac_Enabled (cf_Auth c) then ac_APIKeys (cf_Auth c) \<noteq> [] else True)
       \<and> sc_Bucket (st_S3 (cf_Storage c)) \<noteq> '''' \<and> sc_Region (st_S3 (cf_Storage c)) \<noteq> ''''
       \<and> xc_Prefix (st_Index (cf_Storage c)) \<noteq> ''''
       \<and> 0 < ec_DefaultBatchSize (cf_Exporter c) \<and> 0 < ec_MaxConcurrentJobs (cf_Exporter c)
       \<and> oc_Endpoint (ec_OpenSearch (cf_Exporter c)) \<noteq> '''' \<and> oc_IndexPrefix (ec_OpenSearch (cf_Exporter c)) \<noteq> ''''))
   \<and> applyDefaults (applyDefaults c) = applyDefaults c"
proof -
  have "Load readFile expandEnv unmarshal quote path = Inr c \<longleftrightarrow>
     (\<exists>data c0. readFile path = Inr data \<and> unmarshal (expandEnv data) = Inr c0 \<and> c = applyDefaults c0
       \<and> Validate quote (applyDefaults c0) = None)"
    by (auto simp: Load_def Let_def split: sum.splits option.splits)
  moreover have "Validate quote (applyDefaults c0) = None \<longleftrightarrow> config_ok (applyDefaults c0)" for c0
    using defaults_valid_ok config_ok_valid by blast
  ultimately have "Load readFile expandEnv unmarshal quote path = Inr c \<longleftrightarrow>
     (\<exists>data c0. readFile path = Inr data \<and> unmarshal (expandEnv data) = Inr c0 \<and> c = applyDefaults c0 \<and> config_ok c)"
    by blast
  then show ?thesis by (simp add: config_ok_def applyDefaults_idem)
qed

text \<open>A configuration, for concrete instances.\<close>

definition wit_config :: Config where
  "wit_config =
     \<lparr>cf_Debug = False, cf_TenantID = '''',
      cf_Ingester = \<lparr>ic_ListenAddress = '':8082'', ic_BatchSizeBytes = 100, ic_BatchTimeWindowSec = 30, ic_CompressionAlgo = ''gzip'',
        ic_MaxBodyBytes = 1000, ic_MaxEntriesPerReq = 10, ic_RateLimitRPS = 5, ic_WALDir = '''',
        ic_TLS = \<lparr>tls_Enabled = False, tls_CertFile = '''', tls_KeyFile = ''''\<rparr>, ic_MinLevel = ''info''\<rparr>,
      cf_Storage = \<lparr>st_S3 = \<lparr>sc_Bucket = ''logs'', sc_Region = ''r'', sc_Prefix = ''raw_logs/'', sc_Endpoint = '''', sc_AccessKey = '''',
          sc_SecretKey = '''', sc_UsePathStyle = False, sc_RetentionDays = 0\<rparr>, st_Index = \<lparr>xc_Prefix = ''index/''\<rparr>\<rparr>,
      cf_Exporter = \<lparr>ec_ListenAddress = '':8081'', ec_OpenSearch = \<lparr>oc_Endpoint = ''e'', oc_IndexPrefix = ''sigyn-'', oc_Username = '''',
          oc_Password = ''''\<rparr>, ec_DefaultBatchSize = 100, ec_MaxConcurrentJobs = 2, ec_IngesterURL = ''u''\<rparr>,
      cf_Auth = \<lparr>ac_Enabled = True, ac_APIKeys = [''secret'']\<rparr>,
      cf_Metrics = \<lparr>mc_Enabled = False, mc_Address = '':9090''\<rparr>\<rparr>"

end
