(* ===== verification/Wiring.thy ===== *)
theory Wiring
  imports Buffer QueryEngine Exporter Config "HOL-Library.Word"
begin

text \<open>
  What both \<open>main\<close> functions build from a configuration: \<open>cmd/ingester/main.go\<close> and
  \<open>cmd/exporter/main.go\<close>. The facts: how far the keys of different tenants are apart (not at
  all between chunks and index records if the configured prefixes overlap), and when the time
  window of the buffer, which is computed in 64 bits, is positive.
\<close>

section \<open>Tenants\<close>

definition tenant_s3_prefix :: "Config \<Rightarrow> string" where
  "tenant_s3_prefix cfg =
     (if cf_TenantID cfg \<noteq> '''' then sc_Prefix (st_S3 (cf_Storage cfg)) @ cf_TenantID cfg @ ''/''
      else sc_Prefix (st_S3 (cf_Storage cfg)))"

definition tenant_index_prefix :: "Config \<Rightarrow> string" where
  "tenant_index_prefix cfg =
     (if cf_TenantID cfg \<noteq> '''' then xc_Prefix (st_Index (cf_Storage cfg)) @ cf_TenantID cfg @ ''/''
      else xc_Prefix (st_Index (cf_Storage cfg)))"

text \<open>The client and the stores that both \<open>main\<close> functions build; the SDK part of the client is left out.\<close>

definition config_client :: "Config \<Rightarrow> S3Client" where
  "config_client cfg = \<lparr>s3_bucket = sc_Bucket (st_S3 (cf_Storage cfg)), s3_prefix = tenant_s3_prefix cfg\<rparr>"

definition config_index :: "Config \<Rightarrow> Store" where
  "config_index cfg = NewStore (config_client cfg) (tenant_index_prefix cfg)"

definition config_engine :: "Config \<Rightarrow> Engine" where
  "config_engine cfg = NewEngine (config_client cfg) (config_index cfg)"

definition config_exporter :: "Config \<Rightarrow> Exporter" where
  "config_exporter cfg =
     NewExporter (config_client cfg) \<lparr>os_indexPrefix = oc_IndexPrefix (ec_OpenSearch (cf_Exporter cfg))\<rparr>
       (ec_DefaultBatchSize (cf_Exporter cfg))"

section \<open>The ingester\<close>

definition config_flusher :: "Config \<Rightarrow> S3Flusher" where
  "config_flusher cfg = NewS3Flusher (config_client cfg) (Some (config_index cfg))"

text \<open>\<open>time.Duration(n) * time.Second\<close> is a product of 64-bit integers.\<close>

definition config_maxAge :: "Config \<Rightarrow> duration" where
  "config_maxAge cfg = sint (word_of_int (ic_BatchTimeWindowSec (cf_Ingester cfg)) * word_of_int second :: 64 word)"

definition config_algo :: "Config \<Rightarrow> CompressionAlgo" where
  "config_algo cfg = (if ic_CompressionAlgo (cf_Ingester cfg) = ''snappy'' then CompressionSnappy else CompressionGzip)"

definition config_opts :: "env \<Rightarrow> 's s3api \<Rightarrow> 's world ctx \<Rightarrow> (nat \<Rightarrow> int) \<Rightarrow> Config \<Rightarrow> 's BufferOpts" where
  "config_opts E api C rnd cfg =
     \<lparr>bo_MaxBytes = ic_BatchSizeBytes (cf_Ingester cfg), bo_MaxAge = config_maxAge cfg,
      bo_Flusher = Flush E api C rnd (config_flusher cfg), bo_Compression = config_algo cfg,
      bo_MinLevel = ic_MinLevel (cf_Ingester cfg)\<rparr>"

lemma config_maxAge_exact:
  assumes "0 < ic_BatchTimeWindowSec (cf_Ingester cfg)" "ic_BatchTimeWindowSec (cf_Ingester cfg) \<le> 9223372036"
  shows "config_maxAge cfg = ic_BatchTimeWindowSec (cf_Ingester cfg) * second"
proof -
  let ?n = "ic_BatchTimeWindowSec (cf_Ingester cfg) * second"
  have "0 \<le> ?n" "?n < 2 ^ 63" using assms by (simp_all add: second_def)
  then have "signed_take_bit 63 ?n = ?n" by (intro signed_take_bit_int_eq_self) auto
  then show ?thesis by (simp add: config_maxAge_def signed_of_int flip: of_int_mult)
qed

lemma config_buffer_starts:
  assumes "config_ok cfg" "ic_BatchTimeWindowSec (cf_Ingester cfg) \<le> 9223372036"
  shows "NewBuffer E f (config_opts E api C rnd cfg) None br m \<noteq> None"
    and "bo_Compression (config_opts E api C rnd cfg) = ic_CompressionAlgo (cf_Ingester cfg)"
  using assms config_maxAge_exact [of cfg]
  by (auto simp: NewBuffer_def config_opts_def config_ok_def second_def config_algo_def CompressionGzip_def CompressionSnappy_def)

section \<open>Lemmas\<close>

lemma tenant_prefix_inj:
  assumes "HasPrefix k (base @ t @ ''/'')" "HasPrefix k (base @ u @ ''/'')" "CHR ''/'' \<notin> set t" "CHR ''/'' \<notin> set u"
  shows "t = u"
proof -
  obtain x where x: "k = base @ t @ CHR ''/'' # x" using assms(1) by (auto simp: HasPrefix_iff)
  obtain y where "k = base @ u @ CHR ''/'' # y" using assms(2) by (auto simp: HasPrefix_iff)
  with x have "t @ CHR ''/'' # x = u @ CHR ''/'' # y" by simp
  from sep_append_inj [OF assms(3,4) this] show ?thesis by simp
qed

lemma prefixes_comparable: "HasPrefix k x \<Longrightarrow> HasPrefix k y \<Longrightarrow> HasPrefix x y \<or> HasPrefix y x"
  by (auto simp: HasPrefix_iff append_eq_append_conv2)

section \<open>Properties\<close>

text \<open>
  C36. How far the tenants of one storage configuration are apart, for different tenant identifiers
  without slashes. No object key lies under the chunk prefixes of both tenants, and none under
  the index prefixes of both. Chunks and index records share one bucket: if neither of the two
  configured base prefixes, of S3 and of the index, is a prefix of the other, then no key lies under
  the chunk prefix of one tenant and the index prefix of the other either. That proviso, which
  the validation does not check, is needed: if the index prefix is the S3 prefix followed by the
  first tenant's identifier and a slash (no S3 prefix, index prefix \<open>index/\<close> and a tenant \<open>index\<close>),
  an export by the first tenant of a service named like the second tenant lists that tenant's
  index records, precisely those whose chunks start on a day of its range.
\<close>

theorem tenants_apart:
  assumes "cf_TenantID c \<noteq> cf_TenantID d" "cf_TenantID c \<noteq> ''''" "cf_TenantID d \<noteq> ''''"
    and "CHR ''/'' \<notin> set (cf_TenantID c)" "CHR ''/'' \<notin> set (cf_TenantID d)" "cf_Storage c = cf_Storage d"
  shows "\<not> (HasPrefix key (s3_prefix (config_client c) @ p) \<and> HasPrefix key (s3_prefix (config_client d) @ q))
    \<and> \<not> (HasPrefix key (st_prefix (config_index c) @ p) \<and> HasPrefix key (st_prefix (config_index d) @ q))
    \<and> (\<not> HasPrefix (xc_Prefix (st_Index (cf_Storage c))) (sc_Prefix (st_S3 (cf_Storage c)))
        \<and> \<not> HasPrefix (sc_Prefix (st_S3 (cf_Storage c))) (xc_Prefix (st_Index (cf_Storage c)))
       \<longrightarrow> \<not> (HasPrefix key (s3_prefix (config_client c) @ p) \<and> HasPrefix key (st_prefix (config_index d) @ q))
         \<and> \<not> (HasPrefix key (st_prefix (config_index c) @ p) \<and> HasPrefix key (s3_prefix (config_client d) @ q)))
    \<and> (xc_Prefix (st_Index (cf_Storage c)) = sc_Prefix (st_S3 (cf_Storage c)) @ cf_TenantID c @ ''/''
        \<and> CHR ''/'' \<notin> set svc \<and> CHR ''/'' \<notin> set uid
       \<longrightarrow> (listed (indexKey (st_prefix (config_index d)) (chunkKey svc t uid algo))
             (map ((@) (s3_prefix (config_client c))) (timePrefixes (cf_TenantID d) start end'))
           \<longleftrightarrow> day_number start \<le> day_number t \<and> day_number t \<le> day_number end'))"
proof -
  let ?S = "sc_Prefix (st_S3 (cf_Storage d))" and ?X = "xc_Prefix (st_Index (cf_Storage d))"
  have pre: "HasPrefix key (x @ y) \<Longrightarrow> HasPrefix key x" for x y by (auto simp: HasPrefix_iff)
  have s3: "s3_prefix (config_client c) = ?S @ cf_TenantID c @ ''/''" "s3_prefix (config_client d) = ?S @ cf_TenantID d @ ''/''"
    using assms by (simp_all add: config_client_def tenant_s3_prefix_def)
  have ix: "st_prefix (config_index c) = ?X @ cf_TenantID c @ ''/''" "st_prefix (config_index d) = ?X @ cf_TenantID d @ ''/''"
    using assms by (auto simp: config_index_def NewStore_def tenant_index_prefix_def HasSuffix_iff)
  have cross: "HasPrefix ?X ?S \<or> HasPrefix ?S ?X" if "HasPrefix key ((?S @ x) @ y)" "HasPrefix key ((?X @ u) @ v)" for x y u v
    using prefixes_comparable [of key ?S ?X] that by (auto simp: HasPrefix_iff)
  have mixed: "listed (indexKey (st_prefix (config_index d)) (chunkKey svc t uid algo))
         (map ((@) (s3_prefix (config_client c))) (timePrefixes (cf_TenantID d) start end'))
       \<longleftrightarrow> day_number start \<le> day_number t \<and> day_number t \<le> day_number end'"
    if "?X = ?S @ cf_TenantID c @ ''/''" "CHR ''/'' \<notin> set svc" "CHR ''/'' \<notin> set uid"
  proof -
    have "map ((@) (s3_prefix (config_client c))) (timePrefixes (cf_TenantID d) start end')
        = dayPrefixes (st_prefix (config_index d)) start end'"
      using that(1) assms(3) by (simp add: s3 ix timePrefixes_def dayPrefixes_def day_loop_range Let_def)
    then show ?thesis using listed_index [OF that(2,3)] by simp
  qed
  show ?thesis
    unfolding assms(6)
    using assms(1) pre tenant_prefix_inj [OF _ _ assms(4,5)] cross mixed unfolding s3 ix by blast
qed

section \<open>Witnesses\<close>

text \<open>Validation accepts a storage whose two prefixes collide.\<close>

definition wit_mixed_config :: "string \<Rightarrow> Config" where
  "wit_mixed_config tenant = wit_config\<lparr>cf_TenantID := tenant,
     cf_Storage := (cf_Storage wit_config)\<lparr>st_S3 := (st_S3 (cf_Storage wit_config))\<lparr>sc_Prefix := ''''\<rparr>\<rparr>\<rparr>"

theorem tenants_apart_witness:
  "\<not> (HasPrefix ''raw_logs/a/x'' (s3_prefix (config_client (wit_config\<lparr>cf_TenantID := ''a''\<rparr>)) @ ''x'')
      \<and> HasPrefix ''raw_logs/a/x'' (s3_prefix (config_client (wit_config\<lparr>cf_TenantID := ''b''\<rparr>)) @ ''''))
    \<and> \<not> (HasPrefix ''raw_logs/a/x'' (s3_prefix (config_client (wit_config\<lparr>cf_TenantID := ''a''\<rparr>)) @ ''x'')
      \<and> HasPrefix ''raw_logs/a/x'' (st_prefix (config_index (wit_config\<lparr>cf_TenantID := ''b''\<rparr>)) @ ''''))
    \<and> Validate (\<lambda>s. s) (wit_mixed_config ''index'') = None
    \<and> listed (indexKey (st_prefix (config_index (wit_mixed_config ''b''))) (chunkKey ''a'' 0 ''u'' ''gzip''))
        (map ((@) (s3_prefix (config_client (wit_mixed_config ''index'')))) (timePrefixes ''b'' 0 0))"
proof -
  have "xc_Prefix (st_Index (cf_Storage wit_config)) = ''index/''" "sc_Prefix (st_S3 (cf_Storage wit_config)) = ''raw_logs/''"
    by (simp_all add: wit_config_def)
  moreover from this have "Validate (\<lambda>s. s) (wit_mixed_config ''index'') = None"
    by (intro config_ok_valid) (simp add: config_ok_def wit_mixed_config_def wit_config_def)
  ultimately show ?thesis
    using tenants_apart [of "wit_config\<lparr>cf_TenantID := ''a''\<rparr>" "wit_config\<lparr>cf_TenantID := ''b''\<rparr>" "''raw_logs/a/x''" "''x''" "''''"]
      tenants_apart [of "wit_mixed_config ''index''" "wit_mixed_config ''b''" "''''" "''''" "''''" "''a''" "''u''" 0 "''gzip''" 0 0]
    by (simp add: wit_mixed_config_def HasPrefix_iff)
qed

end
