(* ===== verification/Parser.thy ===== *)
theory Parser
  imports GoStrings
begin

text \<open>
  \<open>internal/query/parser.go\<close>: label selectors like \<open>{app="nginx", env="prod"}\<close>. The facts:
  parsing the rendering of a label map gives the map back, parsing fails exactly on a piece
  without an equals sign or with an empty key, and the result is a well-formed map.
\<close>

section \<open>Definitions\<close>

text \<open>
  \<open>quote\<close> is the rendering of a string by \<open>%q\<close> in the error message. A nil map and an empty
  one are the same to every caller.
\<close>

fun parse_pairs :: "(string \<Rightarrow> string) \<Rightarrow> string list \<Rightarrow> labels \<Rightarrow> labels result" where
  "parse_pairs quote [] ls = Inr ls"
| "parse_pairs quote (p # ps) ls =
     (let pair = TrimSpace p
      in if pair = '''' then parse_pairs quote ps ls
         else
           let eqIdx = str_index pair (CHR ''='')
           in if eqIdx < 0 then Inl (''invalid label pair '' @ quote pair @ '': missing ='')
              else
                let key = TrimSpace (take (nat eqIdx) pair);
                    value = TrimSpace (drop (nat eqIdx + 1) pair);
                    value = trim_set [CHR 0x22, CHR 0x27] value
                in if key = '''' then Inl ''empty key in label selector''
                   else parse_pairs quote ps (lput key value ls))"

definition ParseLabelSelector :: "(string \<Rightarrow> string) \<Rightarrow> string \<Rightarrow> labels result" where
  "ParseLabelSelector quote s0 =
     (let s = TrimSpace s0
      in if s = '''' \<or> s = ''{}'' then Inr []
         else
           let s = TrimPrefix s ''{''; s = TrimSuffix s ''}''
           in parse_pairs quote (split_on (CHR '','') s) [])"

section \<open>Trimming\<close>

text \<open>A visible ASCII character; no white space begins or ends with one.\<close>

definition solid :: "char \<Rightarrow> bool" where
  "solid c \<longleftrightarrow> 33 \<le> (of_char c :: nat) \<and> (of_char c :: nat) \<le> 126"

lemma space_seqs_solid: "\<forall>p \<in> set space_seqs. p \<noteq> [] \<and> \<not> solid (hd p) \<and> \<not> solid (last p)"
  by (simp add: space_seqs_def solid_def)

lemma strip_front_solid:
  assumes "\<forall>p \<in> set ps. p \<noteq> [] \<and> \<not> solid (hd p)" "s = [] \<or> solid (hd s)"
  shows "strip_front ps n s = s"
proof (cases n)
  case (Suc m)
  have "\<not> HasPrefix s p" if "p \<in> set ps" for p
  proof
    assume "HasPrefix s p"
    then obtain t where s: "s = p @ t" by (auto simp: HasPrefix_iff)
    have "p \<noteq> []" "\<not> solid (hd p)" using assms(1) that by auto
    then show False using s assms(2) by auto
  qed
  then have "find (HasPrefix s) ps = None" by (auto simp: find_None_iff)
  then show ?thesis by (simp add: Suc)
qed simp

lemma trim_right_solid: "s = [] \<or> solid (last s) \<Longrightarrow> trim_right_space s = s"
proof -
  assume "s = [] \<or> solid (last s)"
  then have "rev s = [] \<or> solid (hd (rev s))" by (auto simp: hd_rev)
  moreover have "\<forall>p \<in> set (map rev space_seqs). p \<noteq> [] \<and> \<not> solid (hd p)"
    using space_seqs_solid by (auto simp: hd_rev)
  ultimately have "strip_front (map rev space_seqs) (length s) (rev s) = rev s" by (intro strip_front_solid)
  then show ?thesis by (simp add: trim_right_space_def)
qed

lemma TrimSpace_solid: "s = [] \<or> solid (hd s) \<and> solid (last s) \<Longrightarrow> TrimSpace s = s"
  using strip_front_solid [of space_seqs s] space_seqs_solid trim_right_solid
  by (auto simp: TrimSpace_def trim_left_space_def)

lemma find_blank: "find (HasPrefix (CHR 0x20 # s)) space_seqs = Some [CHR 0x20]"
proof -
  have sp: "space_seqs = map (\<lambda>b. [char_of b]) [9, 10, 11, 12, 13, 32 :: nat] @ drop 6 space_seqs"
    by (simp add: space_seqs_def)
  have "find (HasPrefix (CHR 0x20 # s)) (map (\<lambda>b. [char_of b]) [9, 10, 11, 12, 13, 32 :: nat] @ xs)
      = Some [CHR 0x20]" for xs
    by (simp add: HasPrefix_def char_of_def bit_0)
  then show ?thesis by (subst sp)
qed

lemma TrimSpace_blank:
  assumes "solid (hd s)" "solid (last s)"
  shows "TrimSpace (CHR 0x20 # s) = s"
  using assms strip_front_solid [of space_seqs s "length s"] space_seqs_solid
  by (simp add: TrimSpace_def trim_left_space_def find_blank trim_right_solid)

section \<open>Rendering\<close>

text \<open>The selector that stands for a label map.\<close>

definition render_pair :: "string \<times> string \<Rightarrow> string" where
  "render_pair p = fst p @ ''='' @ [CHR 0x22] @ snd p @ [CHR 0x22]"

definition render_selector :: "labels \<Rightarrow> string" where
  "render_selector ls = ''{'' @ str_join '', '' (map render_pair ls) @ ''}''"

text \<open>
  Keys made of at least one visible ASCII character, with no comma and no equals sign and no
  blank at either end; values without commas that neither begin nor end with a quote.
\<close>

definition selector_key :: "string \<Rightarrow> bool" where
  "selector_key k \<longleftrightarrow> k \<noteq> [] \<and> solid (hd k) \<and> solid (last k) \<and> CHR '','' \<notin> set k \<and> CHR ''='' \<notin> set k"

definition selector_value :: "string \<Rightarrow> bool" where
  "selector_value v \<longleftrightarrow> CHR '','' \<notin> set v
     \<and> (v = [] \<or> hd v \<notin> {CHR 0x22, CHR 0x27} \<and> last v \<notin> {CHR 0x22, CHR 0x27})"

section \<open>Lemmas\<close>

lemma trim_quotes:
  assumes "selector_value v"
  shows "trim_set [CHR 0x22, CHR 0x27] (CHR 0x22 # v @ [CHR 0x22]) = v"
proof -
  let ?q = "\<lambda>c. c \<in> set [CHR 0x22, CHR 0x27 :: char]"
  show ?thesis
  proof (cases "v = []")
    case True
    then show ?thesis by (simp add: trim_set_def)
  next
    case False
    then have h: "\<not> ?q (hd v)" "\<not> ?q (last v)" using assms by (auto simp: selector_value_def)
    have "dropWhile ?q (CHR 0x22 # v @ [CHR 0x22]) = v @ [CHR 0x22]"
      using False h(1) by (cases v) auto
    moreover have "dropWhile ?q (rev (v @ [CHR 0x22])) = rev v"
      using False h(2) by (cases v rule: rev_cases) auto
    ultimately show ?thesis by (simp add: trim_set_def)
  qed
qed

lemma render_pair_solid: "selector_key k \<Longrightarrow> solid (hd (render_pair (k, v))) \<and> solid (last (render_pair (k, v)))"
  by (auto simp: render_pair_def selector_key_def solid_def)

lemma render_pair_index:
  assumes "selector_key k"
  shows "str_index (render_pair (k, v)) (CHR ''='') = int (length k)"
  using assms by (simp add: str_index_def render_pair_def selector_key_def takeWhile_append_sep)

lemma parse_piece:
  assumes "TrimSpace p = render_pair (k, v)" "selector_key k" "selector_value v"
  shows "parse_pairs quote (p # ps) ls = parse_pairs quote ps (lput k v ls)"
proof -
  have k: "TrimSpace k = k" "k \<noteq> []"
    using assms(2) TrimSpace_solid by (auto simp: selector_key_def)
  have v: "TrimSpace (CHR 0x22 # v @ [CHR 0x22]) = CHR 0x22 # v @ [CHR 0x22]"
    by (rule TrimSpace_solid) (simp add: solid_def)
  have d: "drop (Suc (length k)) (render_pair (k, v)) = CHR 0x22 # v @ [CHR 0x22]"
    "take (length k) (render_pair (k, v)) = k" "render_pair (k, v) \<noteq> ''''"
    by (simp_all add: render_pair_def)
  show ?thesis
    using k by (simp add: assms(1) render_pair_index [OF assms(2)] d v trim_quotes [OF assms(3)] Let_def)
qed

lemma parse_rendered:
  assumes "\<forall>(k, v) \<in> set ls. selector_key k \<and> selector_value v"
    and "list_all2 (\<lambda>p kv. TrimSpace p = render_pair kv) ps ls"
  shows "parse_pairs quote ps acc = Inr (foldl (\<lambda>m kv. lput (fst kv) (snd kv) m) acc ls)"
  using assms(2,1)
proof (induction arbitrary: acc rule: list_all2_induct)
  case (Cons p ps kv ls)
  obtain k v where kv: "kv = (k, v)" by fastforce
  then show ?case using parse_piece [of p k v quote ps acc] Cons by simp
qed simp

lemma lput_greater: "\<forall>k' \<in> fst ` set m. k' < k \<Longrightarrow> lput k v m = m @ [(k, v)]"
  by (induction k v m rule: lput.induct) (auto dest: less_asym)

lemma foldl_lput:
  "wf_labels (m @ ls) \<Longrightarrow> foldl (\<lambda>m kv. lput (fst kv) (snd kv) m) m ls = m @ ls"
proof (induction ls arbitrary: m)
  case (Cons kv ls)
  obtain k v where kv: "kv = (k, v)" by fastforce
  have "\<forall>k' \<in> fst ` set m. k' < k" using Cons.prems by (auto simp: wf_labels_def sorted_wrt_append kv)
  then have "lput k v m = m @ [(k, v)]" by (rule lput_greater)
  then show ?case using Cons.IH [of "m @ [(k, v)]"] Cons.prems by (simp add: kv)
qed simp

lemma split_comma_blank:
  "xs \<noteq> [] \<Longrightarrow> \<forall>x \<in> set xs. CHR '','' \<notin> set x \<Longrightarrow>
   split_on (CHR '','') (str_join '', '' xs) = hd xs # map ((#) (CHR 0x20)) (tl xs)"
proof (induction "'', ''" xs rule: str_join.induct)
  case (3 x y ys)
  then have "split_on (CHR '','') (CHR 0x20 # str_join '', '' (y # ys)) = (CHR 0x20 # y) # map ((#) (CHR 0x20)) ys"
    by simp
  then show ?case using 3 split_on_append [of "CHR '',''" x] by simp
qed (auto simp: split_on_plain)

lemma render_pieces:
  assumes "\<forall>(k, v) \<in> set ls. selector_key k \<and> selector_value v" "ls \<noteq> []"
  shows "list_all2 (\<lambda>p kv. TrimSpace p = render_pair kv)
    (split_on (CHR '','') (str_join '', '' (map render_pair ls))) ls"
proof -
  have comma: "\<forall>x \<in> set (map render_pair ls). CHR '','' \<notin> set x"
    using assms(1) by (auto simp: render_pair_def selector_key_def selector_value_def)
  have solid: "solid (hd (render_pair kv))" "solid (last (render_pair kv))" "render_pair kv \<noteq> []" if "kv \<in> set ls" for kv
    using assms(1) that render_pair_solid [of "fst kv" "snd kv"] by (auto simp: render_pair_def)
  obtain a as where ls: "ls = a # as" using assms(2) by (cases ls) auto
  have "TrimSpace (render_pair a) = render_pair a" using solid [of a] by (simp add: ls TrimSpace_solid)
  moreover have "list_all2 (\<lambda>p kv. TrimSpace p = render_pair kv) (map ((#) (CHR 0x20)) (map render_pair as)) as"
    using solid by (auto simp: ls list_all2_map1 list_all2_same TrimSpace_blank)
  ultimately show ?thesis using split_comma_blank [OF _ comma] by (simp add: ls)
qed

text \<open>When a piece of the selector cannot be parsed.\<close>

definition bad_piece :: "string \<Rightarrow> bool" where
  "bad_piece p \<longleftrightarrow> TrimSpace p \<noteq> '''' \<and>
     (CHR ''='' \<notin> set (TrimSpace p) \<or> TrimSpace (takeWhile (\<lambda>c. c \<noteq> CHR ''='') (TrimSpace p)) = '''')"

lemma parse_pairs_error: "(\<exists>e. parse_pairs quote ps ls = Inl e) \<longleftrightarrow> (\<exists>p \<in> set ps. bad_piece p)"
proof (induction ps arbitrary: ls)
  case (Cons p ps)
  have t: "take (length (takeWhile P xs)) xs = takeWhile P xs" for P and xs :: string
    by (metis append_eq_conv_conj takeWhile_dropWhile_id)
  show ?case using Cons.IH by (simp add: bad_piece_def str_index_def Let_def t)
qed simp

lemma parse_pairs_wf: "parse_pairs quote ps ls = Inr m \<Longrightarrow> wf_labels ls \<Longrightarrow> wf_labels m"
  by (induction quote ps ls rule: parse_pairs.induct) (auto simp: Let_def split: if_splits)

section \<open>Properties\<close>

text \<open>
  C40. Round trip: a label map whose keys and values can be written in a selector is what
  parsing its rendering \<open>{k1="v1", k2="v2"}\<close> returns, with or without a surrounding blank.
\<close>

theorem parse_render:
  assumes "wf_labels ls" "\<forall>(k, v) \<in> set ls. selector_key k \<and> selector_value v"
  shows "ParseLabelSelector quote (render_selector ls) = Inr ls
    \<and> ParseLabelSelector quote (CHR 0x20 # render_selector ls) = Inr ls"
proof (cases "ls = []")
  case True
  have "TrimSpace ''{}'' = ''{}''" "TrimSpace (CHR 0x20 # ''{}'') = ''{}''"
    by (rule TrimSpace_solid, simp add: solid_def) (rule TrimSpace_blank, simp_all add: solid_def)
  with True show ?thesis by (simp add: ParseLabelSelector_def render_selector_def)
next
  case False
  let ?body = "str_join '', '' (map render_pair ls)"
  have trim: "TrimSpace (render_selector ls) = ''{'' @ ?body @ ''}''"
    "TrimSpace (CHR 0x20 # render_selector ls) = ''{'' @ ?body @ ''}''"
    unfolding render_selector_def
    by (rule TrimSpace_solid, simp add: solid_def) (rule TrimSpace_blank, simp_all add: solid_def)
  have "?body \<noteq> []" using False by (cases "map render_pair ls" rule: remdups_adj.cases) (auto simp: render_pair_def)
  moreover have "parse_pairs quote (split_on (CHR '','') ?body) [] = Inr ls"
    using parse_rendered [OF assms(2) render_pieces [OF assms(2) False]] foldl_lput [of "[]" ls] assms(1) by simp
  moreover have "TrimPrefix (''{'' @ ?body @ ''}'') ''{'' = ?body @ ''}''" by (rule TrimPrefix_append)
  ultimately show ?thesis by (simp add: ParseLabelSelector_def trim)
qed

text \<open>
  Parsing fails exactly if the selector, stripped of blanks and braces, has a piece
  between commas that is not blank and has no equals sign, or nothing but blanks before it;
  otherwise the result is a well-formed map.
\<close>

theorem parse_error_iff:
  "((\<exists>e. ParseLabelSelector quote s = Inl e) \<longleftrightarrow>
     TrimSpace s \<noteq> '''' \<and> TrimSpace s \<noteq> ''{}'' \<and>
     (\<exists>p \<in> set (split_on (CHR '','') (TrimSuffix (TrimPrefix (TrimSpace s) ''{'') ''}'')). bad_piece p))
   \<and> (\<forall>m. ParseLabelSelector quote s = Inr m \<longrightarrow> wf_labels m)"
  using parse_pairs_error [of quote _ "[]"] parse_pairs_wf [of quote _ "[]"]
  by (auto simp: ParseLabelSelector_def Let_def)

section \<open>Witnesses\<close>

theorem parse_render_witness:
  "ParseLabelSelector (\<lambda>s. s) (render_selector [(''app'', ''nginx''), (''env'', ''prod'')])
     = Inr [(''app'', ''nginx''), (''env'', ''prod'')]"
proof -
  have "wf_labels [(''app'', ''nginx''), (''env'', ''prod'')]" by simp
  from parse_render [OF this] show ?thesis by (simp add: selector_key_def selector_value_def solid_def)
qed

theorem parse_error_iff_witness:
  "\<exists>e. ParseLabelSelector (\<lambda>s. s) ''{app}'' = Inl e"
proof -
  have "TrimSpace ''{app}'' = ''{app}''" "TrimSpace ''app'' = ''app''"
    by (rule TrimSpace_solid, simp add: solid_def)+
  then show ?thesis
    using parse_error_iff [of "\<lambda>s. s" "''{app}''"]
    by (simp add: TrimPrefix_def TrimSuffix_def HasPrefix_def HasSuffix_def bad_piece_def)
qed

end
