(* ===== verification/IngestApi.thy ===== *)
theory IngestApi
  imports Buffer Middleware Config Parser
begin

text \<open>
  The HTTP side of the ingester: \<open>internal/ingester/handler.go\<close>, and from \<open>cmd/ingester/main.go\<close>
  the routes, the chain of wrappers and the live tail. The facts: what \<open>POST /logs\<close> does on
  every branch, that requests without a key do not reach the buffer, and that the live tail
  cannot be reached behind the access log.
\<close>

section \<open>The log endpoint\<close>

record Handler =
  hd_maxEntriesPerReq :: int

definition NewHandler :: "int \<Rightarrow> Handler" where
  "NewHandler maxEntriesPerReq =
     \<lparr>hd_maxEntriesPerReq = (if maxEntriesPerReq \<le> 0 then 10000 else maxEntriesPerReq)\<rparr>"

text \<open>The process: the buffer, which holds the broker, and the state of the rate limiter.\<close>

record 'l ingester =
  in_buffer :: Buffer
  in_limiter :: 'l

definition stamp :: "time \<Rightarrow> LogEntry \<Rightarrow> LogEntry" where
  "stamp now e = (if IsZero (Timestamp e) then e\<lparr>Timestamp := now, TZ := 0\<rparr> else e)"

text \<open>The loop of \<open>ServeHTTP\<close>; \<open>fs\<close> gives the fate of each log write. \<open>None\<close> is a panic.\<close>

fun add_entries ::
  "env \<Rightarrow> (nat \<Rightarrow> io_fault) \<Rightarrow> 's BufferOpts \<Rightarrow> time \<Rightarrow> LogEntry list \<Rightarrow> int \<Rightarrow> Buffer \<Rightarrow> metrics \<Rightarrow> int option \<times> Buffer \<times> metrics" where
  "add_entries E fs opts now [] accepted b m = (Some accepted, b, m)"
| "add_entries E fs opts now (e # es) accepted b m =
     (case Add E (fs 0) opts (stamp now e) b m of
        (None, b', m') \<Rightarrow> (None, b', m')
      | (Some ok, b', m') \<Rightarrow>
          add_entries E (\<lambda>i. fs (Suc i)) opts now es (if ok then accepted + 1 else accepted) b' m')"

text \<open>\<open>decode\<close> is the JSON decoder on a stream that ends with an error or not.\<close>

definition ServeHTTP ::
  "env \<Rightarrow> (bytes \<Rightarrow> err option \<Rightarrow> LogEntry list result) \<Rightarrow> (nat \<Rightarrow> io_fault) \<Rightarrow> 's BufferOpts \<Rightarrow> time \<Rightarrow> Handler \<Rightarrow>
   'l ingester handler" where
  "ServeHTTP E decode fs opts now h = (\<lambda>w r (a, m).
     if hr_Method r \<noteq> ''POST'' then (Some (http_error ''method not allowed'' 405), a, m)
     else
       case decode (fst (read_body r)) (snd (read_body r)) of
         Inl er \<Rightarrow> (Some (http_error (''invalid json: '' @ er) 400), a, m)
       | Inr entries \<Rightarrow>
           if length entries = 0 then (Some (http_error ''entries array is empty'' 400), a, m)
           else if int (length entries) > hd_maxEntriesPerReq h
           then (Some (http_error ''too many entries in single request'' 413), a, m)
           else
             case add_entries E fs opts now entries 0 (in_buffer a) m of
               (None, b, m') \<Rightarrow> (None, a\<lparr>in_buffer := b\<rparr>, m')
             | (Some accepted, b, m') \<Rightarrow>
                 (Some [WriteHeader 202,
                        WriteBody (''{'' @ [CHR 0x22] @ ''accepted'' @ [CHR 0x22] @ '':'' @ show_int accepted @ ''}'' @ [newline])],
                  a\<lparr>in_buffer := b\<rparr>, m'\<lparr>EntriesReceived := EntriesReceived m' + accepted\<rparr>))"

section \<open>The live tail\<close>

definition tail_filter :: "env \<Rightarrow> labels \<Rightarrow> string \<Rightarrow> LogEntry \<Rightarrow> bool" where
  "tail_filter E labelQuery levelFilter e =
     (if levelFilter \<noteq> '''' \<and> \<not> equalFold E (Level e) levelFilter then False
      else all_match labelQuery (Labels e))"

text \<open>
  \<open>tailHandler\<close> up to its subscription: \<open>upgrade\<close> is the WebSocket upgrader, which writes the
  reply on failure; an error of the selector is ignored, and its map is then nil.
\<close>

definition tail_connect ::
  "env \<Rightarrow> (string \<Rightarrow> string) \<Rightarrow> (writer \<Rightarrow> http_request \<Rightarrow> wcall list + unit) \<Rightarrow> string \<Rightarrow> 'l ingester handler" where
  "tail_connect E quote upgrade sid = (\<lambda>w r (a, m).
     case upgrade w r of
       Inl evs \<Rightarrow> (Some evs, a, m)
     | Inr _ \<Rightarrow>
         (let labelQuery = (case ParseLabelSelector quote (hr_Query r ''query'') of Inl _ \<Rightarrow> [] | Inr l \<Rightarrow> l);
              levelFilter = toLower E (hr_Query r ''level'')
          in (Some [],
              a\<lparr>in_buffer := (in_buffer a)\<lparr>b_Broker :=
                  map_option (\<lambda>br. snd (Subscribe sid (Some (tail_filter E labelQuery levelFilter)) br)) (b_Broker (in_buffer a))\<rparr>\<rparr>,
              m)))"

text \<open>
  The loop over the channel, which is never closed: each element of \<open>writes\<close> says whether the
  next write to the socket succeeds. It yields what was sent, and whether the loop has ended.
\<close>

fun tail_loop :: "env \<Rightarrow> bool list \<Rightarrow> Subscription \<Rightarrow> string list \<Rightarrow> string list \<times> bool \<times> Subscription" where
  "tail_loop E [] sub sent = (sent, False, sub)"
| "tail_loop E (ok # writes) sub sent =
     (case receive sub of
        None \<Rightarrow> (sent, False, sub)
      | Some (entry, sub') \<Rightarrow>
          (let data = (case marshalEntry E entry of Inr d \<Rightarrow> d | Inl _ \<Rightarrow> [])
           in if ok then tail_loop E writes sub' (sent @ [data]) else (sent, True, sub')))"

section \<open>Routes and wrappers of the ingester\<close>

definition health :: "'a handler" where
  "health = (\<lambda>w r s. (Some [WriteHeader 200, WriteBody ''ok''], s))"

text \<open>\<open>other\<close> is the answer of the standard multiplexer to every other path.\<close>

definition ingester_mux :: "'a handler \<Rightarrow> 'a handler \<Rightarrow> (http_request \<Rightarrow> wcall list) \<Rightarrow> 'a handler" where
  "ingester_mux logs tail_h other = (\<lambda>w r s.
     if hr_Path r = ''/logs'' then logs w r s
     else if hr_Path r = ''/health'' then health w r s
     else if hr_Path r = ''/tail'' then tail_h w r s
     else (Some (other r), s))"

definition ingester_mws :: "Config \<Rightarrow> ('a \<Rightarrow> bool \<times> 'a) \<Rightarrow> ('a handler \<Rightarrow> 'a handler) list" where
  "ingester_mws cfg allow =
     (let mws = [AccessLog];
          mws = mws @ [BodyLimit (ic_MaxBodyBytes (cf_Ingester cfg))];
          mws = (if ic_RateLimitRPS (cf_Ingester cfg) > 0 then mws @ [RateLimit allow] else mws)
      in if ac_Enabled (cf_Auth cfg) then mws @ [APIKeyAuth (ac_APIKeys (cf_Auth cfg))] else mws)"

text \<open>The limiter is part of the process and nothing else.\<close>

definition limiter_allow :: "('l \<Rightarrow> bool \<times> 'l) \<Rightarrow> 'l ingester \<Rightarrow> bool \<times> 'l ingester" where
  "limiter_allow allow a = (case allow (in_limiter a) of (ok, l) \<Rightarrow> (ok, a\<lparr>in_limiter := l\<rparr>))"

definition ingester_server :: "Config \<Rightarrow> ('l \<Rightarrow> bool \<times> 'l) \<Rightarrow> 'l ingester handler \<Rightarrow> 'l ingester handler \<Rightarrow>
    (http_request \<Rightarrow> wcall list) \<Rightarrow> 'l ingester handler" where
  "ingester_server cfg allow logs tail_h other =
     Chain (ingester_mux logs tail_h other) (ingester_mws cfg (limiter_allow allow))"

section \<open>Lemmas\<close>

lemma logged_received: "logged E f entry b m = (b1, m1) \<Longrightarrow> EntriesReceived m1 = EntriesReceived m"
  by (auto simp: logged_def Append_def Let_def split: option.splits prod.splits if_splits)

lemma dispatchFlush_received: "dispatchFlush opts b m = (ok, b', m') \<Longrightarrow> EntriesReceived m' = EntriesReceived m"
  by (auto simp: dispatchFlush_def Let_def split: prod.splits sent.splits if_splits)

lemma Add_received: "Add E f opts e b m = (r, b', m') \<Longrightarrow> EntriesReceived m' = EntriesReceived m"
proof -
  assume add: "Add E f opts e b m = (r, b', m')"
  obtain b1 m1 where l: "logged E f e b m = (b1, m1)" by fastforce
  obtain ok b2 m2 where d: "dispatchFlush opts b1 m1 = (ok, b2, m2)" by (metis prod_cases3)
  show ?thesis
    using add l d logged_received [OF l] dispatchFlush_received [OF d]
    by (auto simp: Add_def logged_def Let_def split: option.splits prod.splits if_splits)
qed

lemma add_entries_ok:
  assumes "add_entries E fs opts now es n b m = (r, b', m')" "\<not> cclosed (b_flushCh b)"
  shows "let kept = filter (\<lambda>e. \<not> below_min_level E opts e) (map (stamp now) es)
    in r = Some (n + int (length kept)) \<and> held b' = held b + mset kept \<and> EntriesReceived m' = EntriesReceived m
      \<and> \<not> cclosed (b_flushCh b')"
  using assms
proof (induction es arbitrary: fs n b m)
  case (Cons e es)
  obtain ra b1 m1 where a: "Add E (fs 0) opts (stamp now e) b m = (ra, b1, m1)" by (metis prod_cases3)
  note ok = Add_ok [OF a Cons.prems(2)] and held = Add_held [OF a]
  have rec: "EntriesReceived m1 = EntriesReceived m" by (rule Add_received [OF a])
  let ?n = "if \<not> below_min_level E opts (stamp now e) then n + 1 else n"
  have "add_entries E (\<lambda>i. fs (Suc i)) opts now es ?n b1 m1 = (r, b', m')" using Cons.prems(1) a ok by simp
  from Cons.IH [OF this] ok held rec show ?case by (auto simp: Let_def)
qed simp

text \<open>
  The process stops the buffer before the server. A request that arrives in between and makes
  the batch overflow panics, because the queue is closed.
\<close>

lemma Add_after_Stop_panics:
  assumes "cclosed (b_flushCh b)" "\<not> below_min_level E opts e" "overflows opts e b"
  shows "fst (Add E f opts e b m) = None"
proof -
  obtain r b' m' where a: "Add E f opts e b m = (r, b', m')" by (metis prod_cases3)
  then show ?thesis
  proof (cases rule: Add_cases)
    case (flushed b1 m1 b2 m2)
    have "cclosed (b_flushCh b1)" using logged_sel(4) [OF flushed(2)] assms(1) by simp
    then show ?thesis using flushed(4) by (simp add: dispatchFlush_def Let_def chan.send_closed)
  qed (use assms a in auto)
qed

lemma server_outer:
  "ingester_server cfg allow logs tail_h other =
     AccessLog (BodyLimit (ic_MaxBodyBytes (cf_Ingester cfg))
       ((if ic_RateLimitRPS (cf_Ingester cfg) > 0 then RateLimit (limiter_allow allow) else (\<lambda>h. h))
         ((if ac_Enabled (cf_Auth cfg) then APIKeyAuth (ac_APIKeys (cf_Auth cfg)) else (\<lambda>h. h))
           (ingester_mux logs tail_h other))))"
  by (simp add: ingester_server_def ingester_mws_def Let_def Chain_simps)

text \<open>The wrappers inside the access log let a request through or answer it themselves.\<close>

lemma RateLimit_cases:
  assumes "RateLimit (limiter_allow allow) h w r (a, m) = (res, a', m')"
  obtains (limited) "res = Some (http_error ''rate limit exceeded'' 429)" "in_buffer a' = in_buffer a" "m' = m"
  | (passed) a1 where "in_buffer a1 = in_buffer a" "h w r (a1, m) = (res, a', m')"
proof -
  obtain ok l where "allow (in_limiter a) = (ok, l)" by fastforce
  then show ?thesis
    using assms limited passed [of "a\<lparr>in_limiter := l\<rparr>"] by (cases ok) (auto simp: RateLimit_def limiter_allow_def)
qed

lemma server_cases:
  assumes "ingester_server cfg allow logs tail_h other w r (a, m) = (res, a', m')"
  obtains (limited) "res = Some (http_error ''rate limit exceeded'' 429)" "in_buffer a' = in_buffer a"
      "m' = m\<lparr>HTTPRequests := inc3 (HTTPRequests m) (hr_Method r) (hr_Path r) (show_int 429),
              HTTPDuration := inc2 (HTTPDuration m) (hr_Method r) (hr_Path r)\<rparr>"
  | (inner) a1 m1 where "in_buffer a1 = in_buffer a"
      "((if ac_Enabled (cf_Auth cfg) then APIKeyAuth (ac_APIKeys (cf_Auth cfg)) else (\<lambda>h. h))
         (ingester_mux logs tail_h other)) \<lparr>wr_Hijacker = False\<rparr>
         (MaxBytesReader (ic_MaxBodyBytes (cf_Ingester cfg)) r) (a1, m) = (res, a', m1)"
      "m' = (case res of None \<Rightarrow> m1
        | Some evs \<Rightarrow> m1\<lparr>HTTPRequests := inc3 (HTTPRequests m1) (hr_Method r) (hr_Path r)
              (show_int (sw_status (fold sw_call evs \<lparr>sw_status = 200, sw_bytes = 0\<rparr>))),
            HTTPDuration := inc2 (HTTPDuration m1) (hr_Method r) (hr_Path r)\<rparr>)"
proof -
  let ?auth = "(if ac_Enabled (cf_Auth cfg) then APIKeyAuth (ac_APIKeys (cf_Auth cfg)) else (\<lambda>h. h)) (ingester_mux logs tail_h other)"
  let ?h = "(if ic_RateLimitRPS (cf_Ingester cfg) > 0 then RateLimit (limiter_allow allow) else (\<lambda>h. h)) ?auth"
  let ?r = "MaxBytesReader (ic_MaxBodyBytes (cf_Ingester cfg)) r"
  obtain res1 a2 m1 where h: "?h \<lparr>wr_Hijacker = False\<rparr> ?r (a, m) = (res1, a2, m1)" by (metis prod_cases3)
  have outer: "res = res1" "a' = a2" "m' = (case res1 of None \<Rightarrow> m1
        | Some evs \<Rightarrow> m1\<lparr>HTTPRequests := inc3 (HTTPRequests m1) (hr_Method r) (hr_Path r)
              (show_int (sw_status (fold sw_call evs \<lparr>sw_status = 200, sw_bytes = 0\<rparr>))),
            HTTPDuration := inc2 (HTTPDuration m1) (hr_Method r) (hr_Path r)\<rparr>)"
    using assms h by (auto simp: server_outer AccessLog_def BodyLimit_def Let_def split: option.splits)
  show ?thesis
  proof (cases "ic_RateLimitRPS (cf_Ingester cfg) > 0")
    case True
    then have "RateLimit (limiter_allow allow) ?auth \<lparr>wr_Hijacker = False\<rparr> ?r (a, m) = (res1, a2, m1)" using h by simp
    then show ?thesis
    proof (cases rule: RateLimit_cases)
      case limited
      then show ?thesis using that(1) outer by (simp add: orderly_status)
    next
      case (passed a1)
      then show ?thesis using that(2) [of a1 m1] outer by simp
    qed
  next
    case False
    then show ?thesis using that(2) [of a m1] h outer by simp
  qed
qed

lemma ServeHTTP_result:
  assumes "ServeHTTP E decode fs opts now h w r (a, m) = (res, a', m')" "\<not> cclosed (b_flushCh (in_buffer a))"
  shows "case (if hr_Method r = ''POST'' then decode (fst (read_body r)) (snd (read_body r)) else Inl '''') of
      Inl _ \<Rightarrow> (\<exists>evs. res = Some evs \<and> client_status evs \<in> {400, 405}) \<and> a' = a \<and> m' = m
    | Inr entries \<Rightarrow>
        if 0 < length entries \<and> int (length entries) \<le> hd_maxEntriesPerReq h
        then let kept = filter (\<lambda>e. \<not> below_min_level E opts e) (map (stamp now) entries)
             in res = Some [WriteHeader 202, WriteBody (''{'' @ [CHR 0x22] @ ''accepted'' @ [CHR 0x22] @ '':''
                    @ show_int (int (length kept)) @ ''}'' @ [newline])]
                \<and> held (in_buffer a') = held (in_buffer a) + mset kept
                \<and> EntriesReceived m' = EntriesReceived m + int (length kept)
        else (\<exists>evs. res = Some evs \<and> client_status evs \<in> {400, 413}) \<and> a' = a \<and> m' = m"
proof (cases "hr_Method r = ''POST''")
  case False
  then show ?thesis using assms(1) by (auto simp: ServeHTTP_def)
next
  case post: True
  show ?thesis
  proof (cases "decode (fst (read_body r)) (snd (read_body r))")
    case (Inl er)
    then show ?thesis using assms(1) post by (auto simp: ServeHTTP_def)
  next
    case (Inr entries)
    show ?thesis
    proof (cases "0 < length entries \<and> int (length entries) \<le> hd_maxEntriesPerReq h")
      case False
      then show ?thesis using assms(1) post Inr by (auto simp: ServeHTTP_def split: if_splits)
    next
      case True
      obtain n b1 m1 where add: "add_entries E fs opts now entries 0 (in_buffer a) m = (n, b1, m1)" by (metis prod_cases3)
      note ok = add_entries_ok [OF add assms(2), unfolded Let_def]
      have "ServeHTTP E decode fs opts now h w r (a, m) =
          (Some [WriteHeader 202, WriteBody (''{'' @ [CHR 0x22] @ ''accepted'' @ [CHR 0x22] @ '':''
              @ show_int (the n) @ ''}'' @ [newline])], a\<lparr>in_buffer := b1\<rparr>, m1\<lparr>EntriesReceived := EntriesReceived m1 + the n\<rparr>)"
        using post Inr True add ok by (simp add: ServeHTTP_def)
      then show ?thesis using assms(1) post Inr True ok by (auto simp: Let_def)
    qed
  qed
qed

section \<open>Properties\<close>

text \<open>
  C14. What \<open>POST /logs\<close> does while the buffer runs. A request with between one and the maximum
  number of entries is answered with 202 and the number of entries at or above the minimum
  level; exactly these, with missing timestamps set to the time of arrival, are added to what
  the buffer holds, and the counter of received entries grows by their number. Every other
  request is answered with 400, 405 or 413 and changes nothing.
\<close>

theorem ingest_result:
  assumes "ServeHTTP E decode fs opts now h w r (a, m) = (res, a', m')" "\<not> cclosed (b_flushCh (in_buffer a))"
  shows "case (if hr_Method r = ''POST'' then decode (fst (read_body r)) (snd (read_body r)) else Inl '''') of
      Inl _ \<Rightarrow> (\<exists>evs. res = Some evs \<and> client_status evs \<in> {400, 405}) \<and> a' = a \<and> m' = m
    | Inr entries \<Rightarrow>
        if 0 < length entries \<and> int (length entries) \<le> hd_maxEntriesPerReq h
        then let kept = filter (\<lambda>e. \<not> below_min_level E opts e) (map (stamp now) entries)
             in res = Some [WriteHeader 202, WriteBody (''{'' @ [CHR 0x22] @ ''accepted'' @ [CHR 0x22] @ '':''
                    @ show_int (int (length kept)) @ ''}'' @ [newline])]
                \<and> held (in_buffer a') = held (in_buffer a) + mset kept
                \<and> EntriesReceived m' = EntriesReceived m + int (length kept)
        else (\<exists>evs. res = Some evs \<and> client_status evs \<in> {400, 413}) \<and> a' = a \<and> m' = m"
  by (rule ServeHTTP_result [OF assms])

text \<open>
  C16. With authentication on, a request for anything but \<open>/health\<close> and \<open>/metrics\<close> without one
  of the keys never reaches the buffer, whatever its path, method and body: it is answered with
  401, or with 429 by the rate limiter, and the access log counts it under the status that the
  client gets.
\<close>

theorem ingester_auth:
  assumes "ingester_server cfg allow logs tail_h other w r (a, m) = (res, a', m')" "ac_Enabled (cf_Auth cfg)"
    and "hr_Header r ''X-API-Key'' \<notin> set (ac_APIKeys (cf_Auth cfg))" "hr_Path r \<notin> {''/health'', ''/metrics''}"
  shows "\<exists>evs. res = Some evs \<and> client_status evs \<in> {401, 429} \<and> in_buffer a' = in_buffer a
    \<and> m' = m\<lparr>HTTPRequests := inc3 (HTTPRequests m) (hr_Method r) (hr_Path r) (show_int (client_status evs)),
             HTTPDuration := inc2 (HTTPDuration m) (hr_Method r) (hr_Path r)\<rparr>"
  using assms(1)
proof (cases rule: server_cases)
  case limited
  then show ?thesis by auto
next
  case (inner a1 m1)
  have "hr_Path (MaxBytesReader n r) = hr_Path r" "hr_Header (MaxBytesReader n r) = hr_Header r" for n
    by (simp_all add: MaxBytesReader_def)
  then have "res = Some (http_error ''unauthorized'' 401)" "a' = a1" "m1 = m"
    using inner(2) assms(2-4) by (auto simp: APIKeyAuth_def)
  then show ?thesis using inner(1,3) by (auto simp: orderly_status)
qed

text \<open>
  C20. The live tail cannot be used: the access log, which is always the outermost wrapper, hides
  the connection from the WebSocket upgrader. If the upgrader fails on a writer from which the
  connection cannot be taken over, no request to \<open>/tail\<close> ever subscribes.
\<close>

theorem tail_unreachable:
  assumes "\<And>w r. \<not> wr_Hijacker w \<Longrightarrow> \<exists>evs. upgrade w r = Inl evs"
    and "ingester_server cfg allow logs (tail_connect E quote upgrade sid) other w r (a, m) = (res, a', m')"
    and "hr_Path r = ''/tail''"
  shows "in_buffer a' = in_buffer a"
  using assms(2)
proof (cases rule: server_cases)
  case limited
  then show ?thesis by simp
next
  case (inner a1 m1)
  let ?r = "MaxBytesReader (ic_MaxBodyBytes (cf_Ingester cfg)) r"
  obtain evs where evs: "upgrade \<lparr>wr_Hijacker = False\<rparr> ?r = Inl evs" using assms(1) [of "\<lparr>wr_Hijacker = False\<rparr>" ?r] by auto
  have path: "hr_Path ?r = ''/tail''" using assms(3) by (simp add: MaxBytesReader_def)
  have mux: "ingester_mux logs (tail_connect E quote upgrade sid) other \<lparr>wr_Hijacker = False\<rparr> ?r (a1, m) = (Some evs, a1, m)"
    using path evs by (simp add: ingester_mux_def tail_connect_def)
  have "a' = a1"
    using inner(2) path mux by (auto simp: APIKeyAuth_def split: if_splits)
  then show ?thesis using inner(1) by simp
qed

section \<open>Witnesses\<close>

text \<open>A decoder that finds two entries in every body, one of them below the minimum level.\<close>

definition wit_decode :: "bytes \<Rightarrow> err option \<Rightarrow> LogEntry list result" where
  "wit_decode body er = (case er of None \<Rightarrow> Inr [wit_entry, wit_entry\<lparr>Level := ''DEBUG''\<rparr>] | Some e \<Rightarrow> Inl e)"

definition wit_post :: "string \<Rightarrow> http_request" where
  "wit_post path =
     \<lparr>hr_Method = ''POST'', hr_Path = path, hr_Header = (\<lambda>_. ''''), hr_Query = (\<lambda>_. ''''), hr_Body = ''{}'', hr_BodyLimit = None\<rparr>"

definition wit_ingester :: "unit ingester" where
  "wit_ingester = \<lparr>in_buffer = wit_buffer\<lparr>b_Broker := Some NewBroker\<rparr>, in_limiter = ()\<rparr>"

theorem ingest_result_witness:
  "\<exists>a' m'. ServeHTTP ref_env wit_decode (\<lambda>_. no_fault) wit_opts 9 (NewHandler 10) \<lparr>wr_Hijacker = True\<rparr> (wit_post ''/logs'')
       (wit_ingester, metrics0) = (Some [WriteHeader 202, WriteBody (''{'' @ [CHR 0x22] @ ''accepted'' @ [CHR 0x22] @ '':1}'' @ [newline])], a', m')
     \<and> held (in_buffer a') = {#wit_entry#} \<and> EntriesReceived m' = 1"
proof -
  obtain res a' m' where run: "ServeHTTP ref_env wit_decode (\<lambda>_. no_fault) wit_opts 9 (NewHandler 10) \<lparr>wr_Hijacker = True\<rparr>
      (wit_post ''/logs'') (wit_ingester, metrics0) = (res, a', m')" by (metis prod_cases3)
  have opened: "\<not> cclosed (b_flushCh (in_buffer wit_ingester))" by (simp add: wit_ingester_def wit_buffer_def)
  have st: "stamp 9 wit_entry = wit_entry" "stamp 9 (wit_entry\<lparr>Level := ''DEBUG''\<rparr>) = wit_entry\<lparr>Level := ''DEBUG''\<rparr>"
    by (simp_all add: stamp_def wit_entry_def IsZero_def zero_time_def second_def)
  have one: "show_int 1 = ''1''" by code_simp
  have held0: "held (in_buffer wit_ingester) = {#}" by (simp add: wit_ingester_def wit_buffer_def held_def pending_def)
  have dec: "wit_decode (fst (read_body (wit_post ''/logs''))) (snd (read_body (wit_post ''/logs'')))
      = Inr [wit_entry, wit_entry\<lparr>Level := ''DEBUG''\<rparr>]" "hr_Method (wit_post ''/logs'') = ''POST''"
    by (simp_all add: wit_decode_def wit_post_def read_body_def)
  show ?thesis
    using ingest_result [OF run opened] run
    by (simp add: dec NewHandler_def st wit_below one held0 metrics0_def Let_def)
qed

theorem ingester_auth_witness:
  "\<exists>a' m' evs. ingester_server wit_config (\<lambda>_. (True, ())) (ServeHTTP ref_env wit_decode (\<lambda>_. no_fault) wit_opts 9 (NewHandler 10))
       (tail_connect ref_env (\<lambda>s. s) (\<lambda>w r. Inl []) ''s'') (\<lambda>r. []) \<lparr>wr_Hijacker = True\<rparr> (wit_post ''/logs'')
       (wit_ingester, metrics0) = (Some evs, a', m')
     \<and> in_buffer a' = in_buffer wit_ingester"
proof -
  obtain res a' m' where run: "ingester_server wit_config (\<lambda>_. (True, ()))
       (ServeHTTP ref_env wit_decode (\<lambda>_. no_fault) wit_opts 9 (NewHandler 10))
       (tail_connect ref_env (\<lambda>s. s) (\<lambda>w r. Inl []) ''s'') (\<lambda>r. []) \<lparr>wr_Hijacker = True\<rparr> (wit_post ''/logs'')
       (wit_ingester, metrics0) = (res, a', m')" by (metis prod_cases3)
  show ?thesis using ingester_auth [OF run] run by (auto simp: wit_config_def wit_post_def)
qed

text \<open>Without authentication the request reaches the upgrader, which finds no connection to take over.\<close>

theorem tail_unreachable_witness:
  "\<exists>a' m'. ingester_server (wit_config\<lparr>cf_Auth := \<lparr>ac_Enabled = False, ac_APIKeys = []\<rparr>\<rparr>) (\<lambda>_. (True, ()))
       (ServeHTTP ref_env wit_decode (\<lambda>_. no_fault) wit_opts 9 (NewHandler 10))
       (tail_connect ref_env (\<lambda>s. s) (\<lambda>w r. if wr_Hijacker w then Inr () else Inl (http_error ''no hijacker'' 500)) ''s'')
       (\<lambda>r. []) \<lparr>wr_Hijacker = True\<rparr> (wit_post ''/tail'') (wit_ingester, metrics0) = (Some (http_error ''no hijacker'' 500), a', m')
     \<and> in_buffer a' = in_buffer wit_ingester"
proof -
  let ?cfg = "wit_config\<lparr>cf_Auth := \<lparr>ac_Enabled = False, ac_APIKeys = []\<rparr>\<rparr>"
  let ?up = "\<lambda>w (r :: http_request). if wr_Hijacker w then Inr () else Inl (http_error ''no hijacker'' 500)"
  obtain res a' m' where run: "ingester_server ?cfg (\<lambda>_. (True, ()))
       (ServeHTTP ref_env wit_decode (\<lambda>_. no_fault) wit_opts 9 (NewHandler 10))
       (tail_connect ref_env (\<lambda>s. s) ?up ''s'') (\<lambda>r. []) \<lparr>wr_Hijacker = True\<rparr> (wit_post ''/tail'')
       (wit_ingester, metrics0) = (res, a', m')" by (metis prod_cases3)
  have "in_buffer a' = in_buffer wit_ingester"
    by (rule tail_unreachable [OF _ run]) (simp_all add: wit_post_def)
  moreover have "res = Some (http_error ''no hijacker'' 500)"
    using run by (auto simp: server_outer AccessLog_def BodyLimit_def MaxBytesReader_def RateLimit_def limiter_allow_def
        ingester_mux_def tail_connect_def wit_config_def wit_post_def wit_ingester_def Let_def split: if_splits)
  ultimately show ?thesis using run by blast
qed

end
