(* ===== verification/Jobs.thy ===== *)
theory Jobs
  imports Exporter
begin

text \<open>
  \<open>internal/exporter/pool.go\<close> and \<open>registry.go\<close>: export jobs run concurrently, at most
  \<open>maxConcurrent\<close> of them, and can be looked up and cancelled while they run. A job is shared
  by pointer between its goroutine, the registry and the HTTP handlers, so jobs live on a heap.
  The body of a goroutine is the protocol \<open>run_step\<close> of the writes of \<open>Exporter.Run\<close> to its job,
  which the sequential run is shown to follow; the pool interleaves these protocols with
  \<open>Submit\<close> and \<open>Cancel\<close>. Writes that follow each other without a call between them (the final ones
  of a run, those of one error, those of \<open>Cancel\<close>, the deferred calls of a goroutine) are one step,
  although no mutex makes them one. The facts: the concurrency limit, that every accepted job can be
  found, and which status it shows.
\<close>

section \<open>The registry\<close>

text \<open>Addresses of jobs and identities of contexts are numbers.\<close>

type_synonym addr = nat
type_synonym ctxid = nat

record Registry =
  rg_jobs :: "(string \<times> addr) list"
  rg_cancels :: "(string \<times> ctxid) list"

definition NewRegistry :: Registry where
  "NewRegistry = \<lparr>rg_jobs = [], rg_cancels = []\<rparr>"

text \<open>The cancel function of a context is represented by the context.\<close>

definition RegistryAdd :: "string \<Rightarrow> addr \<Rightarrow> ctxid \<Rightarrow> Registry \<Rightarrow> Registry" where
  "RegistryAdd i job cancel r =
     r\<lparr>rg_jobs := AList.update i job (rg_jobs r), rg_cancels := AList.update i cancel (rg_cancels r)\<rparr>"

definition RegistryGet :: "string \<Rightarrow> Registry \<Rightarrow> addr option" where
  "RegistryGet i r = map_of (rg_jobs r) i"

text \<open>\<open>order\<close> is the order in which the runtime iterates over the map.\<close>

definition RegistryList :: "((string \<times> addr) list \<Rightarrow> (string \<times> addr) list) \<Rightarrow> Registry \<Rightarrow> addr list" where
  "RegistryList order r = map snd (order (rg_jobs r))"

section \<open>The writes of a run to its job\<close>

text \<open>Where the goroutine is in \<open>Exporter.Run\<close>; the number is that of the chunks still to come.\<close>

datatype pc =
    Start
  | Listing
  | Chunks nat
  | Fetching nat
  | Sending nat
  | LastBatch
  | Final
  | Returned "err option"

definition complete :: "int \<Rightarrow> time \<Rightarrow> ExportJob \<Rightarrow> ExportJob" where
  "complete exported now job =
     (let job3 = job\<lparr>job_LogsExported := exported, job_CompletedAt := now\<rparr>
      in if job_ErrorCount job3 > 0
         then job3\<lparr>job_Status := ExportStatusCompleted,
                   job_Error := show_int (job_ErrorCount job3) @ '' errors during export''\<rparr>
         else job3\<lparr>job_Status := ExportStatusCompleted\<rparr>)"

text \<open>The writes of \<open>Run\<close> between two of its calls; \<open>d\<close> says whether its context is done. What the services answer is left open.\<close>

inductive run_step :: "bool \<Rightarrow> pc \<times> ExportJob \<Rightarrow> pc \<times> ExportJob \<Rightarrow> bool" for d where
  run_start: "run_step d (Start, j) (Listing, j\<lparr>job_Status := ExportStatusRunning\<rparr>)"
| run_list_error: "run_step d (Listing, j) (Returned (Some e), j\<lparr>job_Status := ExportStatusFailed, job_Error := e\<rparr>)"
| run_list_ok: "run_step d (Listing, j) (Chunks n, j\<lparr>job_ChunksTotal := int n\<rparr>)"
| run_cancelled: "d \<Longrightarrow>
    run_step d (Chunks (Suc n), j) (Returned (Some e), j\<lparr>job_Status := ExportStatusFailed, job_Error := e\<rparr>)"
| run_check: "\<not> d \<Longrightarrow> run_step d (Chunks (Suc n), j) (Fetching n, j)"
| run_fetch_error: "run_step d (Fetching n, j)
    (Chunks n, j\<lparr>job_ErrorCount := job_ErrorCount j + 1, job_ChunksProcessed := job_ChunksProcessed j + 1\<rparr>)"
| run_fetch_ok: "run_step d (Fetching n, j) (Sending n, j)"
| run_batch: "run_step d (Sending n, j) (Sending n, note_error er j)"
| run_chunk_done: "run_step d (Sending n, j) (Chunks n, j\<lparr>job_ChunksProcessed := job_ChunksProcessed j + 1\<rparr>)"
| run_chunks_end: "run_step d (Chunks 0, j) (LastBatch, j)"
| run_last_batch: "run_step d (LastBatch, j) (Final, note_error er j)"
| run_complete: "run_step d (Final, j) (Returned None, complete exported now j)"

inductive_cases run_step_cases: "run_step d (p, j) q"

text \<open>A run with a context that may be done at any moment.\<close>

definition run_any :: "pc \<times> ExportJob \<Rightarrow> pc \<times> ExportJob \<Rightarrow> bool" where
  "run_any x y \<longleftrightarrow> (\<exists>d. run_step d x y)"

section \<open>The process\<close>

text \<open>A goroutine; \<open>wk_released\<close> says that it has ended and given its slot back.\<close>

record worker =
  wk_job :: addr
  wk_ctx :: ctxid
  wk_pc :: pc
  wk_released :: bool

text \<open>
  The heap of jobs with the next free number, the contexts that were cancelled, whether the
  context of the process is cancelled, the registry, the semaphore and wait group of the pool,
  and the goroutines.
\<close>

record pool =
  pl_heap :: "addr \<Rightarrow> ExportJob"
  pl_next :: nat
  pl_cancelled :: "ctxid \<Rightarrow> bool"
  pl_shutdown :: bool
  pl_registry :: Registry
  pl_sem :: "unit chan"
  pl_wg :: nat
  pl_workers :: "worker list"
  pl_mx :: metrics

definition NewPool :: "int \<Rightarrow> (addr \<Rightarrow> ExportJob) \<Rightarrow> metrics \<Rightarrow> pool" where
  "NewPool maxConcurrent heap m =
     \<lparr>pl_heap = heap, pl_next = 0, pl_cancelled = (\<lambda>_. False), pl_shutdown = False, pl_registry = NewRegistry,
      pl_sem = make_chan (nat (if maxConcurrent \<le> 0 then 4 else maxConcurrent)), pl_wg = 0, pl_workers = [], pl_mx = m\<rparr>"

text \<open>A new context is a child of that of the process.\<close>

definition ctx_done :: "pool \<Rightarrow> ctxid \<Rightarrow> bool" where
  "ctx_done p c \<longleftrightarrow> pl_shutdown p \<or> pl_cancelled p c"

definition alloc :: "ExportJob \<Rightarrow> pool \<Rightarrow> addr \<times> pool" where
  "alloc j p = (pl_next p, p\<lparr>pl_heap := (pl_heap p)(pl_next p := j), pl_next := pl_next p + 1\<rparr>)"

definition Submit :: "addr \<Rightarrow> pool \<Rightarrow> bool \<times> pool" where
  "Submit job p =
     (case try_send () (pl_sem p) of
        (Sent, sem) \<Rightarrow>
          (let jobCtx = pl_next p;
               p1 = p\<lparr>pl_sem := sem, pl_next := pl_next p + 1, pl_cancelled := (pl_cancelled p)(jobCtx := False)\<rparr>;
               p2 = p1\<lparr>pl_registry := RegistryAdd (job_ID (pl_heap p job)) job jobCtx (pl_registry p1)\<rparr>
           in (True, p2\<lparr>pl_wg := pl_wg p2 + 1,
                        pl_workers := pl_workers p2 @ [\<lparr>wk_job = job, wk_ctx = jobCtx, wk_pc = Start, wk_released = False\<rparr>]\<rparr>))
      | (_, sem) \<Rightarrow> (False, p))"

text \<open>The end of the goroutine: the counter, then the deferred calls.\<close>

definition finish_worker :: "nat \<Rightarrow> err option \<Rightarrow> pool \<Rightarrow> pool" where
  "finish_worker i er p =
     p\<lparr>pl_mx := (pl_mx p)\<lparr>ExportJobsTotal := inc1 (ExportJobsTotal (pl_mx p)) (if er \<noteq> None then ''failed'' else ''completed'')\<rparr>,
       pl_sem := (case recv (pl_sem p) of None \<Rightarrow> pl_sem p | Some (_, sem) \<Rightarrow> sem),
       pl_wg := pl_wg p - 1,
       pl_workers := (pl_workers p)[i := (pl_workers p ! i)\<lparr>wk_released := True\<rparr>]\<rparr>"

definition RegistryCancel :: "string \<Rightarrow> pool \<Rightarrow> bool \<times> pool" where
  "RegistryCancel i p =
     (case map_of (rg_cancels (pl_registry p)) i of
        None \<Rightarrow> (False, p)
      | Some c \<Rightarrow>
          (let p1 = p\<lparr>pl_cancelled := (pl_cancelled p)(c := True)\<rparr>
           in case map_of (rg_jobs (pl_registry p1)) i of
                None \<Rightarrow> (True, p1)
              | Some a \<Rightarrow>
                  (True, p1\<lparr>pl_heap := (pl_heap p1)
                     (a := (pl_heap p1 a)\<lparr>job_Status := ExportStatusFailed, job_Error := ''cancelled by user''\<rparr>)\<rparr>)))"

text \<open>\<open>Pool.Stop\<close> returns once the wait group is at zero.\<close>

definition PoolStop_returns :: "pool \<Rightarrow> bool" where
  "PoolStop_returns p \<longleftrightarrow> pl_wg p = 0"

text \<open>
  The process: jobs are submitted under new identifiers, goroutines make their steps, end and
  give their slots back, clients cancel, and the process may be told to shut down.
\<close>

inductive pool_step :: "pool \<Rightarrow> pool \<Rightarrow> bool" where
  submit: "job_ID j \<notin> fst ` set (rg_jobs (pl_registry p)) \<Longrightarrow> job_Status j = ExportStatusPending \<Longrightarrow>
     job_ChunksProcessed j = 0 \<Longrightarrow> alloc j p = (a, p1) \<Longrightarrow> Submit a p1 = (b, p2) \<Longrightarrow> pool_step p p2"
| work: "i < length (pl_workers p) \<Longrightarrow> wk = pl_workers p ! i \<Longrightarrow>
     run_step (ctx_done p (wk_ctx wk)) (wk_pc wk, pl_heap p (wk_job wk)) (pc', j') \<Longrightarrow>
     pool_step p (p\<lparr>pl_heap := (pl_heap p)(wk_job wk := j'), pl_workers := (pl_workers p)[i := wk\<lparr>wk_pc := pc'\<rparr>]\<rparr>)"
| finish: "i < length (pl_workers p) \<Longrightarrow> wk_pc (pl_workers p ! i) = Returned er \<Longrightarrow> \<not> wk_released (pl_workers p ! i) \<Longrightarrow>
     pool_step p (finish_worker i er p)"
| cancel: "RegistryCancel i p = (b, p') \<Longrightarrow> pool_step p p'"
| shutdown: "pool_step p (p\<lparr>pl_shutdown := True\<rparr>)"

definition pool_init :: "int \<Rightarrow> pool \<Rightarrow> bool" where
  "pool_init maxConcurrent p \<longleftrightarrow> (\<exists>heap m. p = NewPool maxConcurrent heap m)"

section \<open>The sequential run follows the protocol\<close>

lemma run_anyI: "run_step d x y \<Longrightarrow> run_any x y"
  unfolding run_any_def by blast

lemma run_anyI2: "run_step d x y \<Longrightarrow> run_any\<^sup>*\<^sup>* x y"
  by (rule r_into_rtranclp) (rule run_anyI)

lemmas run_rules = run_step.intros [THEN run_anyI2]

lemma send_full_runs:
  "send_full bulk n p job t w = (p', job', t', w') \<Longrightarrow> run_any\<^sup>*\<^sup>* (Sending k, job) (Sending k, job')"
proof (induction bulk n p job t w rule: send_full.induct)
  case (1 bulk n p job t w)
  from 1(2) show ?case
  proof (cases rule: send_full_cases)
    case (send m er w1)
    have "run_any\<^sup>*\<^sup>* (Sending k, note_error er job) (Sending k, job')"
      by (rule 1(1) [OF _ send(3) [symmetric] refl send(4)]) (use send(1,2) in simp)
    then show ?thesis using run_anyI [OF run_batch] by (meson converse_rtranclp_into_rtranclp)
  qed simp
qed

lemma export_chunks_runs:
  "export_chunks E api os C rnd e keys p job t w = (er, p', job', t', w') \<Longrightarrow>
   run_any\<^sup>*\<^sup>* (Chunks (length keys), job) (case er of None \<Rightarrow> (Chunks 0, job') | Some m \<Rightarrow> (Returned (Some m), job'))"
proof (induction keys arbitrary: p job t w)
  case (Cons key keys)
  show ?case
  proof (cases "ctx_err C w")
    case (Some m)
    then have "er = Some m" "job' = job\<lparr>job_Status := ExportStatusFailed, job_Error := m\<rparr>" using Cons.prems by simp_all
    then show ?thesis using run_rules(4) [OF TrueI, of "length keys" job m] by simp
  next
    case None
    obtain es fer w1 where f: "fetchAndFilterJob E api e key job w = ((es, fer), w1)" by (metis prod.collapse)
    have check: "run_any\<^sup>*\<^sup>* (Chunks (length (key # keys)), job) (Fetching (length keys), job)"
      using run_rules(5) [of False "length keys" job] by simp
    show ?thesis
    proof (cases fer)
      case (Some m)
      let ?j = "job\<lparr>job_ErrorCount := job_ErrorCount job + 1, job_ChunksProcessed := job_ChunksProcessed job + 1\<rparr>"
      have "export_chunks E api os C rnd e keys p ?j t w1 = (er, p', job', t', w')"
        using Cons.prems None f Some by simp
      note IH = Cons.IH [OF this]
      have "run_any\<^sup>*\<^sup>* (Fetching (length keys), job) (Chunks (length keys), ?j)" by (rule run_rules(6))
      then show ?thesis using check IH by (meson rtranclp_trans)
    next
      case none: None
      obtain p1 j1 t1 w2 where sf: "send_full (bulkIndexWithRetry E os C rnd e) (nat (ex_batchSize e)) (p @ es) job t w1
          = (p1, j1, t1, w2)" by (metis prod_cases4)
      let ?j = "j1\<lparr>job_ChunksProcessed := job_ChunksProcessed j1 + 1\<rparr>"
      have "export_chunks E api os C rnd e keys p1 ?j t1 w2 = (er, p', job', t', w')"
        using Cons.prems None f none sf by simp
      note IH = Cons.IH [OF this]
      have "run_any\<^sup>*\<^sup>* (Fetching (length keys), job) (Sending (length keys), job)" by (rule run_rules(7))
      moreover have "run_any\<^sup>*\<^sup>* (Sending (length keys), j1) (Chunks (length keys), ?j)" by (rule run_rules(9))
      ultimately show ?thesis using check send_full_runs [OF sf, of "length keys"] IH by (meson rtranclp_trans)
    qed
  qed
qed auto

lemma RunExport_end:
  assumes "RunExport E api os C rnd now e job w = (None, job', w')"
    and l: "list_prefixes api (ex_s3 e) (timePrefixes (job_Service job) (job_StartTime job) (job_EndTime job)) [] w = (Inr keys, w1)"
    and x: "export_chunks E api os C rnd e keys [] (job\<lparr>job_Status := ExportStatusRunning, job_ChunksTotal := int (length keys)\<rparr>) 0 w1
        = (None, p, j, t, w2)"
  shows "\<exists>er exported. job' = complete exported now (note_error er j)"
proof (cases "0 < length p")
  case True
  obtain k er w3 where b: "bulkIndexWithRetry E os C rnd e p w2 = ((k, er), w3)" by (metis prod.collapse)
  have "job' = complete (t + k) now (note_error er j)"
    using assms(1) l x b True by (simp add: RunExport_def complete_def Let_def)
  then show ?thesis by blast
next
  case False
  have "job' = complete t now (note_error None j)"
    using assms(1) l x False by (simp add: RunExport_def complete_def Let_def)
  then show ?thesis by blast
qed

lemma RunExport_runs:
  assumes "RunExport E api os C rnd now e job w = (er, job', w')"
  shows "run_any\<^sup>*\<^sup>* (Start, job) (Returned er, job')"
proof -
  let ?j = "job\<lparr>job_Status := ExportStatusRunning\<rparr>"
  have start: "run_any\<^sup>*\<^sup>* (Start, job) (Listing, ?j)" by (rule run_rules(1))
  have list_ok: "run_any\<^sup>*\<^sup>* (Listing, ?j) (Chunks n, ?j\<lparr>job_ChunksTotal := int n\<rparr>)" for n by (rule run_rules(3))
  from assms show ?thesis
  proof (cases rule: RunExport_cases)
    case (list m)
    have "job' = ?j\<lparr>job_Status := ExportStatusFailed, job_Error := m\<rparr>"
      using assms list by (simp add: RunExport_def Let_def)
    then have "run_any\<^sup>*\<^sup>* (Listing, ?j) (Returned (Some m), job')" using run_rules(2) by metis
    then show ?thesis using start list(2) by (meson rtranclp_trans)
  next
    case (abort m keys w1 p t)
    have "run_any\<^sup>*\<^sup>* (Chunks (length keys), ?j\<lparr>job_ChunksTotal := int (length keys)\<rparr>) (Returned (Some m), job')"
      using export_chunks_runs [OF abort(3)] abort(2) by simp
    then show ?thesis using start list_ok abort(2) by (meson rtranclp_trans)
  next
    case (finish keys w1 p j t w2 w3 t2 j2)
    obtain ber exported where j': "job' = complete exported now (note_error ber j)"
      using RunExport_end [OF assms [unfolded finish(3)] finish(1,2)] by blast
    have "run_any\<^sup>*\<^sup>* (Chunks (length keys), ?j\<lparr>job_ChunksTotal := int (length keys)\<rparr>) (Chunks 0, j)"
      using export_chunks_runs [OF finish(2)] by simp
    moreover have "run_any\<^sup>*\<^sup>* (Chunks 0, j) (LastBatch, j)" by (rule run_rules(10))
    moreover have "run_any\<^sup>*\<^sup>* (LastBatch, j) (Final, note_error ber j)" by (rule run_rules(11))
    moreover have "run_any\<^sup>*\<^sup>* (Final, note_error ber j) (Returned None, job')" unfolding j' by (rule run_rules(12))
    ultimately show ?thesis using start list_ok finish(3) by (meson rtranclp_trans)
  qed
qed

section \<open>The invariant of the pool\<close>

text \<open>The status a job shows at each point of its run, if it was not cancelled.\<close>

fun pc_status :: "pc \<Rightarrow> ExportJobStatus" where
  "pc_status Start = ExportStatusPending"
| "pc_status (Returned None) = ExportStatusCompleted"
| "pc_status (Returned (Some _)) = ExportStatusFailed"
| "pc_status _ = ExportStatusRunning"

definition progress_ok :: "pc \<Rightarrow> ExportJob \<Rightarrow> bool" where
  "progress_ok pc j \<longleftrightarrow>
     (case pc of
        Start \<Rightarrow> job_ChunksProcessed j = 0
      | Listing \<Rightarrow> job_ChunksProcessed j = 0
      | Chunks n \<Rightarrow> job_ChunksProcessed j + int n = job_ChunksTotal j
      | Fetching n \<Rightarrow> job_ChunksProcessed j + int n + 1 = job_ChunksTotal j
      | Sending n \<Rightarrow> job_ChunksProcessed j + int n + 1 = job_ChunksTotal j
      | Returned (Some _) \<Rightarrow> True
      | _ \<Rightarrow> job_ChunksProcessed j = job_ChunksTotal j)"

definition active :: "pool \<Rightarrow> nat" where
  "active p = length (filter (\<lambda>wk. \<not> wk_released wk) (pl_workers p))"

definition worker_ok :: "pool \<Rightarrow> worker \<Rightarrow> bool" where
  "worker_ok p wk \<longleftrightarrow> wk_job wk < pl_next p \<and> wk_ctx wk < pl_next p
     \<and> map_of (rg_jobs (pl_registry p)) (job_ID (pl_heap p (wk_job wk))) = Some (wk_job wk)
     \<and> map_of (rg_cancels (pl_registry p)) (job_ID (pl_heap p (wk_job wk))) = Some (wk_ctx wk)
     \<and> (job_Status (pl_heap p (wk_job wk)) = pc_status (wk_pc wk)
        \<or> pl_cancelled p (wk_ctx wk) \<and> job_Status (pl_heap p (wk_job wk)) = ExportStatusFailed)
     \<and> progress_ok (wk_pc wk) (pl_heap p (wk_job wk))
     \<and> (wk_released wk \<longrightarrow> (\<exists>er. wk_pc wk = Returned er))"

definition pool_inv :: "nat \<Rightarrow> pool \<Rightarrow> bool" where
  "pool_inv cap p \<longleftrightarrow> (\<forall>wk \<in> set (pl_workers p). worker_ok p wk)
     \<and> distinct (map wk_job (pl_workers p)) \<and> distinct (map wk_ctx (pl_workers p))
     \<and> length (cbuf (pl_sem p)) = active p \<and> pl_wg p = active p \<and> active p \<le> cap
     \<and> ccap (pl_sem p) = cap \<and> \<not> cclosed (pl_sem p)
     \<and> (\<forall>i a. map_of (rg_jobs (pl_registry p)) i = Some a \<longrightarrow>
          (\<exists>wk \<in> set (pl_workers p). wk_job wk = a \<and> job_ID (pl_heap p a) = i))
     \<and> dom (map_of (rg_cancels (pl_registry p))) = dom (map_of (rg_jobs (pl_registry p)))"

lemma pool_invI:
  assumes "\<forall>wk \<in> set (pl_workers p). worker_ok p wk" "distinct (map wk_job (pl_workers p))" "distinct (map wk_ctx (pl_workers p))"
    and "length (cbuf (pl_sem p)) = active p" "pl_wg p = active p" "active p \<le> cap" "ccap (pl_sem p) = cap" "\<not> cclosed (pl_sem p)"
    and "\<And>i a. map_of (rg_jobs (pl_registry p)) i = Some a \<Longrightarrow>
          \<exists>wk \<in> set (pl_workers p). wk_job wk = a \<and> job_ID (pl_heap p a) = i"
    and "dom (map_of (rg_cancels (pl_registry p))) = dom (map_of (rg_jobs (pl_registry p)))"
  shows "pool_inv cap p"
  using assms unfolding pool_inv_def by blast

lemma pool_invD:
  assumes "pool_inv cap p"
  shows "length (cbuf (pl_sem p)) = active p" "pl_wg p = active p" "active p \<le> cap" "ccap (pl_sem p) = cap" "\<not> cclosed (pl_sem p)"
    and "dom (map_of (rg_cancels (pl_registry p))) = dom (map_of (rg_jobs (pl_registry p)))"
    and "wk \<in> set (pl_workers p) \<Longrightarrow> worker_ok p wk"
  using assms unfolding pool_inv_def by blast+

lemma pool_inv_tracked:
  "pool_inv cap p \<Longrightarrow> map_of (rg_jobs (pl_registry p)) i = Some a \<Longrightarrow>
   \<exists>wk \<in> set (pl_workers p). wk_job wk = a \<and> job_ID (pl_heap p a) = i"
  unfolding pool_inv_def by blast

lemma RegistryAdd_map [simp]:
  "map_of (rg_jobs (RegistryAdd i a c r)) = (map_of (rg_jobs r))(i \<mapsto> a)"
  "map_of (rg_cancels (RegistryAdd i a c r)) = (map_of (rg_cancels r))(i \<mapsto> c)"
  by (simp_all add: RegistryAdd_def update_conv')

lemma run_step_keeps:
  assumes "run_step d (pc, j) (pc', j')"
  shows "job_ID j' = job_ID j \<and> (progress_ok pc j \<longrightarrow> progress_ok pc' j')
    \<and> (job_Status j' = pc_status pc' \<or> job_Status j' = job_Status j \<and> pc_status pc' = pc_status pc)
    \<and> (\<forall>er. pc \<noteq> Returned er)"
  using assms by (elim run_step_cases) (auto simp: progress_ok_def complete_def Let_def note_error_def)

lemma active_update:
  "i < length ws \<Longrightarrow> wk_released v = wk_released (ws ! i) \<Longrightarrow>
   length (filter (\<lambda>wk. \<not> wk_released wk) (ws[i := v])) = length (filter (\<lambda>wk. \<not> wk_released wk) ws)"
  by (induction ws arbitrary: i) (auto split: nat.splits)

lemma active_release:
  "i < length ws \<Longrightarrow> \<not> wk_released (ws ! i) \<Longrightarrow>
   Suc (length (filter (\<lambda>wk. \<not> wk_released wk) (ws[i := (ws ! i)\<lparr>wk_released := True\<rparr>])))
     = length (filter (\<lambda>wk. \<not> wk_released wk) ws)"
  by (induction ws arbitrary: i) (auto split: nat.splits)

lemma map_wk_update:
  "i < length ws \<Longrightarrow> f v = f (ws ! i) \<Longrightarrow> map f (ws[i := v]) = map f ws"
  by (simp add: map_update) (metis list_update_id length_map nth_map)

lemma pool_inv_init: "pool_init n p \<Longrightarrow> pool_inv (nat (if n \<le> 0 then 4 else n)) p"
  by (auto simp: pool_init_def NewPool_def pool_inv_def active_def NewRegistry_def)

lemma pool_inv_work:
  assumes inv: "pool_inv cap p" and i: "i < length (pl_workers p)" and wk: "wk = pl_workers p ! i"
    and run: "run_step d (wk_pc wk, pl_heap p (wk_job wk)) (pc', j')"
  shows "pool_inv cap (p\<lparr>pl_heap := (pl_heap p)(wk_job wk := j'), pl_workers := (pl_workers p)[i := wk\<lparr>wk_pc := pc'\<rparr>]\<rparr>)"
    (is "pool_inv cap ?q")
proof -
  note k = run_step_keeps [OF run]
  have mem: "wk \<in> set (pl_workers p)" using i wk by simp
  have maps: "map wk_job (pl_workers ?q) = map wk_job (pl_workers p)" "map wk_ctx (pl_workers ?q) = map wk_ctx (pl_workers p)"
    using i wk by (simp_all add: map_wk_update)
  have "worker_ok p v" if "v \<in> set (pl_workers p)" for v using inv that by (simp add: pool_inv_def)
  note ok = this
  have other: "wk_job v \<noteq> wk_job wk" if "v = pl_workers p ! j" "j < length (pl_workers p)" "j \<noteq> i" for v j
    using inv that i wk by (simp add: pool_inv_def distinct_map) (metis distinct_conv_nth inj_onD nth_mem)
  have w1: "worker_ok ?q (wk\<lparr>wk_pc := pc'\<rparr>)"
    using ok [OF mem] k by (auto simp: worker_ok_def)
  have "worker_ok ?q v" if "v \<in> set (pl_workers ?q)" for v
  proof -
    have "v \<in> set ((pl_workers p)[i := wk\<lparr>wk_pc := pc'\<rparr>])" using that by simp
    then obtain j where j: "j < length (pl_workers p)" "v = (pl_workers p)[i := wk\<lparr>wk_pc := pc'\<rparr>] ! j"
      unfolding in_set_conv_nth by auto
    show ?thesis
    proof (cases "j = i")
      case True
      then show ?thesis using w1 j by simp
    next
      case False
      then have v: "v = pl_workers p ! j" using j by simp
      then show ?thesis using ok [of v] other [OF v j(1) False] j by (auto simp: worker_ok_def)
    qed
  qed
  moreover have "active ?q = active p" using i wk by (simp add: active_def active_update)
  moreover have "\<exists>v \<in> set (pl_workers ?q). wk_job v = a \<and> job_ID (pl_heap ?q a) = x"
    if m: "map_of (rg_jobs (pl_registry p)) x = Some a" for x a
  proof -
    obtain v where v: "v \<in> set (pl_workers p)" "wk_job v = a" "job_ID (pl_heap p a) = x"
      using pool_inv_tracked [OF inv m] by blast
    have "a \<in> set (map wk_job (pl_workers ?q))" unfolding maps(1) using v by auto
    moreover have "job_ID (pl_heap ?q a) = x" using v k by auto
    ultimately show ?thesis by auto
  qed
  ultimately show ?thesis using inv maps unfolding pool_inv_def by auto
qed

lemma pool_inv_finish:
  assumes inv: "pool_inv cap p" and i: "i < length (pl_workers p)"
    and ret: "wk_pc (pl_workers p ! i) = Returned er" "\<not> wk_released (pl_workers p ! i)"
  shows "pool_inv cap (finish_worker i er p)"
    (is "pool_inv cap ?q")
proof -
  have maps: "map wk_job (pl_workers ?q) = map wk_job (pl_workers p)" "map wk_ctx (pl_workers ?q) = map wk_ctx (pl_workers p)"
    using i by (simp_all add: finish_worker_def map_wk_update)
  have act: "Suc (active ?q) = active p" using i ret(2) by (simp add: finish_worker_def active_def active_release)
  then obtain u us where sem: "cbuf (pl_sem p) = u # us" using inv by (cases "cbuf (pl_sem p)") (auto simp: pool_inv_def)
  then have sem': "cbuf (pl_sem ?q) = us" "ccap (pl_sem ?q) = ccap (pl_sem p)" "cclosed (pl_sem ?q) = cclosed (pl_sem p)"
    by (simp_all add: finish_worker_def recv_def)
  have same: "pl_heap ?q = pl_heap p" "pl_registry ?q = pl_registry p" "pl_next ?q = pl_next p"
    "pl_cancelled ?q = pl_cancelled p" "pl_wg ?q = pl_wg p - 1" by (simp_all add: finish_worker_def)
  have ok: "worker_ok p v" if "v \<in> set (pl_workers p)" for v using inv that by (simp add: pool_inv_def)
  have "worker_ok ?q v" if "v \<in> set (pl_workers ?q)" for v
  proof -
    have "v = (pl_workers p ! i)\<lparr>wk_released := True\<rparr> \<or> v \<in> set (pl_workers p)"
      using that set_update_subset_insert [of "pl_workers p" i] by (auto simp: finish_worker_def)
    then show ?thesis using ok [of v] ok [of "pl_workers p ! i"] i ret by (auto simp: worker_ok_def same)
  qed
  moreover have "\<exists>v \<in> set (pl_workers ?q). wk_job v = a \<and> job_ID (pl_heap ?q a) = x"
    if m: "map_of (rg_jobs (pl_registry p)) x = Some a" for x a
  proof -
    obtain v where v: "v \<in> set (pl_workers p)" "wk_job v = a" "job_ID (pl_heap p a) = x"
      using pool_inv_tracked [OF inv m] by blast
    have "a \<in> set (map wk_job (pl_workers ?q))" unfolding maps(1) using v by auto
    then show ?thesis using v by (auto simp: same)
  qed
  ultimately show ?thesis using inv maps act sem sem' same unfolding pool_inv_def by auto
qed

lemma pool_inv_heap:
  assumes "pool_inv cap p" "\<And>a. a < pl_next p \<Longrightarrow> h a = pl_heap p a" "pl_next p \<le> n"
  shows "pool_inv cap (p\<lparr>pl_heap := h, pl_next := n\<rparr>)"
proof -
  have "worker_ok (p\<lparr>pl_heap := h, pl_next := n\<rparr>) v \<and> h (wk_job v) = pl_heap p (wk_job v)"
    if "v \<in> set (pl_workers p)" for v
  proof -
    have "worker_ok p v" using assms(1) that by (simp add: pool_inv_def)
    then show ?thesis using assms(2) [of "wk_job v"] assms(3) by (auto simp: worker_ok_def)
  qed
  then show ?thesis using assms(1) unfolding pool_inv_def active_def by fastforce
qed

lemma Submit_accepted:
  assumes "Submit a p = (True, q)"
  shows "\<exists>sem. try_send () (pl_sem p) = (Sent, sem)
    \<and> q = p\<lparr>pl_sem := sem, pl_next := pl_next p + 1, pl_cancelled := (pl_cancelled p)(pl_next p := False),
        pl_registry := RegistryAdd (job_ID (pl_heap p a)) a (pl_next p) (pl_registry p), pl_wg := pl_wg p + 1,
        pl_workers := pl_workers p @ [\<lparr>wk_job = a, wk_ctx = pl_next p, wk_pc = Start, wk_released = False\<rparr>]\<rparr>"
  using assms by (auto simp: Submit_def Let_def split: prod.splits sent.splits)

lemma Submit_rejected: "Submit a p = (False, q) \<Longrightarrow> q = p"
  by (auto simp: Submit_def Let_def split: prod.splits sent.splits)

lemma pool_inv_submit:
  assumes inv: "pool_inv cap p" and new: "job_ID j \<notin> fst ` set (rg_jobs (pl_registry p))"
    and j: "job_Status j = ExportStatusPending" "job_ChunksProcessed j = 0"
    and sub: "alloc j p = (a, p1)" "Submit a p1 = (True, q)"
  shows "pool_inv cap q"
proof -
  let ?wk = "\<lparr>wk_job = a, wk_ctx = pl_next p1, wk_pc = Start, wk_released = False\<rparr>"
  have a: "a = pl_next p" "p1 = p\<lparr>pl_heap := (pl_heap p)(a := j), pl_next := pl_next p + 1\<rparr>" using sub(1) by (auto simp: alloc_def)
  have inv1: "pool_inv cap p1" unfolding a(2) by (rule pool_inv_heap [OF inv]) (use a in auto)
  obtain sem where sem: "try_send () (pl_sem p1) = (Sent, sem)"
    "q = p1\<lparr>pl_sem := sem, pl_next := pl_next p1 + 1, pl_cancelled := (pl_cancelled p1)(pl_next p1 := False),
        pl_registry := RegistryAdd (job_ID (pl_heap p1 a)) a (pl_next p1) (pl_registry p1), pl_wg := pl_wg p1 + 1,
        pl_workers := pl_workers p1 @ [?wk]\<rparr>"
    using Submit_accepted [OF sub(2)] by blast
  have id: "job_ID (pl_heap p1 a) = job_ID j" using a by simp
  have fresh: "map_of (rg_jobs (pl_registry p1)) (job_ID j) = None" using new a by (simp add: map_of_eq_None_iff)
  have jobs: "map_of (rg_jobs (pl_registry q)) = (map_of (rg_jobs (pl_registry p1)))(job_ID j \<mapsto> a)"
    "map_of (rg_cancels (pl_registry q)) = (map_of (rg_cancels (pl_registry p1)))(job_ID j \<mapsto> pl_next p1)"
    using sem(2) id by simp_all
  have old: "worker_ok q v \<and> wk_job v < a \<and> wk_ctx v < pl_next p1" if "v \<in> set (pl_workers p1)" for v
  proof -
    have v: "worker_ok p1 v" "worker_ok p v" using inv inv1 that a by (simp_all add: pool_inv_def)
    then have "job_ID (pl_heap p1 (wk_job v)) \<noteq> job_ID j" using fresh by (auto simp: worker_ok_def)
    then show ?thesis using v a sem(2) by (auto simp: worker_ok_def jobs)
  qed
  have "worker_ok q ?wk" using a j sem(2) id by (simp add: worker_ok_def jobs progress_ok_def)
  note new_ok = this
  have sent: "length (cbuf sem) = Suc (length (cbuf (pl_sem p1)))" "ccap sem = ccap (pl_sem p1)" "\<not> cclosed sem"
    "length (cbuf (pl_sem p1)) < ccap (pl_sem p1)"
    using sem(1) by (auto simp: try_send_def split: if_splits)
  have act: "active q = Suc (active p1)" using sem(2) by (simp add: active_def)
  have q: "pl_workers q = pl_workers p1 @ [?wk]" "pl_sem q = sem" "pl_wg q = pl_wg p1 + 1" "pl_heap q = pl_heap p1"
    using sem(2) by simp_all
  note i1 = pool_invD [OF inv1]
  show ?thesis
  proof (rule pool_invI)
    show "\<forall>v \<in> set (pl_workers q). worker_ok q v" using old new_ok unfolding q by auto
    have fresh': "wk_job v \<noteq> a" "wk_ctx v \<noteq> pl_next p1" if "v \<in> set (pl_workers p1)" for v using old [OF that] by auto
    have d: "distinct (map wk_job (pl_workers p1))" "distinct (map wk_ctx (pl_workers p1))" using inv1 unfolding pool_inv_def by blast+
    show "distinct (map wk_job (pl_workers q))" using d(1) fresh'(1) unfolding q by fastforce
    show "distinct (map wk_ctx (pl_workers q))" using d(2) fresh'(2) unfolding q by fastforce
    show "\<exists>v \<in> set (pl_workers q). wk_job v = b \<and> job_ID (pl_heap q b) = x"
      if m: "map_of (rg_jobs (pl_registry q)) x = Some b" for x b
    proof (cases "x = job_ID j")
      case True
      then show ?thesis using m id unfolding q jobs by simp
    next
      case False
      then have "map_of (rg_jobs (pl_registry p1)) x = Some b" using m jobs by simp
      from pool_inv_tracked [OF inv1 this] show ?thesis unfolding q by simp
    qed
    show "dom (map_of (rg_cancels (pl_registry q))) = dom (map_of (rg_jobs (pl_registry q)))"
      unfolding jobs using i1(6) by simp
  qed (use i1 sent act in \<open>simp_all add: q\<close>)
qed

lemma RegistryCancel_known:
  assumes inv: "pool_inv cap p" and c: "RegistryCancel i p = (True, q)"
  obtains wk where "wk \<in> set (pl_workers p)" "job_ID (pl_heap p (wk_job wk)) = i"
    "q = p\<lparr>pl_cancelled := (pl_cancelled p)(wk_ctx wk := True), pl_heap := (pl_heap p)
       (wk_job wk := (pl_heap p (wk_job wk))\<lparr>job_Status := ExportStatusFailed, job_Error := ''cancelled by user''\<rparr>)\<rparr>"
proof -
  obtain c' where c': "map_of (rg_cancels (pl_registry p)) i = Some c'"
    using c by (auto simp: RegistryCancel_def split: option.splits)
  then have "i \<in> dom (map_of (rg_jobs (pl_registry p)))" using inv by (auto simp: pool_inv_def)
  then obtain a where a: "map_of (rg_jobs (pl_registry p)) i = Some a" by blast
  then obtain wk where wk: "wk \<in> set (pl_workers p)" "wk_job wk = a" "job_ID (pl_heap p a) = i"
    using pool_inv_tracked [OF inv a] by blast
  then have "worker_ok p wk" using inv by (simp add: pool_inv_def)
  then have "wk_ctx wk = c'" using wk c' by (simp add: worker_ok_def)
  then show ?thesis using that [of wk] wk c c' a by (auto simp: RegistryCancel_def Let_def)
qed

lemma pool_inv_cancel:
  assumes inv: "pool_inv cap p" and c: "RegistryCancel i p = (b, q)"
  shows "pool_inv cap q"
proof (cases b)
  case False
  then have "q = p" using c by (auto simp: RegistryCancel_def Let_def split: option.splits)
  then show ?thesis using inv by simp
next
  case True
  obtain wk where wk: "wk \<in> set (pl_workers p)" "job_ID (pl_heap p (wk_job wk)) = i"
    "q = p\<lparr>pl_cancelled := (pl_cancelled p)(wk_ctx wk := True), pl_heap := (pl_heap p)
       (wk_job wk := (pl_heap p (wk_job wk))\<lparr>job_Status := ExportStatusFailed, job_Error := ''cancelled by user''\<rparr>)\<rparr>"
    using RegistryCancel_known [OF inv c [unfolded True [THEN eqTrueI]]] by metis
  have "worker_ok q v" if v: "v \<in> set (pl_workers p)" for v
  proof (cases "v = wk")
    case True
    then show ?thesis using inv wk by (auto simp: pool_inv_def worker_ok_def progress_ok_def cong: pc.case_cong option.case_cong)
  next
    case False
    then have "wk_job v \<noteq> wk_job wk" "wk_ctx v \<noteq> wk_ctx wk"
      using inv v wk(1) by (auto simp: pool_inv_def distinct_map dest: inj_onD)
    then show ?thesis using inv v wk(3) by (auto simp: pool_inv_def worker_ok_def)
  qed
  then show ?thesis using inv wk unfolding pool_inv_def active_def by auto
qed

definition pool_cap :: "int \<Rightarrow> nat" where
  "pool_cap n = nat (if n \<le> 0 then 4 else n)"

lemma pool_machine: "machine (pool_init n) pool_step (pool_inv (pool_cap n))"
proof
  show "pool_inv (pool_cap n) p" if "pool_init n p" for p using pool_inv_init [OF that] by (simp add: pool_cap_def)
  show "pool_inv (pool_cap n) q" if inv: "pool_inv (pool_cap n) p" and step: "pool_step p q" for p q
    using step
  proof cases
    case (submit j a p1 b)
    show ?thesis
    proof (cases b)
      case True
      then show ?thesis using pool_inv_submit [OF inv submit(1-4)] submit(5) by simp
    next
      case False
      then have "q = p1" using submit(5) Submit_rejected by simp
      then show ?thesis using pool_inv_heap [OF inv, of "(pl_heap p)(pl_next p := j)" "pl_next p + 1"] submit(4)
        by (auto simp: alloc_def)
    qed
  next
    case (work i wk pc' j')
    then show ?thesis using pool_inv_work [OF inv] by blast
  next
    case (finish i er)
    then show ?thesis using pool_inv_finish [OF inv] by blast
  next
    case (cancel i b)
    then show ?thesis using pool_inv_cancel [OF inv] by blast
  next
    case shutdown
    then show ?thesis using inv unfolding pool_inv_def worker_ok_def active_def by simp
  qed
qed

interpretation poolm: machine "pool_init n" pool_step "pool_inv (pool_cap n)" for n
  by (rule pool_machine)

lemma alloc_sem: "alloc j p = (a, p1) \<Longrightarrow> pl_sem p1 = pl_sem p"
  by (auto simp: alloc_def)

section \<open>Runs of one worker inside the pool\<close>

definition set_worker :: "nat \<Rightarrow> pc \<times> ExportJob \<Rightarrow> pool \<Rightarrow> pool" where
  "set_worker i y p =
     (let wk = pl_workers p ! i
      in p\<lparr>pl_heap := (pl_heap p)(wk_job wk := snd y), pl_workers := (pl_workers p)[i := wk\<lparr>wk_pc := fst y\<rparr>]\<rparr>)"

lemma work_star:
  assumes "(run_step (ctx_done p (wk_ctx (pl_workers p ! i))))\<^sup>*\<^sup>* (wk_pc (pl_workers p ! i), pl_heap p (wk_job (pl_workers p ! i))) y"
    and "i < length (pl_workers p)"
  shows "pool_step\<^sup>*\<^sup>* p (set_worker i y p)"
  using assms(1)
proof (induction rule: rtranclp_induct)
  case base
  have "set_worker i (wk_pc (pl_workers p ! i), pl_heap p (wk_job (pl_workers p ! i))) p = p" by (simp add: set_worker_def)
  then show ?case by simp
next
  case (step y z)
  let ?p = "set_worker i y p"
  have i: "i < length (pl_workers ?p)" using assms(2) by (simp add: set_worker_def Let_def)
  have wk: "pl_workers ?p ! i = (pl_workers p ! i)\<lparr>wk_pc := fst y\<rparr>" using assms(2) by (simp add: set_worker_def Let_def)
  have "run_step (ctx_done ?p (wk_ctx (pl_workers ?p ! i)))
      (wk_pc (pl_workers ?p ! i), pl_heap ?p (wk_job (pl_workers ?p ! i))) (fst z, snd z)"
    using step.hyps(2) by (simp add: wk) (simp add: set_worker_def Let_def ctx_done_def)
  from pool_step.work [OF i refl this] have "pool_step ?p (set_worker i z p)"
    by (simp add: wk) (simp add: set_worker_def Let_def)
  then show ?case using step.IH by (meson rtranclp.rtrancl_into_rtrancl)
qed

lemma reach_star: "pool_step\<^sup>*\<^sup>* p q \<Longrightarrow> reach I pool_step p \<Longrightarrow> reach I pool_step q"
  by (induction rule: rtranclp_induct) (auto intro: reach_step)

section \<open>Jobs keep what was requested\<close>

definition criteria :: "ExportJob \<Rightarrow> (string \<times> string \<times> labels) \<times> (time \<times> int) \<times> (time \<times> int) \<times> time" where
  "criteria j = ((job_ID j, job_Service j, job_LabelFilters j), (job_StartTime j, job_StartTZ j), (job_EndTime j, job_EndTZ j), job_CreatedAt j)"

lemma run_step_criteria: "run_step d (pc, j) (pc', j') \<Longrightarrow> criteria j' = criteria j"
  by (elim run_step_cases) (auto simp: criteria_def complete_def Let_def note_error_def)

lemma pool_step_criteria:
  assumes "pool_inv cap p" "pool_step p q" "a \<in> wk_job ` set (pl_workers p)"
  shows "a \<in> wk_job ` set (pl_workers q) \<and> criteria (pl_heap q a) = criteria (pl_heap p a)"
  using assms(2)
proof cases
  case (submit j b p1 ok)
  have "a < pl_next p" using pool_invD(7) [OF assms(1)] assms(3) by (auto simp: worker_ok_def)
  then have "a \<noteq> b" "pl_heap p1 a = pl_heap p a" "pl_workers p1 = pl_workers p" using submit(4) by (auto simp: alloc_def)
  then show ?thesis
    using Submit_accepted [of b p1 q] Submit_rejected [of b p1 q] submit(5) assms(3) by (cases ok) auto
next
  case (work i wk pc' j')
  have "map wk_job ((pl_workers p)[i := wk\<lparr>wk_pc := pc'\<rparr>]) = map wk_job (pl_workers p)"
    by (rule map_wk_update) (use work in simp_all)
  then have "wk_job ` set ((pl_workers p)[i := wk\<lparr>wk_pc := pc'\<rparr>]) = wk_job ` set (pl_workers p)"
    by (metis set_map)
  moreover have "criteria j' = criteria (pl_heap p (wk_job wk))" by (rule run_step_criteria [OF work(4)])
  ultimately show ?thesis using work(1) assms(3) by simp
next
  case (finish i er)
  have "map wk_job ((pl_workers p)[i := (pl_workers p ! i)\<lparr>wk_released := True\<rparr>]) = map wk_job (pl_workers p)"
    by (rule map_wk_update) (use finish in simp_all)
  then have "wk_job ` set (pl_workers q) = wk_job ` set (pl_workers p)" "pl_heap q = pl_heap p"
    using finish(1) by (simp_all add: finish_worker_def) (metis set_map)
  then show ?thesis using assms(3) by simp
next
  case (cancel i b)
  then show ?thesis using assms(3) by (auto simp: RegistryCancel_def Let_def criteria_def split: option.splits)
qed (use assms(3) in simp)

lemma pool_steps_criteria:
  assumes "pool_step\<^sup>*\<^sup>* p q" "reach (pool_init n) pool_step p" "a \<in> wk_job ` set (pl_workers p)"
  shows "a \<in> wk_job ` set (pl_workers q) \<and> criteria (pl_heap q a) = criteria (pl_heap p a)"
  using assms
proof (induction rule: rtranclp_induct)
  case (step q r)
  have "pool_inv (pool_cap n) q" by (rule poolm.reach_inv [OF reach_star [OF step.hyps(1) step.prems(1)]])
  from pool_step_criteria [OF this step.hyps(2)] step show ?case by simp
qed simp

section \<open>Concrete pools\<close>

text \<open>A pool with one job, for concrete runs.\<close>

definition wit_pool :: pool where
  "wit_pool = snd (Submit 0 (snd (alloc wit_job (NewPool 1 (\<lambda>_. wit_job) metrics0))))"

lemma wit_pool_sel [simp]:
  "pl_workers wit_pool = [\<lparr>wk_job = 0, wk_ctx = 1, wk_pc = Start, wk_released = False\<rparr>]"
  "pl_heap wit_pool = (\<lambda>_. wit_job)" "\<not> pl_shutdown wit_pool" "\<not> pl_cancelled wit_pool c"
  "rg_jobs (pl_registry wit_pool) = [(''1'', 0)]" "rg_cancels (pl_registry wit_pool) = [(''1'', 1)]"
  by (auto simp: wit_pool_def Submit_def alloc_def NewPool_def make_chan_def try_send_def NewRegistry_def RegistryAdd_def wit_job_def)

lemma wit_pool_reach: "reach (pool_init 1) pool_step wit_pool"
proof (rule reach_step [OF reach_init])
  show "pool_init 1 (NewPool 1 (\<lambda>_. wit_job) metrics0)" unfolding pool_init_def by blast
  show "pool_step (NewPool 1 (\<lambda>_. wit_job) metrics0) wit_pool"
    by (rule submit [of wit_job _ 0 "snd (alloc wit_job (NewPool 1 (\<lambda>_. wit_job) metrics0))" True])
      (auto simp: wit_pool_def Submit_def alloc_def NewPool_def make_chan_def try_send_def NewRegistry_def wit_job_def)
qed

text \<open>A job with one chunk: until the chunk is being fetched, and from there to the end.\<close>

definition wit_fetching :: ExportJob where
  "wit_fetching = wit_job\<lparr>job_Status := ExportStatusRunning, job_ChunksTotal := 1\<rparr>"

lemma run_to_fetching: "(run_step False)\<^sup>*\<^sup>* (Start, wit_job) (Fetching 0, wit_fetching)"
proof -
  have "run_step False (Start, wit_job) (Listing, wit_job\<lparr>job_Status := ExportStatusRunning\<rparr>)" by (rule run_start)
  moreover have "run_step False (Listing, wit_job\<lparr>job_Status := ExportStatusRunning\<rparr>) (Chunks (Suc 0), wit_fetching)"
    using run_list_ok [of False "wit_job\<lparr>job_Status := ExportStatusRunning\<rparr>" 1] by (simp add: wit_fetching_def)
  moreover have "run_step False (Chunks (Suc 0), wit_fetching) (Fetching 0, wit_fetching)" by (rule run_check) simp
  ultimately show ?thesis by (meson converse_rtranclp_into_rtranclp rtranclp.rtrancl_refl)
qed

lemma run_from_fetching:
  "(run_step d)\<^sup>*\<^sup>* (Fetching 0, j) (Returned None, complete 1 9 (j\<lparr>job_ChunksProcessed := job_ChunksProcessed j + 1\<rparr>))"
proof -
  let ?j = "j\<lparr>job_ChunksProcessed := job_ChunksProcessed j + 1\<rparr>"
  have "run_step d (Fetching 0, j) (Sending 0, j)" by (rule run_fetch_ok)
  moreover have "run_step d (Sending 0, j) (Chunks 0, ?j)" by (rule run_chunk_done)
  moreover have "run_step d (Chunks 0, ?j) (LastBatch, ?j)" by (rule run_chunks_end)
  moreover have "run_step d (LastBatch, ?j) (Final, ?j)" using run_last_batch [of d ?j None] by simp
  moreover have "run_step d (Final, ?j) (Returned None, complete 1 9 ?j)" by (rule run_complete)
  ultimately show ?thesis by (meson converse_rtranclp_into_rtranclp rtranclp.rtrancl_refl)
qed

definition wit_running :: pool where
  "wit_running = set_worker 0 (Fetching 0, wit_fetching) wit_pool"

lemma wit_running_reach: "reach (pool_init 1) pool_step wit_running"
proof -
  have "pool_step\<^sup>*\<^sup>* wit_pool wit_running"
    unfolding wit_running_def by (rule work_star) (use run_to_fetching in \<open>simp_all add: ctx_done_def\<close>)
  then show ?thesis using reach_star wit_pool_reach by blast
qed

lemma wit_running_sel [simp]:
  "pl_workers wit_running = [\<lparr>wk_job = 0, wk_ctx = 1, wk_pc = Fetching 0, wk_released = False\<rparr>]"
  "pl_heap wit_running 0 = wit_fetching" "\<not> pl_shutdown wit_running" "pl_cancelled wit_running c = False"
  "rg_jobs (pl_registry wit_running) = [(''1'', 0)]" "rg_cancels (pl_registry wit_running) = [(''1'', 1)]"
  by (simp_all add: wit_running_def set_worker_def)

lemma run_rest: "i < length (pl_workers p) \<Longrightarrow> wk_pc (pl_workers p ! i) = Fetching 0 \<Longrightarrow>
  pool_step\<^sup>*\<^sup>* p (set_worker i (Returned None, complete 1 9 ((pl_heap p (wk_job (pl_workers p ! i)))
     \<lparr>job_ChunksProcessed := job_ChunksProcessed (pl_heap p (wk_job (pl_workers p ! i))) + 1\<rparr>)) p)"
  by (rule work_star) (simp_all add: run_from_fetching)

section \<open>Properties\<close>

text \<open>
  C12. The sequential run of an export follows the protocol of writes that the pool interleaves:
  every run of \<open>Exporter.Run\<close>, whatever the services answer, is a sequence of steps of
  \<open>run_step\<close> from its start to the return of its result, with the same final job.
\<close>

theorem run_follows_protocol:
  "RunExport E api os C rnd now e job w = (er, job', w') \<Longrightarrow> run_any\<^sup>*\<^sup>* (Start, job) (Returned er, job')"
  by (rule RunExport_runs)

text \<open>
  C13. In every interleaving at most \<open>maxConcurrent\<close> export goroutines are running (4 if no
  positive limit is configured), the semaphore and the wait group count exactly them, and a
  job is rejected exactly if all slots are taken; a rejected job is not registered.
\<close>

theorem pool_bounded:
  assumes "reach (pool_init n) pool_step p" "alloc j p = (a, p1)" "Submit a p1 = (b, p2)"
  shows "int (active p) \<le> (if n \<le> 0 then 4 else n) \<and> length (cbuf (pl_sem p)) = active p \<and> pl_wg p = active p
    \<and> (b \<longleftrightarrow> int (active p) < (if n \<le> 0 then 4 else n))
    \<and> (\<not> b \<longrightarrow> pl_registry p2 = pl_registry p \<and> pl_workers p2 = pl_workers p)"
proof -
  note inv = pool_invD [OF poolm.reach_inv [OF assms(1)]]
  have cap: "int (pool_cap n) = (if n \<le> 0 then 4 else n)" by (simp add: pool_cap_def)
  have sem: "pl_sem p1 = pl_sem p" by (rule alloc_sem [OF assms(2)])
  have "b \<longleftrightarrow> length (cbuf (pl_sem p)) < ccap (pl_sem p)"
    using assms(3) inv(5) by (auto simp: Submit_def Let_def sem try_send_def split: if_splits)
  moreover have "p2 = p1" if "\<not> b" using assms(3) that Submit_rejected by simp
  moreover have "pl_registry p1 = pl_registry p" "pl_workers p1 = pl_workers p" using assms(2) by (auto simp: alloc_def)
  ultimately show ?thesis using inv(1-4) unfolding cap [symmetric] by auto
qed

text \<open>
  C7. In every interleaving of submissions, cancellations, shutdown and the runs themselves,
  each accepted job is found under its identifier, and unless it was cancelled its status is
  that of its run: pending before it starts, running until it returns, then completed if it
  returned no error and failed otherwise. A job that completed has processed all its chunks,
  and a run that was cancelled shows either this status or failed.
\<close>

theorem jobs_tracked:
  assumes "reach (pool_init n) pool_step p" "wk \<in> set (pl_workers p)"
  shows "RegistryGet (job_ID (pl_heap p (wk_job wk))) (pl_registry p) = Some (wk_job wk)
    \<and> (\<not> pl_cancelled p (wk_ctx wk) \<longrightarrow> job_Status (pl_heap p (wk_job wk)) =
         (case wk_pc wk of Start \<Rightarrow> ExportStatusPending | Returned None \<Rightarrow> ExportStatusCompleted
          | Returned (Some _) \<Rightarrow> ExportStatusFailed | _ \<Rightarrow> ExportStatusRunning))
    \<and> (job_Status (pl_heap p (wk_job wk)) = ExportStatusCompleted \<longrightarrow>
         wk_pc wk = Returned None \<and> job_ChunksProcessed (pl_heap p (wk_job wk)) = job_ChunksTotal (pl_heap p (wk_job wk)))
    \<and> (wk_released wk \<longrightarrow> job_Status (pl_heap p (wk_job wk)) \<in> {ExportStatusCompleted, ExportStatusFailed})"
proof -
  have ok: "worker_ok p wk" by (rule pool_invD(7) [OF poolm.reach_inv [OF assms(1)] assms(2)])
  have st: "pc_status (wk_pc wk) = (case wk_pc wk of Start \<Rightarrow> ExportStatusPending | Returned None \<Rightarrow> ExportStatusCompleted
          | Returned (Some _) \<Rightarrow> ExportStatusFailed | _ \<Rightarrow> ExportStatusRunning)"
    by (cases "wk_pc wk" rule: pc_status.cases) auto
  have completed: "pc_status (wk_pc wk) = ExportStatusCompleted \<longleftrightarrow> wk_pc wk = Returned None"
    by (cases "wk_pc wk" rule: pc_status.cases) auto
  have ended: "pc_status (Returned er) \<in> {ExportStatusCompleted, ExportStatusFailed}" for er by (cases er) auto
  show ?thesis
    using ok ended completed unfolding st [symmetric]
    by (auto simp: worker_ok_def RegistryGet_def progress_ok_def)
qed

text \<open>
  C21. Two runs in which cancelling goes wrong. A job that is cancelled while it fetches its last
  chunk is reported as cancelled and ends as completed all the same; and a job that has
  completed can still be cancelled, which turns it into a failed one.
\<close>

theorem cancel_races:
  "(\<exists>p q r. reach (pool_init 1) pool_step p \<and> job_Status (pl_heap p 0) = ExportStatusRunning
      \<and> RegistryCancel ''1'' p = (True, q) \<and> pool_step\<^sup>*\<^sup>* q r \<and> job_Status (pl_heap r 0) = ExportStatusCompleted)
   \<and> (\<exists>p q. reach (pool_init 1) pool_step p \<and> job_Status (pl_heap p 0) = ExportStatusCompleted
      \<and> RegistryCancel ''1'' p = (True, q) \<and> job_Status (pl_heap q 0) = ExportStatusFailed
      \<and> job_Error (pl_heap q 0) = ''cancelled by user'')"
proof
  let ?c = "\<lambda>p. snd (RegistryCancel ''1'' p)"
  have c: "RegistryCancel ''1'' wit_running = (True, ?c wit_running)"
    "pl_workers (?c wit_running) = pl_workers wit_running"
    by (simp_all add: RegistryCancel_def)
  have completed: "job_Status (complete 1 9 j) = ExportStatusCompleted" for j by (simp add: complete_def Let_def)
  have "job_Status (pl_heap wit_running 0) = ExportStatusRunning" by (simp add: wit_fetching_def)
  then show "\<exists>p q r. reach (pool_init 1) pool_step p \<and> job_Status (pl_heap p 0) = ExportStatusRunning
      \<and> RegistryCancel ''1'' p = (True, q) \<and> pool_step\<^sup>*\<^sup>* q r \<and> job_Status (pl_heap r 0) = ExportStatusCompleted"
    using run_rest [of 0 "?c wit_running"] wit_running_reach c
    by (intro exI conjI) (auto simp: set_worker_def completed)
  let ?d = "set_worker 0 (Returned None, complete 1 9 (wit_fetching\<lparr>job_ChunksProcessed := job_ChunksProcessed wit_fetching + 1\<rparr>)) wit_running"
  have "reach (pool_init 1) pool_step ?d" using run_rest [of 0 wit_running] reach_star wit_running_reach by simp
  moreover have "job_Status (pl_heap ?d 0) = ExportStatusCompleted" by (simp add: set_worker_def completed)
  moreover have "RegistryCancel ''1'' ?d = (True, ?c ?d) \<and> job_Status (pl_heap (?c ?d) 0) = ExportStatusFailed
      \<and> job_Error (pl_heap (?c ?d) 0) = ''cancelled by user''"
    by (simp add: RegistryCancel_def set_worker_def)
  ultimately show "\<exists>p q. reach (pool_init 1) pool_step p \<and> job_Status (pl_heap p 0) = ExportStatusCompleted
      \<and> RegistryCancel ''1'' p = (True, q) \<and> job_Status (pl_heap q 0) = ExportStatusFailed
      \<and> job_Error (pl_heap q 0) = ''cancelled by user''"
    by blast
qed

section \<open>Witnesses\<close>

theorem run_follows_protocol_witness:
  "\<exists>w er job' w'. RunExport ref_env memdocs_api memdocs_os background (\<lambda>_. 0) 9 (NewExporter wit_client wit_osclient 100) wit_job w
       = (er, job', w') \<and> run_any\<^sup>*\<^sup>* (Start, wit_job) (Returned er, job')"
proof -
  obtain er job' w' where r: "RunExport ref_env memdocs_api memdocs_os background (\<lambda>_. 0) 9 (NewExporter wit_client wit_osclient 100)
      wit_job (wit_exports '''') = (er, job', w')" by (metis prod_cases3)
  from run_follows_protocol [OF r] r show ?thesis by blast
qed

theorem pool_bounded_witness:
  "\<exists>a p1 b p2. alloc wit_job wit_running = (a, p1) \<and> Submit a p1 = (b, p2) \<and> int (active wit_running) \<le> 1 \<and> \<not> b"
proof -
  obtain a p1 where a: "alloc wit_job wit_running = (a, p1)" by fastforce
  obtain b p2 where b: "Submit a p1 = (b, p2)" by fastforce
  have "active wit_running = 1" by (simp add: active_def)
  then show ?thesis using pool_bounded [OF wit_running_reach a b] a b by auto
qed

theorem jobs_tracked_witness:
  "RegistryGet ''1'' (pl_registry wit_running) = Some 0 \<and> job_Status (pl_heap wit_running 0) = ExportStatusRunning"
proof -
  let ?wk = "\<lparr>wk_job = 0, wk_ctx = 1, wk_pc = Fetching 0, wk_released = False\<rparr>"
  have mem: "?wk \<in> set (pl_workers wit_running)" by simp
  have "job_ID wit_fetching = ''1''" by (simp add: wit_fetching_def wit_job_def)
  then show ?thesis using jobs_tracked [OF wit_running_reach mem] by simp
qed

end
