(* ===== verification/ExportApi.thy ===== *)
theory ExportApi
  imports QueryEngine Jobs Parser Middleware Config GoRfc3339 "HOL-Library.Word"
begin

text \<open>
  The HTTP side of the exporter: \<open>cmd/exporter/main.go\<close>. JSON and UUIDs are parameters of the
  handlers. The facts: what a query request is turned into, in particular its range, which may be
  written in any time zone, and its limit, which is computed in 64 bits; what a query answers; and
  that jobs that were created are found.
\<close>

section \<open>Queries\<close>

text \<open>The loop over the characters of the limit: a 64-bit integer, characters other than digits are skipped.\<close>

fun limit_digits :: "string \<Rightarrow> 64 word \<Rightarrow> 64 word" where
  "limit_digits [] n = n"
| "limit_digits (c # cs) n =
     limit_digits cs (if is_digit c then n * 10 + of_nat (of_char c - 48) else n)"

definition query_limit :: "string \<Rightarrow> int" where
  "query_limit l =
     (if l \<noteq> ''''
      then let n = sint (limit_digits l 0) in if n > 0 \<and> n \<le> 5000 then n else 200
      else 200)"

text \<open>From the parameters to the request: an error is a status with its message.\<close>

definition query_request ::
  "(string \<Rightarrow> string) \<Rightarrow> http_request \<Rightarrow> (string \<times> int) + Request" where
  "query_request quote r =
     (if hr_Method r \<noteq> ''GET'' then Inl (''method not allowed'', 405)
      else
        let startStr = hr_Query r ''start''; endStr = hr_Query r ''end''
        in if startStr = '''' \<or> endStr = '''' then Inl (''start and end query params required (RFC3339)'', 400)
           else
             case ParseRFC3339 startStr of
               None \<Rightarrow> Inl (''invalid start (RFC3339)'', 400)
             | Some (startTime, _) \<Rightarrow>
                 (case ParseRFC3339 endStr of
                    None \<Rightarrow> Inl (''invalid end (RFC3339)'', 400)
                  | Some (endTime, _) \<Rightarrow>
                      (case ParseLabelSelector quote (hr_Query r ''query'') of
                         Inl er \<Rightarrow> Inl (''invalid label selector: '' @ er, 400)
                       | Inr labels0 \<Rightarrow>
                           (let limit = query_limit (hr_Query r ''limit'');
                                (service, labels1) = (case map_of labels0 ''service'' of
                                                        Some s \<Rightarrow> (s, ldelete ''service'' labels0)
                                                      | None \<Rightarrow> ('''', labels0))
                            in Inr \<lparr>rq_StartTime = startTime, rq_EndTime = endTime, rq_Service = service,
                                    rq_Labels = labels1, rq_Level = hr_Query r ''level'', rq_Limit = limit\<rparr>))))"

text \<open>
  \<open>json.NewEncoder(w).Encode(v)\<close>: nothing is written if the value has no JSON, and the error is
  ignored. \<open>encode\<close> is the JSON text of the response.
\<close>

definition Encode :: "bytes result \<Rightarrow> wcall list" where
  "Encode r = (case r of Inl _ \<Rightarrow> [] | Inr s \<Rightarrow> [WriteBody (s @ [newline])])"

lemma status_Encode [simp]: "client_status (Encode r) = 200"
  by (simp add: Encode_def split: sum.splits)

definition handleQuery ::
  "env \<Rightarrow> 's s3api \<Rightarrow> 's world ctx \<Rightarrow> (string \<Rightarrow> string) \<Rightarrow> (Response \<Rightarrow> bytes result) \<Rightarrow> int \<Rightarrow>
   Engine \<Rightarrow> http_request \<Rightarrow> 's world \<Rightarrow> wcall list \<times> 's world" where
  "handleQuery E api C quote encode dur engine r w =
     (case query_request quote r of
        Inl (msg, code) \<Rightarrow> (http_error msg code, w)
      | Inr req \<Rightarrow>
          (case Run E api C dur engine req w of
             (Inl er, w') \<Rightarrow> (http_error (''query failed: '' @ er) 500, w')
           | (Inr resp, w') \<Rightarrow> (Encode (encode resp), w')))"

section \<open>Export jobs\<close>

record create_request =
  cr_StartTime :: string
  cr_EndTime :: string
  cr_Service :: string
  cr_LabelFilters :: labels

definition new_job :: "string \<Rightarrow> time \<Rightarrow> time \<times> int \<Rightarrow> time \<times> int \<Rightarrow> create_request \<Rightarrow> ExportJob" where
  "new_job uuid now startTime endTime req =
     \<lparr>job_ID = uuid, job_Status = ExportStatusPending, job_StartTime = fst startTime, job_StartTZ = snd startTime,
      job_EndTime = fst endTime, job_EndTZ = snd endTime,
      job_Service = cr_Service req, job_LabelFilters = cr_LabelFilters req, job_ChunksTotal = 0, job_ChunksProcessed = 0,
      job_LogsExported = 0, job_ErrorCount = 0, job_Error = '''', job_CreatedAt = now, job_CompletedAt = zero_time\<rparr>"

text \<open>The answer encodes the job as it is then; it may already run.\<close>

definition handleCreateExport ::
  "(bytes \<Rightarrow> err option \<Rightarrow> create_request result) \<Rightarrow> (ExportJob \<Rightarrow> bytes result) \<Rightarrow> string \<Rightarrow> time \<Rightarrow>
   http_request \<Rightarrow> pool \<Rightarrow> wcall list \<times> pool" where
  "handleCreateExport decode encode uuid now r p =
     (case decode (fst (read_body r)) (snd (read_body r)) of
        Inl er \<Rightarrow> (http_error (''invalid json: '' @ er) 400, p)
      | Inr req \<Rightarrow>
          (case ParseRFC3339 (cr_StartTime req) of
             None \<Rightarrow> (http_error ''invalid start_time (use RFC3339)'' 400, p)
           | Some startTime \<Rightarrow>
               (case ParseRFC3339 (cr_EndTime req) of
                  None \<Rightarrow> (http_error ''invalid end_time (use RFC3339)'' 400, p)
                | Some endTime \<Rightarrow>
                    (case alloc (new_job uuid now startTime endTime req) p of
                       (a, p1) \<Rightarrow>
                         (case Submit a p1 of
                            (False, p2) \<Rightarrow> (http_error ''too many concurrent export jobs'' 503, p2)
                          | (True, p2) \<Rightarrow> (WriteHeader 202 # Encode (encode (pl_heap p2 a)), p2))))))"

definition handleGetExport :: "(ExportJob \<Rightarrow> bytes result) \<Rightarrow> string \<Rightarrow> pool \<Rightarrow> wcall list" where
  "handleGetExport encode i p =
     (case RegistryGet i (pl_registry p) of
        None \<Rightarrow> http_error ''job not found'' 404
      | Some a \<Rightarrow> Encode (encode (pl_heap p a)))"

definition handleListExports ::
  "(ExportJob list \<Rightarrow> bytes result) \<Rightarrow> ((string \<times> addr) list \<Rightarrow> (string \<times> addr) list) \<Rightarrow> pool \<Rightarrow> wcall list" where
  "handleListExports encode order p =
     Encode (encode (map (pl_heap p) (RegistryList order (pl_registry p))))"

definition handleCancelExport :: "string \<Rightarrow> pool \<Rightarrow> wcall list \<times> pool" where
  "handleCancelExport i p =
     (case RegistryCancel i p of
        (True, p') \<Rightarrow>
          ([WriteHeader 200, WriteBody (''{'' @ [CHR 0x22] @ ''status'' @ [CHR 0x22] @ '':'' @ [CHR 0x22] @ ''cancelled'' @ [CHR 0x22] @ ''}'' @ [newline])], p')
      | (False, p') \<Rightarrow> (http_error ''job not found'' 404, p'))"

text \<open>The routes \<open>/export\<close> and \<open>/export/\<close>.\<close>

definition export_route ::
  "(http_request \<Rightarrow> pool \<Rightarrow> wcall list \<times> pool) \<Rightarrow> (pool \<Rightarrow> wcall list) \<Rightarrow> http_request \<Rightarrow> pool \<Rightarrow> wcall list \<times> pool" where
  "export_route create list_h r p =
     (if hr_Method r = ''POST'' then create r p
      else if hr_Method r = ''GET'' then (list_h p, p)
      else (http_error ''method not allowed'' 405, p))"

definition export_id_route :: "(ExportJob \<Rightarrow> bytes result) \<Rightarrow> http_request \<Rightarrow> pool \<Rightarrow> wcall list \<times> pool" where
  "export_id_route encode r p =
     (let i = TrimPrefix (hr_Path r) ''/export/''
      in if i = '''' then (http_error ''job id required'' 400, p)
         else if hr_Method r = ''GET'' then (handleGetExport encode i p, p)
         else if hr_Method r = ''DELETE'' then handleCancelExport i p
         else (http_error ''method not allowed'' 405, p))"

definition exporter_mws :: "Config \<Rightarrow> ('a handler \<Rightarrow> 'a handler) list" where
  "exporter_mws cfg =
     (let mws = [AccessLog]
      in if ac_Enabled (cf_Auth cfg) then mws @ [APIKeyAuth (ac_APIKeys (cf_Auth cfg))] else mws)"

text \<open>
  The whole server. The state of the process is what lies outside it and the pool; the metrics
  are shared by all handlers.
\<close>

record 's exporter_state =
  es_ext :: 's
  es_pool :: pool

definition on_world :: "(http_request \<Rightarrow> 's world \<Rightarrow> wcall list \<times> 's world) \<Rightarrow> 's exporter_state handler" where
  "on_world h = (\<lambda>wr r (a, m).
     case h r \<lparr>ext = es_ext a, mx = m\<rparr> of (evs, w) \<Rightarrow> (Some evs, a\<lparr>es_ext := ext w\<rparr>, mx w))"

definition on_pool :: "(http_request \<Rightarrow> pool \<Rightarrow> wcall list \<times> pool) \<Rightarrow> 's exporter_state handler" where
  "on_pool h = (\<lambda>wr r (a, m).
     case h r ((es_pool a)\<lparr>pl_mx := m\<rparr>) of (evs, p) \<Rightarrow> (Some evs, a\<lparr>es_pool := p\<rparr>, pl_mx p))"

text \<open>\<open>encode\<close> renders the configuration for the web UI; \<open>other\<close> answers the static pages and unknown paths.\<close>

definition exporter_mux ::
  "Config \<Rightarrow> (string \<Rightarrow> string) \<Rightarrow> (http_request \<Rightarrow> wcall list) \<Rightarrow> (http_request \<Rightarrow> pool \<Rightarrow> wcall list \<times> pool) \<Rightarrow>
   (http_request \<Rightarrow> pool \<Rightarrow> wcall list \<times> pool) \<Rightarrow> (http_request \<Rightarrow> 's world \<Rightarrow> wcall list \<times> 's world) \<Rightarrow> 's exporter_state handler" where
  "exporter_mux cfg encode other export_h export_id_h query_h = (\<lambda>wr r s.
     if hr_Path r = ''/export'' then on_pool export_h wr r s
     else if HasPrefix (hr_Path r) ''/export/'' then on_pool export_id_h wr r s
     else if hr_Path r = ''/query'' then on_world query_h wr r s
     else if hr_Path r = ''/ui/config'' then (Some [WriteBody (encode (ec_IngesterURL (cf_Exporter cfg)) @ [newline])], s)
     else if hr_Path r = ''/health'' then (Some [WriteHeader 200, WriteBody ''ok''], s)
     else (Some (other r), s))"

definition exporter_server ::
  "Config \<Rightarrow> (string \<Rightarrow> string) \<Rightarrow> (http_request \<Rightarrow> wcall list) \<Rightarrow> (http_request \<Rightarrow> pool \<Rightarrow> wcall list \<times> pool) \<Rightarrow>
   (http_request \<Rightarrow> pool \<Rightarrow> wcall list \<times> pool) \<Rightarrow> (http_request \<Rightarrow> 's world \<Rightarrow> wcall list \<times> 's world) \<Rightarrow> 's exporter_state handler" where
  "exporter_server cfg encode other export_h export_id_h query_h =
     Chain (exporter_mux cfg encode other export_h export_id_h query_h) (exporter_mws cfg)"

section \<open>Lemmas\<close>

lemma limit_digits_append: "limit_digits (xs @ ys) n = limit_digits ys (limit_digits xs n)"
  by (induction xs arbitrary: n) auto

lemma limit_digits_dec: "limit_digits (dec n) 0 = of_nat n"
proof (induction n rule: dec.induct)
  case (1 n)
  have d: "limit_digits [digit k] a = a * 10 + of_nat k" if "k < 10" for k a
    using that by (simp add: is_digit_digit of_char_digit)
  show ?case
  proof (cases "n < 10")
    case True
    then show ?thesis by (simp add: dec.simps [of n] d del: limit_digits.simps)
  next
    case False
    then have "limit_digits (dec n) 0 = of_nat (n div 10) * 10 + of_nat (n mod 10)"
      using 1 by (simp add: dec.simps [of n] limit_digits_append d del: limit_digits.simps)
    also have "\<dots> = of_nat (n div 10 * 10 + n mod 10)" by (simp only: of_nat_add of_nat_mult) simp
    finally show ?thesis by simp
  qed
qed

lemma sint_small: "n < 2 ^ 63 \<Longrightarrow> sint (of_nat n :: 64 word) = int n"
  by (simp add: signed_of_nat signed_take_bit_int_eq_self)

lemma query_limit_range: "1 \<le> query_limit l \<and> query_limit l \<le> 5000"
  by (simp add: query_limit_def Let_def)

lemma query_limit_dec: "1 \<le> n \<Longrightarrow> n \<le> 5000 \<Longrightarrow> query_limit (dec n) = int n"
  by (simp add: query_limit_def limit_digits_dec sint_small Let_def)

lemma ldelete_absent: "map_of m k = None \<Longrightarrow> ldelete k m = m"
  by (auto simp: ldelete_def map_of_eq_None_iff filter_id_conv)

lemma query_request_ok:
  assumes "query_request quote r = Inr req"
  shows "\<exists>sel z0 z1. hr_Method r = ''GET'' \<and> ParseRFC3339 (hr_Query r ''start'') = Some (rq_StartTime req, z0)
    \<and> ParseRFC3339 (hr_Query r ''end'') = Some (rq_EndTime req, z1) \<and> ParseLabelSelector quote (hr_Query r ''query'') = Inr sel
    \<and> rq_Service req = lget sel ''service'' \<and> rq_Level req = hr_Query r ''level''
    \<and> rq_Limit req = query_limit (hr_Query r ''limit'')
    \<and> (\<forall>k v. (k, v) \<in> set sel \<and> k \<noteq> ''service'' \<longrightarrow> (k, v) \<in> set (rq_Labels req))"
  using assms
  by (auto simp: query_request_def Let_def lget_def ldelete_def dest: map_of_SomeD
      split: if_splits sum.splits option.splits prod.splits)

lemma query_request_error: "query_request quote r = Inl (msg, code) \<Longrightarrow> code \<in> {400, 405}"
  by (auto simp: query_request_def Let_def split: if_splits sum.splits option.splits prod.splits)

text \<open>With authentication on, no request without a key reaches the pool or the store.\<close>

lemma exporter_auth:
  assumes "exporter_server cfg encode other export_h export_id_h query_h wr r (a, m) = (res, a', m')" "ac_Enabled (cf_Auth cfg)"
    and "hr_Header r ''X-API-Key'' \<notin> set (ac_APIKeys (cf_Auth cfg))" "hr_Path r \<notin> {''/health'', ''/metrics''}"
  shows "res = Some (http_error ''unauthorized'' 401) \<and> a' = a
    \<and> HTTPRequests m' (hr_Method r) (hr_Path r) (show_int 401) = HTTPRequests m (hr_Method r) (hr_Path r) (show_int 401) + 1"
  using assms
  by (auto simp: exporter_server_def exporter_mws_def Chain_simps AccessLog_def APIKeyAuth_def Let_def orderly_status
      inc3_def inc2_def inc1_def)

section \<open>Properties\<close>

text \<open>
  C39. The limit of a query is always between 1 and 5000, whatever its text. A decimal number in
  that range is taken as it is; but other characters are skipped instead of being refused, and
  numbers too large for 64 bits wrap around.
\<close>

theorem query_limit_bounds:
  "1 \<le> query_limit l \<and> query_limit l \<le> 5000 \<and> (1 \<le> n \<and> n \<le> 5000 \<longrightarrow> query_limit (dec n) = int n)
   \<and> query_limit ''1e3'' = 13 \<and> query_limit ''-5'' = 5 \<and> query_limit ''18446744073709551626'' = 10"
proof -
  have "query_limit ''1e3'' = 13" by code_simp
  moreover have "query_limit ''-5'' = 5" by code_simp
  moreover have "query_limit ''18446744073709551626'' = 10" by code_simp
  ultimately show ?thesis using query_limit_range query_limit_dec by blast
qed

text \<open>
  C23. \<open>GET /query\<close>, whatever the store does: the answer has status 200, 400, 405 or 500; the
  entries of a successful answer are at most as many as the limit and lie between the given
  times, and each has the given level, the service named by the label \<open>service\<close> of the selector
  and all its other labels.
\<close>

theorem query_answer:
  assumes "object_store api obj" "handleQuery E api C quote encode dur engine r w = (evs, w')"
  shows "client_status evs \<in> {200, 400, 405, 500}
    \<and> (client_status evs = 200 \<longrightarrow> (\<exists>req resp sel t0 t1 z0 z1. evs = Encode (encode resp)
        \<and> Run E api C dur engine req w = (Inr resp, w')
        \<and> ParseRFC3339 (hr_Query r ''start'') = Some (t0, z0) \<and> ParseRFC3339 (hr_Query r ''end'') = Some (t1, z1)
        \<and> ParseLabelSelector quote (hr_Query r ''query'') = Inr sel
        \<and> int (length (rs_Entries resp)) \<le> query_limit (hr_Query r ''limit'')
        \<and> (\<forall>x \<in> set (rs_Entries resp). t0 \<le> Timestamp x \<and> Timestamp x \<le> t1
            \<and> (lget sel ''service'' \<noteq> '''' \<longrightarrow> equalFold E (Service x) (lget sel ''service''))
            \<and> (hr_Query r ''level'' \<noteq> '''' \<longrightarrow> equalFold E (Level x) (hr_Query r ''level''))
            \<and> (\<forall>(k, v) \<in> set sel. k \<noteq> ''service'' \<longrightarrow> lget (Labels x) k = v))))"
proof (cases "query_request quote r")
  case (Inl e)
  then show ?thesis using assms(2) query_request_error [of quote r "fst e" "snd e"] by (cases e) (auto simp: handleQuery_def)
next
  case (Inr req)
  obtain res w1 where run: "Run E api C dur engine req w = (res, w1)" by fastforce
  show ?thesis
  proof (cases res)
    case (Inl er)
    then show ?thesis using assms(2) Inr run by (auto simp: handleQuery_def)
  next
    case ok: (Inr resp)
    have evs: "evs = Encode (encode resp)" "Run E api C dur engine req w = (Inr resp, w')"
      using assms(2) Inr run ok by (simp_all add: handleQuery_def)
    obtain sel z0 z1 where sel: "ParseRFC3339 (hr_Query r ''start'') = Some (rq_StartTime req, z0)"
      "ParseRFC3339 (hr_Query r ''end'') = Some (rq_EndTime req, z1)"
      "ParseLabelSelector quote (hr_Query r ''query'') = Inr sel" "rq_Service req = lget sel ''service''"
      "rq_Level req = hr_Query r ''level''" "rq_Limit req = query_limit (hr_Query r ''limit'')"
      "\<forall>k v. (k, v) \<in> set sel \<and> k \<noteq> ''service'' \<longrightarrow> (k, v) \<in> set (rq_Labels req)"
      using query_request_ok [OF Inr] by blast
    note snd = Run_ok [OF assms(1) run [unfolded ok]]
    have len: "int (length (rs_Entries resp)) \<le> query_limit (hr_Query r ''limit'')"
      using snd sel(6) query_limit_range [of "hr_Query r ''limit''"] by (auto split: if_splits)
    have x: "rq_StartTime req \<le> Timestamp x \<and> Timestamp x \<le> rq_EndTime req
            \<and> (lget sel ''service'' \<noteq> '''' \<longrightarrow> equalFold E (Service x) (lget sel ''service''))
            \<and> (hr_Query r ''level'' \<noteq> '''' \<longrightarrow> equalFold E (Level x) (hr_Query r ''level''))
            \<and> (\<forall>(k, v) \<in> set sel. k \<noteq> ''service'' \<longrightarrow> lget (Labels x) k = v)" if "x \<in> set (rs_Entries resp)" for x
    proof -
      have "all_match (rq_Labels req) (Labels x)" using snd that by blast
      then have "\<And>k v. (k, v) \<in> set (rq_Labels req) \<Longrightarrow> lget (Labels x) k = v" by (auto simp: all_match_def)
      then have "\<forall>(k, v) \<in> set sel. k \<noteq> ''service'' \<longrightarrow> lget (Labels x) k = v" using sel(7) by auto
      then show ?thesis using snd that sel(4,5) by auto
    qed
    have "client_status evs = 200" using evs(1) by simp
    moreover have "\<exists>req resp sel t0 t1 z0 z1. evs = Encode (encode resp)
        \<and> Run E api C dur engine req w = (Inr resp, w')
        \<and> ParseRFC3339 (hr_Query r ''start'') = Some (t0, z0) \<and> ParseRFC3339 (hr_Query r ''end'') = Some (t1, z1)
        \<and> ParseLabelSelector quote (hr_Query r ''query'') = Inr sel
        \<and> int (length (rs_Entries resp)) \<le> query_limit (hr_Query r ''limit'')
        \<and> (\<forall>x \<in> set (rs_Entries resp). t0 \<le> Timestamp x \<and> Timestamp x \<le> t1
            \<and> (lget sel ''service'' \<noteq> '''' \<longrightarrow> equalFold E (Service x) (lget sel ''service''))
            \<and> (hr_Query r ''level'' \<noteq> '''' \<longrightarrow> equalFold E (Level x) (hr_Query r ''level''))
            \<and> (\<forall>(k, v) \<in> set sel. k \<noteq> ''service'' \<longrightarrow> lget (Labels x) k = v))"
      by (rule exI [of _ req], rule exI [of _ resp], rule exI [of _ sel], rule exI [of _ "rq_StartTime req"],
          rule exI [of _ "rq_EndTime req"], rule exI [of _ z0], rule exI [of _ z1]) (use evs sel(1-3) len x in simp)
    ultimately show ?thesis by simp
  qed
qed

text \<open>
  A job that was accepted with 202 can be looked up at once under its identifier and shows
  the requested range, service and filters with status pending; a job that was rejected for
  lack of a slot is not found, unless its identifier was in use.
\<close>

theorem create_then_get:
  assumes "handleCreateExport decode encode uuid now r p = (evs, p')"
    and "decode (fst (read_body r)) (snd (read_body r)) = Inr req"
    and "ParseRFC3339 (cr_StartTime req) = Some (t0, z0)" "ParseRFC3339 (cr_EndTime req) = Some (t1, z1)"
  shows "(client_status evs = 202 \<and> length (cbuf (pl_sem p)) < ccap (pl_sem p)
        \<and> (\<exists>a j. RegistryGet uuid (pl_registry p') = Some a \<and> pl_heap p' a = j \<and> handleGetExport encode uuid p' = Encode (encode j)
            \<and> job_ID j = uuid \<and> job_Status j = ExportStatusPending \<and> job_Service j = cr_Service req \<and> job_LabelFilters j = cr_LabelFilters req
            \<and> job_StartTime j = t0 \<and> job_StartTZ j = z0 \<and> job_EndTime j = t1 \<and> job_EndTZ j = z1
            \<and> job_ChunksTotal j = 0 \<and> job_ChunksProcessed j = 0 \<and> job_LogsExported j = 0 \<and> job_ErrorCount j = 0 \<and> job_Error j = ''''
            \<and> job_CreatedAt j = now \<and> job_CompletedAt j = zero_time))
    \<or> (client_status evs = 503 \<and> (length (cbuf (pl_sem p)) < ccap (pl_sem p) \<longrightarrow> cclosed (pl_sem p))
        \<and> RegistryGet uuid (pl_registry p') = RegistryGet uuid (pl_registry p))"
proof -
  let ?j = "new_job uuid now (t0, z0) (t1, z1) req"
  obtain a p1 where a: "alloc ?j p = (a, p1)" by fastforce
  obtain b p2 where s: "Submit a p1 = (b, p2)" by fastforce
  have heap: "pl_heap p1 a = ?j" "pl_registry p1 = pl_registry p" "pl_sem p1 = pl_sem p" using a by (auto simp: alloc_def)
  show ?thesis
  proof (cases b)
    case True
    have "job_ID ?j = uuid" by (simp add: new_job_def)
    then have "RegistryGet uuid (pl_registry p2) = Some a \<and> pl_heap p2 a = ?j"
      using Submit_accepted s True heap by (fastforce simp: RegistryGet_def)
    moreover have "length (cbuf (pl_sem p)) < ccap (pl_sem p)"
      using s True heap(3) by (auto simp: Submit_def try_send_def Let_def split: if_splits)
    moreover have "evs = WriteHeader 202 # Encode (encode (pl_heap p2 a))" "p' = p2"
      using assms a s True by (auto simp: handleCreateExport_def)
    ultimately show ?thesis by (simp add: handleGetExport_def new_job_def)
  next
    case False
    then have "p2 = p1" using s Submit_rejected by simp
    moreover have "length (cbuf (pl_sem p)) < ccap (pl_sem p) \<longrightarrow> cclosed (pl_sem p)"
      using s False heap(3) by (auto simp: Submit_def try_send_def Let_def split: if_splits)
    ultimately show ?thesis using assms a s False heap by (auto simp: handleCreateExport_def)
  qed
qed

text \<open>
  A query may write its range in any time zone: if \<open>start\<close> and \<open>end\<close> are the renderings of two
  instants in zones of whole minutes, the request that reaches the engine is for exactly these
  instants; the only thing that can still be refused is the label selector.
\<close>

theorem query_range_zones:
  assumes "hr_Method r = ''GET''" "hr_Query r ''start'' = FormatRFC3339 z0 t0" "hr_Query r ''end'' = FormatRFC3339 z1 t1"
    and "0 \<le> local_year z0 t0" "local_year z0 t0 \<le> 9999" "0 \<le> local_year z1 t1" "local_year z1 t1 \<le> 9999"
    and "\<bar>z0\<bar> < 24 * 60" "\<bar>z1\<bar> < 24 * 60"
  shows "case ParseLabelSelector quote (hr_Query r ''query'') of
      Inl er \<Rightarrow> query_request quote r = Inl (''invalid label selector: '' @ er, 400)
    | Inr sel \<Rightarrow> (\<exists>req. query_request quote r = Inr req \<and> rq_StartTime req = t0 \<and> rq_EndTime req = t1
        \<and> rq_Service req = lget sel ''service'' \<and> rq_Labels req = ldelete ''service'' sel)"
proof -
  have p: "ParseRFC3339 (hr_Query r ''start'') = Some (t0, z0)" "ParseRFC3339 (hr_Query r ''end'') = Some (t1, z1)"
    using assms by (simp_all add: parse_format_rfc3339)
  moreover have "hr_Query r ''start'' \<noteq> []" "hr_Query r ''end'' \<noteq> []" using assms(2,3) by (simp_all add: FormatRFC3339_not_Nil)
  ultimately show ?thesis using assms(1)
    by (auto simp: query_request_def Let_def lget_def ldelete_absent split: sum.splits option.splits)
qed

section \<open>Witnesses\<close>

definition wit_get :: http_request where
  "wit_get =
     \<lparr>hr_Method = ''GET'', hr_Path = ''/query'', hr_Header = (\<lambda>_. ''''),
      hr_Query = (\<lambda>k. if k = ''start'' then ''1970-01-01T00:00:00Z'' else if k = ''end'' then ''1970-01-01T02:00:00.000000007+02:00'' else ''''), hr_Body = '''', hr_BodyLimit = None\<rparr>"

definition wit_create :: create_request where
  "wit_create = \<lparr>cr_StartTime = ''1970-01-01T00:00:00Z'', cr_EndTime = ''1970-01-01T02:00:00.000000007+02:00'', cr_Service = ''a'', cr_LabelFilters = []\<rparr>"

theorem query_limit_bounds_witness: "1 \<le> query_limit (dec 42) \<and> query_limit (dec 42) = 42"
  using query_limit_bounds [of "dec 42" 42] by simp

theorem query_answer_witness:
  "\<exists>evs w'. handleQuery ref_env mem_api background (\<lambda>s. s) (\<lambda>_. Inr ''r'') 0 wit_engine wit_get wit_world = (evs, w')
     \<and> client_status evs \<in> {200, 400, 405, 500}"
proof -
  obtain evs w' where run: "handleQuery ref_env mem_api background (\<lambda>s. s) (\<lambda>_. Inr ''r'') 0 wit_engine wit_get wit_world = (evs, w')"
    by fastforce
  from query_answer [OF mem.object_store_axioms run] run show ?thesis by blast
qed

theorem query_range_zones_witness:
  "\<exists>req. query_request (\<lambda>s. s) wit_get = Inr req \<and> rq_StartTime req = 0 \<and> rq_EndTime req = 7"
proof -
  have ts: "hr_Query wit_get ''start'' = FormatRFC3339 0 0" "hr_Query wit_get ''end'' = FormatRFC3339 120 7"
    "local_year 0 0 = 1970" "local_year 120 7 = 1970" "ParseLabelSelector (\<lambda>s. s) (hr_Query wit_get ''query'') = Inr []"
    by code_simp+
  have "hr_Method wit_get = ''GET''" by (simp add: wit_get_def)
  from query_range_zones [OF this ts(1,2), of "\<lambda>s. s"] show ?thesis using ts(3-5) by auto
qed

theorem create_then_get_witness:
  "\<exists>evs p' a. handleCreateExport (\<lambda>_ _. Inr wit_create) (\<lambda>j. Inr (job_ID j)) ''u'' 9 wit_get (NewPool 1 (\<lambda>_. Exporter.wit_job) metrics0) = (evs, p')
     \<and> client_status evs = 202 \<and> RegistryGet ''u'' (pl_registry p') = Some a \<and> job_EndTime (pl_heap p' a) = 7"
proof -
  let ?p = "NewPool 1 (\<lambda>_. Exporter.wit_job) metrics0"
  obtain evs p' where run: "handleCreateExport (\<lambda>_ _. Inr wit_create) (\<lambda>j. Inr (job_ID j)) ''u'' 9 wit_get ?p = (evs, p')"
    by fastforce
  have p: "ParseRFC3339 (cr_StartTime wit_create) = Some (0, 0)" "ParseRFC3339 (cr_EndTime wit_create) = Some (7, 120)"
    by code_simp+
  have free: "length (cbuf (pl_sem ?p)) < ccap (pl_sem ?p)" "\<not> cclosed (pl_sem ?p)" by (simp_all add: NewPool_def make_chan_def)
  from create_then_get [OF run refl p] run free show ?thesis by auto
qed

end
