(* ===== verification/Startup.thy ===== *)
theory Startup
  imports Wiring IngestApi ExportApi BufferSystem
begin

text \<open>
  How the two processes start: \<open>main\<close> of \<open>cmd/ingester/main.go\<close> and of \<open>cmd/exporter/main.go\<close> up to
  the listeners, with the constructors of the clients (\<open>NewS3Client\<close>, \<open>NewOSClient\<close>) and of the
  logger (\<open>internal/logger\<close>). The AWS SDK and the OpenSearch library are parameters that are given
  the options the code puts together. The facts: what a process that comes up consists of, when
  it exits instead, and which options reach the SDK.
\<close>

section \<open>The process environment and the logger\<close>

datatype log_level = LevelDebug | LevelInfo

text \<open>The environment variables, and the level of the default logger once it is set.\<close>

record proc_env =
  pe_Vars :: "string \<rightharpoonup> string"
  pe_Logger :: "log_level option"

definition Getenv :: "(string \<rightharpoonup> string) \<Rightarrow> string \<Rightarrow> string" where
  "Getenv vars k = (case vars k of None \<Rightarrow> '''' | Some v \<Rightarrow> v)"

text \<open>\<open>logger.Init\<close>\<close>

definition logger_Init :: "bool \<Rightarrow> proc_env \<Rightarrow> proc_env" where
  "logger_Init debug pe = pe\<lparr>pe_Logger := Some (if debug then LevelDebug else LevelInfo)\<rparr>"

section \<open>The S3 client\<close>

text \<open>
  The options given to \<open>LoadDefaultConfig\<close>: the HTTP client by its \<open>InsecureSkipVerify\<close>, static
  credentials by access key, secret key and session token.
\<close>

datatype load_option =
    WithRegion string
  | WithHTTPClient bool
  | WithCredentialsProvider string string string

record s3_options =
  so_BaseEndpoint :: "string option"
  so_UsePathStyle :: bool

record ('a, 's) aws_sdk =
  aws_LoadDefaultConfig :: "load_option list \<Rightarrow> (string \<rightharpoonup> string) \<Rightarrow> 'a result"
  aws_NewFromConfig :: "'a \<Rightarrow> (s3_options \<Rightarrow> s3_options) list \<Rightarrow> 's s3api"

text \<open>\<open>isNotExist p\<close>: whether \<open>os.Stat(p)\<close> reports a missing file.\<close>

definition endpoint_vars :: "(string \<Rightarrow> bool) \<Rightarrow> (string \<rightharpoonup> string) \<Rightarrow> (string \<rightharpoonup> string)" where
  "endpoint_vars isNotExist vars =
     (let caBundle = Getenv vars ''AWS_CA_BUNDLE''
      in if caBundle \<noteq> '''' \<and> isNotExist caBundle then vars(''AWS_CA_BUNDLE'' := None) else vars)"

definition NewS3Client ::
  "('a, 's) aws_sdk \<Rightarrow> (string \<Rightarrow> bool) \<Rightarrow> S3Config \<Rightarrow> (string \<rightharpoonup> string) \<Rightarrow> ('s s3api \<times> S3Client) result \<times> (string \<rightharpoonup> string)" where
  "NewS3Client sdk isNotExist cfg vars =
     (let opts = [WithRegion (sc_Region cfg)];
          (opts, vars) = (if sc_Endpoint cfg \<noteq> ''''
                          then (opts @ [WithHTTPClient True], endpoint_vars isNotExist vars) else (opts, vars));
          opts = (if sc_AccessKey cfg \<noteq> '''' \<and> sc_SecretKey cfg \<noteq> ''''
                  then opts @ [WithCredentialsProvider (sc_AccessKey cfg) (sc_SecretKey cfg) ''''] else opts)
      in case aws_LoadDefaultConfig sdk opts vars of
           Inl er \<Rightarrow> (Inl (''load aws config: '' @ er), vars)
         | Inr awsCfg \<Rightarrow>
             (let s3Opts = (if sc_Endpoint cfg \<noteq> ''''
                            then [\<lambda>so. so\<lparr>so_BaseEndpoint := Some (sc_Endpoint cfg), so_UsePathStyle := sc_UsePathStyle cfg\<rparr>]
                            else [])
              in (Inr (aws_NewFromConfig sdk awsCfg s3Opts, \<lparr>s3_bucket = sc_Bucket cfg, s3_prefix = sc_Prefix cfg\<rparr>), vars)))"

section \<open>The OpenSearch client\<close>

record opensearch_config =
  og_Addresses :: "string list"
  og_Username :: string
  og_Password :: string
  og_MinTLS :: nat

definition VersionTLS12 :: nat where
  "VersionTLS12 = 0x0303"

definition NewOSClient :: "(opensearch_config \<Rightarrow> 's osapi result) \<Rightarrow> OpenSearchConfig \<Rightarrow> ('s osapi \<times> OSClient) result" where
  "NewOSClient newClient cfg =
     (case newClient \<lparr>og_Addresses = [oc_Endpoint cfg], og_Username = oc_Username cfg, og_Password = oc_Password cfg,
                      og_MinTLS = VersionTLS12\<rparr> of
        Inl er \<Rightarrow> Inl (''opensearch client: '' @ er)
      | Inr client \<Rightarrow> Inr (client, \<lparr>os_indexPrefix = oc_IndexPrefix cfg\<rparr>))"

section \<open>The ingester\<close>

text \<open>What \<open>main\<close> comes to before it listens: an exit code, a panic, or a process.\<close>

datatype 'p started = Exited int | Panicked | Running 'p

text \<open>
  The running ingester: the options of its buffer, its handler, its state, the address it
  listens on with the certificate and key files if TLS is on, and the address of the metrics.
\<close>

record ('s, 'l) ingester_proc =
  ip_cfg :: Config
  ip_opts :: "'s BufferOpts"
  ip_handler :: Handler
  ip_state :: "'l ingester"
  ip_Addr :: string
  ip_TLS :: "(string \<times> string) option"
  ip_Metrics :: "string option"

definition config_path :: "string list \<Rightarrow> string" where
  "config_path args = (if length args > 1 then args ! 1 else ''config.json'')"

definition tenant_s3_config :: "Config \<Rightarrow> S3Config" where
  "tenant_s3_config cfg = (st_S3 (cf_Storage cfg))\<lparr>sc_Prefix := tenant_s3_prefix cfg\<rparr>"

text \<open>\<open>openWAL\<close> is \<open>OpenWAL\<close> on the disk at hand; no directory means no log.\<close>

definition wal_setup :: "(string \<Rightarrow> WAL result) \<Rightarrow> Config \<Rightarrow> WAL option result" where
  "wal_setup openWAL cfg =
     (if ic_WALDir (cf_Ingester cfg) \<noteq> ''''
      then (case openWAL (ic_WALDir (cf_Ingester cfg)) of Inl er \<Rightarrow> Inl er | Inr w \<Rightarrow> Inr (Some w))
      else Inr None)"

text \<open>The rate limiter, with \<open>burst := int(rps)\<close> but at least 1; \<open>newLimiter\<close> is \<open>rate.NewLimiter\<close>.\<close>

definition limiter_burst :: "Config \<Rightarrow> int" where
  "limiter_burst cfg = (let burst = \<lfloor>ic_RateLimitRPS (cf_Ingester cfg)\<rfloor> in if burst < 1 then 1 else burst)"

definition metrics_listener :: "Config \<Rightarrow> string option" where
  "metrics_listener cfg = (if mc_Enabled (cf_Metrics cfg) then Some (mc_Address (cf_Metrics cfg)) else None)"

definition tls_files :: "Config \<Rightarrow> (string \<times> string) option" where
  "tls_files cfg =
     (let tls = ic_TLS (cf_Ingester cfg) in if tls_Enabled tls then Some (tls_CertFile tls, tls_KeyFile tls) else None)"

definition ingester_main ::
  "env \<Rightarrow> ('a, 's) aws_sdk \<Rightarrow> (string \<Rightarrow> bool) \<Rightarrow> (string \<Rightarrow> Config result) \<Rightarrow> (string \<Rightarrow> WAL result) \<Rightarrow> (rat \<Rightarrow> int \<Rightarrow> 'l) \<Rightarrow>
   's world ctx \<Rightarrow> (nat \<Rightarrow> int) \<Rightarrow> io_fault \<Rightarrow> string list \<Rightarrow> metrics \<Rightarrow> proc_env \<Rightarrow>
   ('s, 'l) ingester_proc started \<times> metrics \<times> proc_env" where
  "ingester_main E sdk isNotExist load openWAL newLimiter C rnd f args m pe =
     (case load (config_path args) of
        Inl er \<Rightarrow> (Exited 1, m, logger_Init False pe)
      | Inr cfg \<Rightarrow>
          (let pe = logger_Init (cf_Debug cfg) pe
           in case NewS3Client sdk isNotExist (tenant_s3_config cfg) (pe_Vars pe) of
                (Inl er, vars) \<Rightarrow> (Exited 1, m, pe\<lparr>pe_Vars := vars\<rparr>)
              | (Inr (api, s3Client), vars) \<Rightarrow>
                  (let pe = pe\<lparr>pe_Vars := vars\<rparr>; idxStore = NewStore s3Client (tenant_index_prefix cfg)
                   in case wal_setup openWAL cfg of
                        Inl er \<Rightarrow> (Exited 1, m, pe)
                      | Inr wal \<Rightarrow>
                          (let flusher = NewS3Flusher s3Client (Some idxStore);
                               opts = \<lparr>bo_MaxBytes = ic_BatchSizeBytes (cf_Ingester cfg), bo_MaxAge = config_maxAge cfg,
                                       bo_Flusher = Flush E api C rnd flusher, bo_Compression = config_algo cfg,
                                       bo_MinLevel = ic_MinLevel (cf_Ingester cfg)\<rparr>
                           in case NewBuffer E f opts wal (Some NewBroker) m of
                                None \<Rightarrow> (Panicked, m, pe)
                              | Some (buf, m) \<Rightarrow>
                                  (Running \<lparr>ip_cfg = cfg, ip_opts = opts,
                                            ip_handler = NewHandler (ic_MaxEntriesPerReq (cf_Ingester cfg)),
                                            ip_state = \<lparr>in_buffer = buf,
                                              in_limiter = newLimiter (ic_RateLimitRPS (cf_Ingester cfg)) (limiter_burst cfg)\<rparr>,
                                            ip_Addr = ic_ListenAddress (cf_Ingester cfg), ip_TLS = tls_files cfg,
                                            ip_Metrics = metrics_listener cfg\<rparr>, m, pe)))))"

section \<open>The exporter\<close>

record 's exporter_proc =
  xp_cfg :: Config
  xp_api :: "'s s3api"
  xp_os :: "'s osapi"
  xp_exporter :: Exporter
  xp_engine :: Engine
  xp_pool :: pool
  xp_Addr :: string
  xp_Metrics :: "string option"

definition exporter_main ::
  "('a, 's) aws_sdk \<Rightarrow> (opensearch_config \<Rightarrow> 's osapi result) \<Rightarrow> (string \<Rightarrow> bool) \<Rightarrow> (string \<Rightarrow> Config result) \<Rightarrow>
   (addr \<Rightarrow> ExportJob) \<Rightarrow> string list \<Rightarrow> metrics \<Rightarrow> proc_env \<Rightarrow> 's exporter_proc started \<times> proc_env" where
  "exporter_main sdk newClient isNotExist load heap args m pe =
     (case load (config_path args) of
        Inl er \<Rightarrow> (Exited 1, logger_Init False pe)
      | Inr cfg \<Rightarrow>
          (let pe = logger_Init (cf_Debug cfg) pe
           in case NewS3Client sdk isNotExist (tenant_s3_config cfg) (pe_Vars pe) of
                (Inl er, vars) \<Rightarrow> (Exited 1, pe\<lparr>pe_Vars := vars\<rparr>)
              | (Inr (api, s3Client), vars) \<Rightarrow>
                  (let pe = pe\<lparr>pe_Vars := vars\<rparr>; idxStore = NewStore s3Client (tenant_index_prefix cfg)
                   in case NewOSClient newClient (ec_OpenSearch (cf_Exporter cfg)) of
                        Inl er \<Rightarrow> (Exited 1, pe)
                      | Inr (os, osClient) \<Rightarrow>
                          (Running \<lparr>xp_cfg = cfg, xp_api = api, xp_os = os,
                                    xp_exporter = NewExporter s3Client osClient (ec_DefaultBatchSize (cf_Exporter cfg)),
                                    xp_engine = NewEngine s3Client idxStore,
                                    xp_pool = NewPool (ec_MaxConcurrentJobs (cf_Exporter cfg)) heap m,
                                    xp_Addr = ec_ListenAddress (cf_Exporter cfg), xp_Metrics = metrics_listener cfg\<rparr>, pe))))"

section \<open>Lemmas\<close>

lemma NewS3Client_ok:
  assumes "NewS3Client sdk isNotExist cfg vars = (Inr (api, c), vars')"
  shows "c = \<lparr>s3_bucket = sc_Bucket cfg, s3_prefix = sc_Prefix cfg\<rparr>"
  using assms by (auto simp: NewS3Client_def Let_def split: sum.splits prod.splits)

lemma tenant_client:
  assumes "NewS3Client sdk isNotExist (tenant_s3_config cfg) vars = (Inr (api, c), vars')"
  shows "c = config_client cfg"
  using NewS3Client_ok [OF assms] by (simp add: tenant_s3_config_def config_client_def)

text \<open>Certificates are checked exactly if no custom endpoint is configured.\<close>

lemma NewS3Client_options:
  assumes "NewS3Client sdk isNotExist cfg vars = (Inr (api, c), vars')"
  obtains opts a s3o where "aws_LoadDefaultConfig sdk opts vars' = Inr a" "api = aws_NewFromConfig sdk a s3o"
    "WithHTTPClient skip \<in> set opts \<longleftrightarrow> sc_Endpoint cfg \<noteq> '''' \<and> skip"
    "so_BaseEndpoint (fold (\<lambda>g. g) s3o d) = (if sc_Endpoint cfg \<noteq> '''' then Some (sc_Endpoint cfg) else so_BaseEndpoint d)"
proof -
  let ?opts = "[WithRegion (sc_Region cfg)] @ (if sc_Endpoint cfg \<noteq> '''' then [WithHTTPClient True] else [])
    @ (if sc_AccessKey cfg \<noteq> '''' \<and> sc_SecretKey cfg \<noteq> '''' then [WithCredentialsProvider (sc_AccessKey cfg) (sc_SecretKey cfg) ''''] else [])"
  let ?s3o = "if sc_Endpoint cfg \<noteq> '''' then [\<lambda>so. so\<lparr>so_BaseEndpoint := Some (sc_Endpoint cfg), so_UsePathStyle := sc_UsePathStyle cfg\<rparr>] else []"
  obtain a where a: "aws_LoadDefaultConfig sdk ?opts vars' = Inr a" "api = aws_NewFromConfig sdk a ?s3o"
    using assms by (auto simp: NewS3Client_def Let_def split: sum.splits prod.splits if_splits)
  show ?thesis by (rule that [OF a]) auto
qed

lemma ingester_main_cases:
  assumes "ingester_main E sdk isNotExist load openWAL newLimiter C rnd f args m pe = (r, m', pe')"
  obtains (config) er where "load (config_path args) = Inl er" "r = Exited 1" "m' = m"
  | (s3) cfg er vars where "load (config_path args) = Inr cfg" "r = Exited 1" "m' = m"
      "NewS3Client sdk isNotExist (tenant_s3_config cfg) (pe_Vars pe) = (Inl er, vars)"
  | (wal) cfg api vars er where "load (config_path args) = Inr cfg" "wal_setup openWAL cfg = Inl er" "r = Exited 1" "m' = m"
      "NewS3Client sdk isNotExist (tenant_s3_config cfg) (pe_Vars pe) = (Inr (api, config_client cfg), vars)"
  | (panic) cfg api vars wl where "load (config_path args) = Inr cfg" "wal_setup openWAL cfg = Inr wl"
      "NewBuffer E f (config_opts E api C rnd cfg) wl (Some NewBroker) m = None" "r = Panicked" "m' = m"
      "NewS3Client sdk isNotExist (tenant_s3_config cfg) (pe_Vars pe) = (Inr (api, config_client cfg), vars)"
  | (up) p cfg api wl buf where "load (config_path args) = Inr cfg" "wal_setup openWAL cfg = Inr wl"
      "NewBuffer E f (config_opts E api C rnd cfg) wl (Some NewBroker) m = Some (buf, m')" "r = Running p"
      "ip_cfg p = cfg" "ip_opts p = config_opts E api C rnd cfg" "in_buffer (ip_state p) = buf" "ip_TLS p = tls_files cfg"
      "ip_handler p = NewHandler (ic_MaxEntriesPerReq (cf_Ingester cfg))"
      "pe_Logger pe' = Some (if cf_Debug cfg then LevelDebug else LevelInfo)"
      "NewS3Client sdk isNotExist (tenant_s3_config cfg) (pe_Vars pe) = (Inr (api, config_client cfg), pe_Vars pe')"
proof (cases "load (config_path args)")
  case (Inl er)
  then show ?thesis using assms config by (simp add: ingester_main_def)
next
  case cfg: (Inr cfg)
  obtain cl vars where cl: "NewS3Client sdk isNotExist (tenant_s3_config cfg) (pe_Vars pe) = (cl, vars)" by fastforce
  show ?thesis
  proof (cases cl)
    case (Inl er)
    then show ?thesis using assms cfg cl s3 by (simp add: ingester_main_def Let_def logger_Init_def)
  next
    case (Inr q)
    obtain api c where q: "q = (api, c)" by fastforce
    note cl = cl [unfolded Inr q] and c = tenant_client [OF cl [unfolded Inr q]]
    have opts: "\<lparr>bo_MaxBytes = ic_BatchSizeBytes (cf_Ingester cfg), bo_MaxAge = config_maxAge cfg,
        bo_Flusher = Flush E api C rnd (NewS3Flusher c (Some (NewStore c (tenant_index_prefix cfg)))),
        bo_Compression = config_algo cfg, bo_MinLevel = ic_MinLevel (cf_Ingester cfg)\<rparr> = config_opts E api C rnd cfg"
      by (simp add: config_opts_def c config_flusher_def config_index_def)
    note s3ok = cl [unfolded c]
    note run = assms [unfolded ingester_main_def cfg Let_def logger_Init_def, simplified, unfolded cl, simplified]
    show ?thesis
    proof (cases "wal_setup openWAL cfg")
      case (Inl er)
      then show ?thesis using run wal [OF cfg Inl _ _ s3ok] by simp
    next
      case wl: (Inr wl)
      show ?thesis
      proof (cases "NewBuffer E f (config_opts E api C rnd cfg) wl (Some NewBroker) m")
        case None
        then show ?thesis using run wl panic [OF cfg wl None _ _ s3ok] by (simp add: opts)
      next
        case (Some bm)
        obtain buf m1 where bm: "bm = (buf, m1)" by fastforce
        note run = run [unfolded wl, simplified, unfolded opts Some bm, simplified]
        show ?thesis
          by (rule up [OF cfg wl, of api buf]) (use run Some bm s3ok in auto)
      qed
    qed
  qed
qed

lemma Load_ok: "Load readFile expandEnv unmarshal quote path = Inr cfg \<Longrightarrow> config_ok cfg"
  by (auto simp: Load_def Let_def split: sum.splits option.splits dest: defaults_valid_ok)

lemma NewBuffer_entries:
  assumes "NewBuffer E f opts wl br m = Some (b, m')"
  shows "b_entries b = (case wl of None \<Rightarrow> [] | Some w \<Rightarrow> (case fst (Recover E f w m) of Inl _ \<Rightarrow> [] | Inr es \<Rightarrow> es))"
  using assms by (auto simp: NewBuffer_def Let_def fold_addToBuffer split: if_splits option.splits prod.splits sum.splits)

lemma NewBuffer_log:
  assumes "NewBuffer E f opts wl br m = Some (b, m')"
  shows "b_WAL b = map_option (\<lambda>w. fst (snd (Recover E f w m))) wl" "0 < bo_MaxAge opts"
  using assms by (auto simp: NewBuffer_def Let_def fold_addToBuffer split: if_splits option.splits prod.splits)

lemma wal_setup_Inl: "(\<exists>er. wal_setup openWAL cfg = Inl er) \<longleftrightarrow>
    ic_WALDir (cf_Ingester cfg) \<noteq> '''' \<and> (\<exists>er. openWAL (ic_WALDir (cf_Ingester cfg)) = Inl er)"
  by (auto simp: wal_setup_def split: sum.splits)

lemma wal_setup_Inr: "wal_setup openWAL cfg = Inr wl \<longleftrightarrow>
    (if ic_WALDir (cf_Ingester cfg) = '''' then wl = None
     else \<exists>w. openWAL (ic_WALDir (cf_Ingester cfg)) = Inr w \<and> wl = Some w)"
  by (auto simp: wal_setup_def split: sum.splits)

lemma NewBuffer_None: "NewBuffer E f opts wl br m = None \<longleftrightarrow> bo_MaxAge opts \<le> 0"
  by (auto simp: NewBuffer_def Let_def split: option.splits prod.splits)

section \<open>Properties\<close>

text \<open>
  C37. How the ingester starts, whatever the disk, the SDK and the configuration file do. It exits
  with status 1 if and only if the configuration cannot be loaded, the S3 client cannot be built
  or the configured log cannot be opened. It panics only if all of these succeed and the time
  window, which the validation does not bound, overflows 64 bits of nanoseconds. If it runs, then
  all of these have succeeded: it has the loaded configuration and the options of that client;
  without a log directory its buffer has no log and is empty, otherwise it has the opened log and
  holds what the log recovered; it is a starting state of the buffer system with a positive time
  window, and TLS has its files.
\<close>

theorem ingester_starts:
  assumes "ingester_main E sdk isNotExist (Load readFile expandEnv unmarshal quote) openWAL newLimiter C rnd f args m pe = (r, m', pe')"
  shows "(r = Exited 1 \<longleftrightarrow> (case Load readFile expandEnv unmarshal quote (config_path args) of
          Inl _ \<Rightarrow> True
        | Inr cfg \<Rightarrow> (\<exists>er vars. NewS3Client sdk isNotExist (tenant_s3_config cfg) (pe_Vars pe) = (Inl er, vars))
            \<or> (ic_WALDir (cf_Ingester cfg) \<noteq> '''' \<and> (\<exists>er. openWAL (ic_WALDir (cf_Ingester cfg)) = Inl er))))
    \<and> (case r of
      Exited code \<Rightarrow> code = 1 \<and> m' = m
    | Panicked \<Rightarrow> m' = m \<and> (\<exists>cfg. Load readFile expandEnv unmarshal quote (config_path args) = Inr cfg
        \<and> config_maxAge cfg \<le> 0 \<and> 9223372036 < ic_BatchTimeWindowSec (cf_Ingester cfg))
    | Running p \<Rightarrow> Load readFile expandEnv unmarshal quote (config_path args) = Inr (ip_cfg p)
        \<and> (\<exists>api. NewS3Client sdk isNotExist (tenant_s3_config (ip_cfg p)) (pe_Vars pe) = (Inr (api, config_client (ip_cfg p)), pe_Vars pe')
            \<and> ip_opts p = config_opts E api C rnd (ip_cfg p))
        \<and> 0 < bo_MaxAge (ip_opts p)
        \<and> sys_init E (ip_opts p) (sys_start (in_buffer (ip_state p)) \<lparr>ext = s, mx = m'\<rparr>)
        \<and> (if ic_WALDir (cf_Ingester (ip_cfg p)) = ''''
           then b_WAL (in_buffer (ip_state p)) = None \<and> b_entries (in_buffer (ip_state p)) = []
           else \<exists>w r' w' m1. openWAL (ic_WALDir (cf_Ingester (ip_cfg p))) = Inr w \<and> Recover E f w m = (r', w', m1)
             \<and> b_WAL (in_buffer (ip_state p)) = Some w'
             \<and> b_entries (in_buffer (ip_state p)) = (case r' of Inl _ \<Rightarrow> [] | Inr es \<Rightarrow> es))
        \<and> hd_maxEntriesPerReq (ip_handler p) = ic_MaxEntriesPerReq (cf_Ingester (ip_cfg p))
        \<and> (case ip_TLS p of None \<Rightarrow> \<not> tls_Enabled (ic_TLS (cf_Ingester (ip_cfg p))) | Some (cert, key) \<Rightarrow> cert \<noteq> '''' \<and> key \<noteq> ''''))"
  using assms
proof (cases rule: ingester_main_cases)
  case (wal cfg api vars er)
  then show ?thesis using wal_setup_Inl [of openWAL cfg] by simp
next
  case (panic cfg api vars wl)
  have "0 < ic_BatchTimeWindowSec (cf_Ingester cfg)" using Load_ok [OF panic(1)] by (simp add: config_ok_def)
  moreover have age: "config_maxAge cfg \<le> 0" using panic(3) by (simp add: NewBuffer_None config_opts_def)
  ultimately have "\<not> ic_BatchTimeWindowSec (cf_Ingester cfg) \<le> 9223372036"
    using config_maxAge_exact [of cfg] by (auto simp: second_def)
  then show ?thesis using panic age wal_setup_Inl [of openWAL cfg] by simp
next
  case (up p cfg api wl buf)
  have ok: "config_ok cfg" using Load_ok [OF up(1)] .
  have "sys_init E (ip_opts p) (sys_start buf (set_mx m' \<lparr>ext = s, mx = m'\<rparr>))"
    unfolding sys_init_def using up(3,6) by metis
  moreover have "if ic_WALDir (cf_Ingester cfg) = '''' then b_WAL buf = None \<and> b_entries buf = []
      else \<exists>w r' w' m1. openWAL (ic_WALDir (cf_Ingester cfg)) = Inr w \<and> Recover E f w m = (r', w', m1)
        \<and> b_WAL buf = Some w' \<and> b_entries buf = (case r' of Inl _ \<Rightarrow> [] | Inr es \<Rightarrow> es)"
  proof (cases wl)
    case None
    then show ?thesis using NewBuffer_entries [OF up(3)] NewBuffer_log(1) [OF up(3)] up(2) by (auto simp: wal_setup_Inr split: if_splits)
  next
    case (Some w)
    obtain r' w' m1 where "Recover E f w m = (r', w', m1)" by (metis prod_cases3)
    then show ?thesis using NewBuffer_entries [OF up(3)] NewBuffer_log(1) [OF up(3)] up(2) Some by (simp add: wal_setup_Inr split: if_splits)
  qed
  moreover have "0 < bo_MaxAge (ip_opts p)" using NewBuffer_log(2) [OF up(3)] up(6) by simp
  moreover have "\<not> (\<exists>er. wal_setup openWAL cfg = Inl er)" using up(2) by simp
  ultimately show ?thesis
    using up ok unfolding wal_setup_Inl by (simp add: set_mx_def NewHandler_def config_ok_def tls_files_def Let_def split: if_splits)
qed auto

text \<open>
  How the exporter starts: it exits with status 1 if and only if the configuration or one of the
  clients cannot be set up, and never panics; otherwise its query engine and its exporter
  are those of the configuration and its pool is an initial pool with the configured number of
  slots.
\<close>

theorem exporter_starts:
  assumes "exporter_main sdk newClient isNotExist (Load readFile expandEnv unmarshal quote) heap args m pe = (r, pe')"
  shows "(r = Exited 1 \<longleftrightarrow> (case Load readFile expandEnv unmarshal quote (config_path args) of
          Inl _ \<Rightarrow> True
        | Inr cfg \<Rightarrow> (\<exists>er vars. NewS3Client sdk isNotExist (tenant_s3_config cfg) (pe_Vars pe) = (Inl er, vars))
            \<or> (\<exists>er. NewOSClient newClient (ec_OpenSearch (cf_Exporter cfg)) = Inl er)))
    \<and> (case r of
      Exited code \<Rightarrow> code = 1
    | Panicked \<Rightarrow> False
    | Running p \<Rightarrow> Load readFile expandEnv unmarshal quote (config_path args) = Inr (xp_cfg p)
        \<and> xp_engine p = config_engine (xp_cfg p) \<and> xp_exporter p = config_exporter (xp_cfg p)
        \<and> pool_init (ec_MaxConcurrentJobs (cf_Exporter (xp_cfg p))) (xp_pool p)
        \<and> int (ccap (pl_sem (xp_pool p))) = ec_MaxConcurrentJobs (cf_Exporter (xp_cfg p)))"
proof (cases "Load readFile expandEnv unmarshal quote (config_path args)")
  case (Inl er)
  then show ?thesis using assms by (auto simp: exporter_main_def)
next
  case cfg: (Inr cfg)
  note run = assms [unfolded exporter_main_def cfg Let_def logger_Init_def, simplified]
  obtain cl vars where cl: "NewS3Client sdk isNotExist (tenant_s3_config cfg) (pe_Vars pe) = (cl, vars)" by fastforce
  show ?thesis
  proof (cases cl)
    case (Inl er)
    then show ?thesis using run cfg cl by auto
  next
    case (Inr q)
    obtain api c where q: "q = (api, c)" by fastforce
    note cl = cl [unfolded Inr q] and c = tenant_client [OF cl [unfolded Inr q]]
    note run = run [unfolded cl, simplified]
    show ?thesis
    proof (cases "NewOSClient newClient (ec_OpenSearch (cf_Exporter cfg))")
      case (Inl er)
      then show ?thesis using run cfg by auto
    next
      case (Inr oc)
      obtain os osc where oc: "oc = (os, osc)" by fastforce
      have osc: "osc = \<lparr>os_indexPrefix = oc_IndexPrefix (ec_OpenSearch (cf_Exporter cfg))\<rparr>"
        using Inr oc by (auto simp: NewOSClient_def split: sum.splits)
      have "0 < ec_MaxConcurrentJobs (cf_Exporter cfg)" using Load_ok [OF cfg] by (simp add: config_ok_def)
      then have "int (ccap (pl_sem (NewPool (ec_MaxConcurrentJobs (cf_Exporter cfg)) heap m))) = ec_MaxConcurrentJobs (cf_Exporter cfg)"
        by (simp add: NewPool_def make_chan_def)
      moreover have "pool_init n (NewPool n heap m)" for n unfolding pool_init_def by blast
      ultimately show ?thesis
        using run Inr oc osc cfg cl by (auto simp: config_engine_def config_exporter_def config_index_def c)
    qed
  qed
qed

section \<open>Witnesses\<close>

text \<open>An SDK that accepts all options.\<close>

definition wit_sdk :: "'s s3api \<Rightarrow> (load_option list, 's) aws_sdk" where
  "wit_sdk api = \<lparr>aws_LoadDefaultConfig = (\<lambda>opts vars. Inr opts), aws_NewFromConfig = (\<lambda>_ _. api)\<rparr>"

lemma wit_sdk_ok: "NewS3Client (wit_sdk api) ne cfg vars \<noteq> (Inl er, vars')"
  by (simp add: NewS3Client_def wit_sdk_def Let_def)

definition wit_env :: proc_env where
  "wit_env = \<lparr>pe_Vars = (\<lambda>_. None), pe_Logger = None\<rparr>"

definition wit_boot :: "(mem, rat \<times> int) ingester_proc started \<times> metrics \<times> proc_env" where
  "wit_boot = ingester_main ref_env (wit_sdk mem_api) (\<lambda>_. False) (Load (\<lambda>_. Inr '''') (\<lambda>s. s) (\<lambda>_. Inr wit_config) (\<lambda>s. s))
     (\<lambda>dir. OpenWAL dir None None []) (\<lambda>rps burst. (rps, burst)) background (\<lambda>_. 0) no_fault [''sigyn''] metrics0 wit_env"

lemma wit_config_valid: "applyDefaults wit_config = wit_config" "Validate_errs q wit_config = []"
  by (simp_all add: applyDefaults_def wit_config_def ingester_defaults_def exporter_defaults_def or_default_def or_positive_def
      Validate_errs_def)

lemma wit_load: "Load (\<lambda>_. Inr '''') (\<lambda>s. s) (\<lambda>_. Inr wit_config) q path = Inr wit_config"
proof -
  have "Validate q wit_config = None" by (simp add: Validate_None wit_config_valid)
  then show ?thesis by (simp add: Load_def Let_def wit_config_valid)
qed

lemma wit_config_sel: "ic_WALDir (cf_Ingester wit_config) = ''''" "ec_MaxConcurrentJobs (cf_Exporter wit_config) = 2"
  "ic_BatchTimeWindowSec (cf_Ingester wit_config) = 30"
  by (simp_all add: wit_config_def)

lemma wit_boot_runs: "\<exists>p m pe. wit_boot = (Running p, m, pe)"
proof -
  obtain r m' pe' where run: "wit_boot = (r, m', pe')" by (metis prod_cases3)
  have age: "config_maxAge wit_config = 30 * second"
    using config_maxAge_exact [of wit_config] by (simp add: wit_config_sel)
  from run [unfolded wit_boot_def] show ?thesis
  proof (cases rule: ingester_main_cases)
    case (s3 cfg er vars)
    then show ?thesis using wit_sdk_ok by metis
  next
    case (panic cfg api vars wl)
    then show ?thesis using age by (simp add: wit_load NewBuffer_None config_opts_def second_def)
  qed (use run in \<open>auto simp: wit_load wal_setup_def wit_config_sel\<close>)
qed

theorem ingester_starts_witness:
  "\<exists>p m pe. wit_boot = (Running p, m, pe) \<and> sys_init ref_env (ip_opts p) (sys_start (in_buffer (ip_state p)) \<lparr>ext = [], mx = m\<rparr>)"
proof -
  obtain p m pe where run: "wit_boot = (Running p, m, pe)" using wit_boot_runs by blast
  from ingester_starts [OF run [unfolded wit_boot_def], of "[]"] run show ?thesis by auto
qed

theorem exporter_starts_witness:
  "\<exists>p pe. exporter_main (wit_sdk memdocs_api) (\<lambda>_. Inr memdocs_os) (\<lambda>_. False) (Load (\<lambda>_. Inr '''') (\<lambda>s. s) (\<lambda>_. Inr wit_config) (\<lambda>s. s))
     (\<lambda>_. Exporter.wit_job) [''sigyn''] metrics0 wit_env = (Running p, pe) \<and> pool_init 2 (xp_pool p)"
proof -
  obtain r pe where run: "exporter_main (wit_sdk memdocs_api) (\<lambda>_. Inr memdocs_os) (\<lambda>_. False) (Load (\<lambda>_. Inr '''') (\<lambda>s. s) (\<lambda>_. Inr wit_config) (\<lambda>s. s))
     (\<lambda>_. Exporter.wit_job) [''sigyn''] metrics0 wit_env = (r, pe)" by fastforce
  show ?thesis
    using exporter_starts [OF run] run wit_sdk_ok [of memdocs_api] by (cases r) (auto simp: wit_load NewOSClient_def wit_config_sel)
qed

end
