(* ===== verification/Process.thy ===== *)
theory Process
  imports Startup
begin

text \<open>
  From the listeners to the end of the processes: the goroutine of both \<open>main\<close> functions that
  waits for a signal, stops the components and shuts the server down, next to \<open>ListenAndServe\<close>,
  after which \<open>main\<close> returns. One step relation describes it for both processes, over the steps
  of the buffer system and of the export pool. The facts: a process that exits with 0 has
  finished stopping, one that ends before has a log from which everything comes back, and what
  a clean shutdown can still lose.
\<close>

section \<open>The life of a process\<close>

text \<open>
  \<open>Signalled\<close>: the signal has been received and the components are being stopped; \<open>ShutDown\<close>:
  \<open>srv.Shutdown\<close> has been called. \<open>lf_requests\<close> counts the requests in flight.
\<close>

datatype life_phase = Serving | Signalled | ShutDown

record 'x life =
  lf_inner :: 'x
  lf_phase :: life_phase
  lf_requests :: nat
  lf_exit :: "int option"

text \<open>
  \<open>inner\<close> gets whether the signal has been received and whether a request is in flight.
  \<open>Shutdown\<close> makes \<open>ListenAndServe\<close> return at once, so that \<open>main\<close> returns whether or not
  requests are in flight; a listener that fails for another reason ends the process with 1, a
  panic of a goroutine with 2.
\<close>

inductive life_step ::
  "(bool \<Rightarrow> bool \<Rightarrow> 'x \<Rightarrow> 'x \<Rightarrow> bool) \<Rightarrow> ('x \<Rightarrow> 'x) \<Rightarrow> ('x \<Rightarrow> bool) \<Rightarrow> ('x \<Rightarrow> bool) \<Rightarrow> 'x life \<Rightarrow> 'x life \<Rightarrow> bool"
  for inner onSignal finished crashed where
  inside: "\<lbrakk>lf_exit l = None; inner (lf_phase l \<noteq> Serving) (0 < lf_requests l) (lf_inner l) x\<rbrakk> \<Longrightarrow>
    life_step inner onSignal finished crashed l (l\<lparr>lf_inner := x\<rparr>)"
| signal: "\<lbrakk>lf_exit l = None; lf_phase l = Serving\<rbrakk> \<Longrightarrow>
    life_step inner onSignal finished crashed l (l\<lparr>lf_phase := Signalled, lf_inner := onSignal (lf_inner l)\<rparr>)"
| shut_down: "\<lbrakk>lf_exit l = None; lf_phase l = Signalled; finished (lf_inner l)\<rbrakk> \<Longrightarrow>
    life_step inner onSignal finished crashed l (l\<lparr>lf_phase := ShutDown\<rparr>)"
| main_returns: "\<lbrakk>lf_exit l = None; lf_phase l = ShutDown\<rbrakk> \<Longrightarrow>
    life_step inner onSignal finished crashed l (l\<lparr>lf_exit := Some 0\<rparr>)"
| listen_fails: "\<lbrakk>lf_exit l = None; lf_phase l \<noteq> ShutDown\<rbrakk> \<Longrightarrow>
    life_step inner onSignal finished crashed l (l\<lparr>lf_exit := Some 1\<rparr>)"
| crash: "\<lbrakk>lf_exit l = None; crashed (lf_inner l)\<rbrakk> \<Longrightarrow>
    life_step inner onSignal finished crashed l (l\<lparr>lf_exit := Some 2\<rparr>)"
| arrive: "\<lbrakk>lf_exit l = None; lf_phase l \<noteq> ShutDown\<rbrakk> \<Longrightarrow>
    life_step inner onSignal finished crashed l (l\<lparr>lf_requests := lf_requests l + 1\<rparr>)"
| leave: "\<lbrakk>lf_exit l = None; 0 < lf_requests l\<rbrakk> \<Longrightarrow>
    life_step inner onSignal finished crashed l (l\<lparr>lf_requests := lf_requests l - 1\<rparr>)"

definition life_start :: "'x \<Rightarrow> 'x life" where
  "life_start x = \<lparr>lf_inner = x, lf_phase = Serving, lf_requests = 0, lf_exit = None\<rparr>"

definition life_init :: "('x \<Rightarrow> bool) \<Rightarrow> 'x life \<Rightarrow> bool" where
  "life_init I l \<longleftrightarrow> (\<exists>x. I x \<and> l = life_start x)"

text \<open>
  The ingester: entries come in by requests, and only the signal starts \<open>buf.Stop\<close>, which the
  goroutine runs to its end before it calls \<open>Shutdown\<close>.
\<close>

definition ingester_inner ::
  "env \<Rightarrow> 's BufferOpts \<Rightarrow> io_fault set \<Rightarrow> LogEntry set \<Rightarrow> bool \<Rightarrow> bool \<Rightarrow> 's sys \<Rightarrow> 's sys \<Rightarrow> bool" where
  "ingester_inner E opts F A signalled request y y' \<longleftrightarrow>
     sys_step E opts F (if request then A else {}) y y' \<and> (y_stop y = Live \<and> y_stop y' \<noteq> Live \<longrightarrow> signalled)"

definition ingester_life ::
  "env \<Rightarrow> 's BufferOpts \<Rightarrow> io_fault set \<Rightarrow> LogEntry set \<Rightarrow> 's sys life \<Rightarrow> 's sys life \<Rightarrow> bool" where
  "ingester_life E opts F A = life_step (ingester_inner E opts F A) (\<lambda>y. y) (\<lambda>y. y_stop y = Stopped) y_crashed"

text \<open>
  The exporter: the signal cancels the context of the process, then \<open>pool.Stop\<close> waits for the
  jobs. New jobs and cancellations come in by requests.
\<close>

definition exporter_inner :: "bool \<Rightarrow> bool \<Rightarrow> pool \<Rightarrow> pool \<Rightarrow> bool" where
  "exporter_inner signalled request p p' \<longleftrightarrow>
     pool_step p p' \<and> pl_shutdown p' = pl_shutdown p \<and> (request \<or> pl_registry p' = pl_registry p)"

definition exporter_life :: "pool life \<Rightarrow> pool life \<Rightarrow> bool" where
  "exporter_life = life_step exporter_inner (\<lambda>p. p\<lparr>pl_shutdown := True\<rparr>) PoolStop_returns (\<lambda>p. False)"

section \<open>Lemmas\<close>

text \<open>The inside of a process runs as the component alone does.\<close>

lemma life_reach:
  assumes "reach (life_init I) (life_step inner onSignal finished crashed) l"
    and "\<And>s r x y. inner s r x y \<Longrightarrow> R x y" "\<And>x. R\<^sup>*\<^sup>* x (onSignal x)"
  shows "reach I R (lf_inner l)"
  using assms(1)
proof (induction rule: reach.induct)
  case (reach_init l)
  then show ?case by (auto simp: life_init_def life_start_def intro: reach.reach_init)
next
  case (reach_step l l')
  have star: "reach I R x \<Longrightarrow> R\<^sup>*\<^sup>* x y \<Longrightarrow> reach I R y" for x y
    by (rotate_tac 1, induction rule: rtranclp.induct) (auto intro: reach.reach_step)
  from reach_step.hyps(2) show ?case
  proof cases
    case (inside x)
    then show ?thesis using reach_step.IH assms(2) by (auto intro: reach.reach_step)
  next
    case signal
    then show ?thesis using star [OF reach_step.IH assms(3)] by simp
  qed (use reach_step.IH in simp_all)
qed

lemma sys_step_fewer: "sys_step E opts F {} y y' \<Longrightarrow> sys_step E opts F A y y'"
  by (induction rule: sys_step.induct) (auto intro: sys_step.intros)

lemma ingester_reach:
  "reach (life_init I) (ingester_life E opts F A) l \<Longrightarrow> reach I (sys_step E opts F A) (lf_inner l)"
  unfolding ingester_life_def
  by (erule life_reach) (auto simp: ingester_inner_def split: if_splits dest: sys_step_fewer)

lemma stopped_stays: "sys_step E opts F A y y' \<Longrightarrow> y_stop y = Stopped \<Longrightarrow> y_stop y' = Stopped"
  by (induction rule: sys_step.induct) simp_all

definition exit_inv :: "'s sys life \<Rightarrow> bool" where
  "exit_inv l \<longleftrightarrow> (lf_phase l = ShutDown \<or> lf_exit l = Some 0 \<longrightarrow> y_stop (lf_inner l) = Stopped)"

lemma exit_machine: "machine (life_init I) (ingester_life E opts F A) exit_inv"
proof
  fix l assume "life_init I l" then show "exit_inv l" by (auto simp: life_init_def life_start_def exit_inv_def)
next
  fix l l' assume inv: "exit_inv l" and "ingester_life E opts F A l l'"
  then have "life_step (ingester_inner E opts F A) (\<lambda>y. y) (\<lambda>y. y_stop y = Stopped) y_crashed l l'"
    by (simp add: ingester_life_def)
  then show "exit_inv l'"
    by cases (use inv in \<open>auto simp: exit_inv_def ingester_inner_def dest: stopped_stays\<close>)
qed

abbreviation life_at :: "'x \<Rightarrow> life_phase \<Rightarrow> nat \<Rightarrow> int option \<Rightarrow> 'x life" where
  "life_at x ph n ex \<equiv> \<lparr>lf_inner = x, lf_phase = ph, lf_requests = n, lf_exit = ex\<rparr>"

lemma life_moves:
  "inner (ph \<noteq> Serving) (0 < n) x x' \<Longrightarrow> life_step inner s f c (life_at x ph n None) (life_at x' ph n None)"
  "life_step inner s f c (life_at x Serving n None) (life_at (s x) Signalled n None)"
  "f x \<Longrightarrow> life_step inner s f c (life_at x Signalled n None) (life_at x ShutDown n None)"
  "life_step inner s f c (life_at x ShutDown n None) (life_at x ShutDown n (Some 0))"
  "ph \<noteq> ShutDown \<Longrightarrow> life_step inner s f c (life_at x ph n None) (life_at x ph n (Some 1))"
  "ph \<noteq> ShutDown \<Longrightarrow> life_step inner s f c (life_at x ph n None) (life_at x ph (Suc n) None)"
  "life_step inner s f c (life_at x ph (Suc n) None) (life_at x ph n None)"
  using life_step.inside [of "life_at x ph n None" inner x' s f c] life_step.signal [of "life_at x Serving n None" inner s f c]
    life_step.shut_down [of "life_at x Signalled n None" f inner s c] life_step.main_returns [of "life_at x ShutDown n None" inner s f c]
    life_step.listen_fails [of "life_at x ph n None" inner s f c] life_step.arrive [of "life_at x ph n None" inner s f c]
    life_step.leave [of "life_at x ph (Suc n) None" inner s f c]
  by simp_all

text \<open>Once the signal is there, the buffer system makes any of its steps.\<close>

lemma ingester_runs:
  assumes "(sys_step E opts F (if 0 < n then A else {}))\<^sup>*\<^sup>* y y'"
    and "reach I (ingester_life E opts F A) (life_at y Signalled n None)"
  shows "reach I (ingester_life E opts F A) (life_at y' Signalled n None)"
  using assms
proof (induction rule: rtranclp.induct)
  case (rtrancl_into_rtrancl a b c)
  then have "ingester_life E opts F A (life_at b Signalled n None) (life_at c Signalled n None)"
    unfolding ingester_life_def by (intro life_moves(1)) (simp add: ingester_inner_def)
  with rtrancl_into_rtrancl show ?case by (blast intro: reach_step)
qed

definition wit_stopped :: Buffer where
  "wit_stopped = wit_buffer\<lparr>b_ticker := None, b_done := True, b_flushCh := close_chan (make_chan 4),
     b_WAL := Some \<lparr>w_file = [], w_open = False, w_enc = None, w_n = 0\<rparr>\<rparr>"

lemma idle_stop:
  assumes "y_stop y = Live" "\<not> y_crashed y" "y_running y = None" "y_buf y = wit_buffer\<lparr>b_WAL := Some (wit_wal\<lparr>w_n := 0\<rparr>)\<rparr>"
  shows "\<exists>y3. (sys_step ref_env opts writes_ok {})\<^sup>*\<^sup>* y y3 \<and> y_stop y3 = Stopped \<and> \<not> y_crashed y3 \<and> y_running y3 = None
    \<and> y_accepted y3 = y_accepted y \<and> y_flushed y3 = y_flushed y \<and> y_buf y3 = wit_stopped"
proof -
  let ?S = "sys_step ref_env opts writes_ok {}"
  let ?b1 = "(y_buf y)\<lparr>b_ticker := None, b_done := True\<rparr>"
  let ?y1 = "y\<lparr>y_buf := ?b1, y_world := set_mx (mx (y_world y)) (y_world y), y_stop := Stopping\<rparr>"
  have "Stop_flush opts (y_buf y) (mx (y_world y)) = (True, ?b1, mx (y_world y))"
    by (simp add: Stop_flush_def assms(4) wit_buffer_def)
  then have s1: "?S y ?y1" using assms by (intro sys_step.stop_flush) simp_all
  let ?y2 = "?y1\<lparr>y_buf := Stop_close (y_buf ?y1), y_stop := Draining\<rparr>"
  have s2: "?S ?y1 ?y2" by (rule sys_step.stop_close) (use assms in simp_all)
  have w: "Reset no_fault (wit_wal\<lparr>w_n := 0\<rparr>) m = (None, wit_wal\<lparr>w_file := [], w_enc := None, w_n := 0\<rparr>, m\<lparr>WALEntries := 0\<rparr>)" for m
    using Reset_ok [of "wit_wal\<lparr>w_n := 0\<rparr>" m] by (simp add: wit_wal_def)
  have fin: "Stop_finish no_fault None (y_buf ?y2) m = (wit_stopped, m\<lparr>WALEntries := 0\<rparr>)" for m
    by (simp add: Stop_finish_def Stop_close_def assms(4) w Close_def wit_stopped_def) (simp add: wit_buffer_def wit_wal_def)
  let ?y3 = "?y2\<lparr>y_buf := wit_stopped, y_world := set_mx ((mx (y_world ?y2))\<lparr>WALEntries := 0\<rparr>) (y_world ?y2), y_stop := Stopped\<rparr>"
  have s3: "?S ?y2 ?y3"
    by (rule sys_step.stop_finish [OF _ _ _ _ _ fin])
      (use assms in \<open>simp_all add: writes_ok_def Stop_close_def close_chan_def wit_buffer_def make_chan_def\<close>)
  have "?S\<^sup>*\<^sup>* y ?y3" using s1 s2 s3 by (meson converse_rtranclp_into_rtranclp r_into_rtranclp)
  then show ?thesis using assms by (intro exI [of _ ?y3]) simp
qed

lemma late_add:
  assumes "y_buf y = wit_stopped" "\<not> y_crashed y"
  shows "\<exists>y' w. sys_step ref_env (run_opts fl) writes_ok (Collect (fits ref_env)) y y'
    \<and> y_stop y' = y_stop y \<and> y_accepted y' = y_accepted y @ [wit_entry] \<and> y_flushed y' = y_flushed y \<and> y_running y' = y_running y
    \<and> pending (y_buf y') = [] \<and> b_WAL (y_buf y') = Some w \<and> w_file w = []"
proof -
  have low: "\<not> below_min_level ref_env (run_opts fl) wit_entry"
    using wit_below(1) by (simp add: below_min_level_def)
  have no: "\<not> overflows (run_opts fl) wit_entry (y_buf y)" by (simp add: overflows_def assms wit_stopped_def wit_buffer_def)
  obtain r m' b' where a: "Add ref_env no_fault (run_opts fl) wit_entry (y_buf y) (mx (y_world y)) = (r, b', m')"
    by (metis prod_cases3)
  then obtain b1 m1 where l: "logged ref_env no_fault wit_entry (y_buf y) (mx (y_world y)) = (b1, m1)"
    "b' = inserted wit_entry b1" "r = Some True" using low no by (auto elim: Add_cases)
  then obtain w where w: "b1 = wit_stopped\<lparr>b_WAL := Some w\<rparr>" "w_file w = []"
    by (auto simp: logged_def assms(1) wit_stopped_def Append_def enc_encode_def split: prod.splits option.splits sum.splits if_splits)
  let ?y = "y\<lparr>y_buf := b', y_world := set_mx m' (y_world y), y_accepted := y_accepted y @ [wit_entry], y_logged := y_logged y @ [wit_entry]\<rparr>"
  have "sys_step ref_env (run_opts fl) writes_ok (Collect (fits ref_env)) y ?y"
    by (rule sys_step.add [OF assms(2) _ _ a [unfolded l(3)]]) (simp_all add: writes_ok_def wit_entry_fits)
  moreover have "pending b' = []" "b_WAL b' = Some w"
    by (simp_all add: l(2) w(1) wit_stopped_def wit_buffer_def pending_def inserted_def addToBuffer_def close_chan_def make_chan_def Let_def)
  ultimately show ?thesis using w(2) by (intro exI [of _ ?y] exI [of _ w]) simp
qed

lemma late_run:
  "\<exists>l w. reach (life_init (sys_init_wal ref_env (run_opts fl))) (ingester_life ref_env (run_opts fl) writes_ok (Collect (fits ref_env))) l
     \<and> lf_exit l = Some 0 \<and> lf_requests l = 0 \<and> y_accepted (lf_inner l) = [wit_entry] \<and> y_flushed (lf_inner l) = []
     \<and> y_running (lf_inner l) = None \<and> pending (y_buf (lf_inner l)) = []
     \<and> b_WAL (y_buf (lf_inner l)) = Some w \<and> w_file w = []"
proof -
  let ?I = "sys_init_wal ref_env (run_opts fl)" and ?S = "sys_step ref_env (run_opts fl) writes_ok (Collect (fits ref_env))"
  let ?R = "reach (life_init ?I) (ingester_life ref_env (run_opts fl) writes_ok (Collect (fits ref_env)))"
  obtain y where y: "?I y" "y_stop y = Live" "\<not> y_crashed y" "y_running y = None"
    "y_accepted y = []" "y_flushed y = []" "y_buf y = wit_buffer\<lparr>b_WAL := Some (wit_wal\<lparr>w_n := 0\<rparr>)\<rparr>"
    using run_init by blast
  have "life_init ?I (life_at y Serving 0 None)" using y(1) by (auto simp: life_init_def life_start_def)
  then have r: "?R (life_at y Signalled 0 None)"
    by (rule reach_step [OF reach_init]) (use life_moves(2) [where s = "\<lambda>y. y"] in \<open>simp add: ingester_life_def\<close>)
  obtain y3 where y3: "(sys_step ref_env (run_opts fl) writes_ok {})\<^sup>*\<^sup>* y y3" "y_stop y3 = Stopped" "\<not> y_crashed y3"
    "y_running y3 = None" "y_accepted y3 = []" "y_flushed y3 = []" "y_buf y3 = wit_stopped"
    using idle_stop [OF y(2-4,7)] y(5,6) by metis
  have "?R (life_at y3 Signalled 0 None)" by (rule ingester_runs [OF _ r]) (use y3(1) in simp)
  then have r: "?R (life_at y3 Signalled 1 None)"
    by (rule reach_step) (simp add: ingester_life_def life_moves(6))
  obtain y4 w where y4: "?S y3 y4" "y_stop y4 = Stopped" "y_accepted y4 = [wit_entry]" "y_flushed y4 = []" "y_running y4 = None"
    "pending (y_buf y4) = []" "b_WAL (y_buf y4) = Some w" "w_file w = []"
    using late_add [OF y3(7,3), of fl] y3 by auto
  have "?R (life_at y4 Signalled 1 None)" by (rule ingester_runs [OF _ r]) (use y4(1) in auto)
  then have "?R (life_at y4 Signalled 0 None)"
    by (rule reach_step) (simp add: ingester_life_def life_moves(7))
  then have "?R (life_at y4 ShutDown 0 None)"
    by (rule reach_step) (simp add: ingester_life_def life_moves(3) y4(2))
  then have "?R (life_at y4 ShutDown 0 (Some 0))"
    by (rule reach_step) (simp add: ingester_life_def life_moves(4))
  then show ?thesis using y4 by (intro exI [of _ "life_at y4 ShutDown 0 (Some 0)"] exI [of _ w]) simp
qed

section \<open>Properties\<close>

text \<open>
  C3. How the ingester can end. Let it start on a healthy log, let clients send entries whose
  lines fit the scanner and let the disk take every write. Whenever the process has ended, with
  whatever exit code, nothing that was accepted is forgotten without account: if \<open>Stop\<close> had
  finished, each accepted entry is in a flushed chunk, in a batch whose flush failed or that a
  panic dropped, in the batch, or in the goroutines that a full queue had started; if \<open>Stop\<close> had
  not finished, the exit code is not 0 and a new process on the same log starts with all of them.
\<close>

theorem ingester_exit:
  assumes "codec E" "reach (life_init (sys_init_wal E opts)) (ingester_life E opts writes_ok (Collect (fits E))) l"
    and "lf_exit l = Some code" "0 < bo_MaxAge opts2"
  shows "if y_stop (lf_inner l) = Stopped
    then mset (y_accepted (lf_inner l)) = (\<Sum>p\<leftarrow>y_flushed (lf_inner l). mset (snd p)) + (\<Sum>es\<leftarrow>y_lost (lf_inner l). mset es)
        + mset (b_entries (y_buf (lf_inner l))) + entries_of (b_spawned (y_buf (lf_inner l)))
    else code \<noteq> 0 \<and> (\<exists>w w2 b2 m3. b_WAL (y_buf (lf_inner l)) = Some w \<and> OpenWAL dir None None (w_file w) = Inr w2
        \<and> NewBuffer E no_fault opts2 (Some w2) br m2 = Some (b2, m3)
        \<and> b_entries b2 = y_logged (lf_inner l) \<and> subseq (y_accepted (lf_inner l)) (y_logged (lf_inner l)))"
proof -
  note run = ingester_reach [OF assms(2)]
  have "exit_inv l" by (rule machine.reach_inv [OF exit_machine assms(2)])
  show ?thesis
  proof (cases "y_stop (lf_inner l) = Stopped")
    case True
    then show ?thesis using stop_accounts [OF reach_mono [OF run init_wal_init] True] by simp
  next
    case False
    then show ?thesis using wal_recovered [OF assms(1) run False assms(4)] \<open>exit_inv l\<close> assms(3) by (auto simp: exit_inv_def)
  qed
qed

text \<open>
  C22. A clean shutdown can lose an acknowledged entry, even with a perfect disk and whatever the
  flusher does: the buffer is stopped before the server, so an entry that arrives in between is
  accepted into a batch that nobody flushes, while the log has been truncated and closed. There
  is such a run in which the process exits with 0, no request is cut off, and the accepted entry
  is in no chunk and not in the log.
\<close>

theorem late_entry_lost:
  "\<exists>l w. reach (life_init (sys_init_wal ref_env (run_opts fl))) (ingester_life ref_env (run_opts fl) writes_ok (Collect (fits ref_env))) l
     \<and> lf_exit l = Some 0 \<and> lf_requests l = 0 \<and> y_accepted (lf_inner l) = [wit_entry] \<and> y_flushed (lf_inner l) = []
     \<and> y_running (lf_inner l) = None \<and> pending (y_buf (lf_inner l)) = []
     \<and> b_WAL (y_buf (lf_inner l)) = Some w \<and> w_file w = []"
  by (rule late_run)

section \<open>Witnesses\<close>

theorem ingester_exit_witness:
  "\<exists>l. reach (life_init (sys_init_wal ref_env (run_opts (\<lambda>_ _ w. (None, w))))) (ingester_life ref_env (run_opts (\<lambda>_ _ w. (None, w))) writes_ok (Collect (fits ref_env))) l
     \<and> lf_exit l = Some 0 \<and> y_stop (lf_inner l) = Stopped
     \<and> mset (y_accepted (lf_inner l)) = (\<Sum>p\<leftarrow>y_flushed (lf_inner l). mset (snd p)) + (\<Sum>es\<leftarrow>y_lost (lf_inner l). mset es)
        + mset (b_entries (y_buf (lf_inner l))) + entries_of (b_spawned (y_buf (lf_inner l)))"
proof -
  obtain l where l: "reach (life_init (sys_init_wal ref_env (run_opts (\<lambda>_ _ w. (None, w)))))
      (ingester_life ref_env (run_opts (\<lambda>_ _ w. (None, w))) writes_ok (Collect (fits ref_env))) l" "lf_exit l = Some 0"
    using late_run by blast
  have "0 < bo_MaxAge (run_opts (\<lambda>_ _ w. (None, w)))" by (simp add: wit_opts_def second_def)
  from ingester_exit [OF ref_codec l this, of "''d''" None metrics0] l show ?thesis
    by (intro exI [of _ l]) (simp split: if_splits)
qed

end
