(* ===== verification/JsonApi.thy ===== *)
theory JsonApi
  imports JsonCodec EndToEnd Process
begin

text \<open>
  The endpoints down to the text of their bodies: \<open>POST /logs\<close> and \<open>POST /export\<close> with the model of
  \<open>encoding/json\<close> in place of the decoders that \<open>IngestApi\<close> and \<open>ExportApi\<close> leave open. The facts:
  entries arrive as a client wrote them, an export job gets the range, service and filters of its
  text, and which accepted entries can be written again. One whose time zone is 24 hours or more
  is accepted but cannot be encoded, and takes its whole batch with it.
\<close>

section \<open>The body of POST /export\<close>

definition create_field :: "string \<Rightarrow> json \<Rightarrow> create_request \<Rightarrow> create_request option" where
  "create_field nm v r =
     (if nm = ''START_TIME'' then map_option (\<lambda>s. r\<lparr>cr_StartTime := s\<rparr>) (into_string v (cr_StartTime r))
      else if nm = ''END_TIME'' then map_option (\<lambda>s. r\<lparr>cr_EndTime := s\<rparr>) (into_string v (cr_EndTime r))
      else if nm = ''SERVICE'' then map_option (\<lambda>s. r\<lparr>cr_Service := s\<rparr>) (into_string v (cr_Service r))
      else if nm = ''LABEL_FILTERS'' then map_option (\<lambda>m. r\<lparr>cr_LabelFilters := m\<rparr>) (into_labels v (cr_LabelFilters r))
      else Some r)"

definition exportRequest :: "json \<Rightarrow> create_request option" where
  "exportRequest v = into_struct create_field v \<lparr>cr_StartTime = '''', cr_EndTime = '''', cr_Service = '''', cr_LabelFilters = []\<rparr>"

text \<open>What a client sends.\<close>

definition create_json :: "create_request \<Rightarrow> json" where
  "create_json r = JObj
     [(''start_time'', quoted (cr_StartTime r)), (''end_time'', quoted (cr_EndTime r)),
      (''service'', quoted (cr_Service r)), (''label_filters'', labels_json (cr_LabelFilters r))]"

section \<open>The bodies that the exporter answers with\<close>

definition status_text :: "ExportJobStatus \<Rightarrow> string" where
  "status_text s =
     (case s of ExportStatusPending \<Rightarrow> ''pending'' | ExportStatusRunning \<Rightarrow> ''running''
      | ExportStatusCompleted \<Rightarrow> ''completed'' | ExportStatusFailed \<Rightarrow> ''failed'')"

definition omitempty :: "bool \<Rightarrow> string \<times> json \<Rightarrow> (string \<times> json) list" where
  "omitempty zero kv = (if zero then [] else [kv])"

text \<open>
  \<open>ExportJob\<close>: \<open>omitempty\<close> leaves out empty strings and maps, but never a time. The times that the
  process itself takes are in UTC.
\<close>

definition job_json :: "ExportJob \<Rightarrow> json" where
  "job_json j = JObj
     ([(''id'', quoted (job_ID j)), (''status'', JStr (status_text (job_Status j))),
       (''start_time'', JStr (FormatRFC3339 (job_StartTZ j) (job_StartTime j))),
       (''end_time'', JStr (FormatRFC3339 (job_EndTZ j) (job_EndTime j)))]
      @ omitempty (job_Service j = '''') (''service'', quoted (job_Service j))
      @ omitempty (job_LabelFilters j = []) (''label_filters'', labels_json (job_LabelFilters j))
      @ [(''chunks_total'', JNum (show_int (job_ChunksTotal j))), (''chunks_processed'', JNum (show_int (job_ChunksProcessed j))),
         (''logs_exported'', JNum (show_int (job_LogsExported j))), (''error_count'', JNum (show_int (job_ErrorCount j)))]
      @ omitempty (job_Error j = '''') (''error'', quoted (job_Error j))
      @ [(''created_at'', JStr (FormatRFC3339 0 (job_CreatedAt j))), (''completed_at'', JStr (FormatRFC3339 0 (job_CompletedAt j)))])"

text \<open>The first error that the encoder meets.\<close>

definition job_errors :: "ExportJob \<Rightarrow> err list" where
  "job_errors j = List.map_filter (\<lambda>(t, z). time_error t z)
     [(job_StartTime j, job_StartTZ j), (job_EndTime j, job_EndTZ j), (job_CreatedAt j, 0), (job_CompletedAt j, 0)]"

definition marshal :: "err list \<Rightarrow> json \<Rightarrow> bytes result" where
  "marshal ers v = (case ers of [] \<Rightarrow> Inr (render v) | er # _ \<Rightarrow> Inl er)"

definition marshal_job :: "ExportJob \<Rightarrow> bytes result" where
  "marshal_job j = marshal (job_errors j) (job_json j)"

definition marshal_jobs :: "ExportJob list \<Rightarrow> bytes result" where
  "marshal_jobs js = marshal (concat (map job_errors js)) (JArr (map job_json js))"

text \<open>\<open>Response\<close>: a slice to which nothing was appended is nil, which is written as \<open>null\<close>.\<close>

definition stats_json :: "Stats \<Rightarrow> json" where
  "stats_json s = JObj (map (\<lambda>(k, n). (k, JNum (show_int n)))
     [(''index_files_scanned'', IndexFilesScanned s), (''chunks_matched'', ChunksMatched s), (''chunks_fetched'', ChunksFetched s),
      (''entries_scanned'', EntriesScanned s), (''entries_matched'', EntriesMatched s), (''duration_ms'', DurationMs s)])"

definition response_json :: "Response \<Rightarrow> json" where
  "response_json rs = JObj
     [(''entries'', if rs_Entries rs = [] then JNull else JArr (map entry_json (rs_Entries rs))), (''stats'', stats_json (rs_Stats rs))]"

definition marshal_response :: "Response \<Rightarrow> bytes result" where
  "marshal_response rs = marshal (List.map_filter (\<lambda>e. time_error (Timestamp e) (TZ e)) (rs_Entries rs)) (response_json rs)"

section \<open>Lemmas\<close>

lemma time_error_iff: "time_error t z = None \<longleftrightarrow> 0 \<le> local_year z t \<and> local_year z t \<le> 9999 \<and> \<bar>z\<bar> < 24 * 60"
  by (auto simp: time_error_def)

text \<open>Every entry that was decoded has a year of four digits in its zone.\<close>

definition year_ok :: "LogEntry \<Rightarrow> bool" where
  "year_ok e \<longleftrightarrow> 0 \<le> local_year (TZ e) (Timestamp e) \<and> local_year (TZ e) (Timestamp e) \<le> 9999"

lemma marshal_iff: "year_ok e \<Longrightarrow> (\<exists>s. marshal_entry e = Inr s) \<longleftrightarrow> \<bar>TZ e\<bar> < 24 * 60"
  using time_error_iff [of "Timestamp e" "TZ e"] by (auto simp: marshal_entry_def year_ok_def split: option.splits)

lemma into_fields_inv:
  assumes "\<And>nm v x y. P x \<Longrightarrow> fld nm v x = Some y \<Longrightarrow> P y"
  shows "P x \<Longrightarrow> into_fields fld kvs x = Some y \<Longrightarrow> P y"
proof (induction kvs arbitrary: x)
  case (Cons kv kvs)
  obtain k v z where "kv = (k, v)" "fld (fold_name (unquote k)) v x = Some z" "into_fields fld kvs z = Some y"
    using Cons.prems(2) by (cases kv) (auto split: option.splits)
  then show ?case using Cons.IH [of z] assms [OF Cons.prems(1)] by blast
qed simp

lemma into_struct_inv:
  assumes "\<And>nm v x y. P x \<Longrightarrow> fld nm v x = Some y \<Longrightarrow> P y" "P x" "into_struct fld v x = Some y"
  shows "P y"
proof (cases v)
  case (JObj kvs)
  then show ?thesis using into_fields_inv [of P fld x kvs y, OF assms(1,2)] assms(3) by (simp add: into_struct_def)
qed (use assms(2,3) in \<open>simp_all add: into_struct_def\<close>)

lemma into_elems_inv:
  assumes "\<And>v x y. P x \<Longrightarrow> dcd v x = Some y \<Longrightarrow> P y" "P zero"
  shows "\<forall>x \<in> set bk. P x \<Longrightarrow> into_elems dcd zero vs bk = Some ys \<Longrightarrow> \<forall>y \<in> set ys. P y"
proof (induction vs arbitrary: bk ys)
  case (Cons v vs)
  let ?old = "case bk of [] \<Rightarrow> zero | x # _ \<Rightarrow> x"
  obtain y zs where y: "dcd v ?old = Some y" "into_elems dcd zero vs (tl bk) = Some zs" "ys = y # zs"
    using Cons.prems(2) by (auto split: option.splits)
  have "P ?old" "\<forall>x \<in> set (tl bk). P x" using Cons.prems(1) assms(2) by (cases bk; simp)+
  then have "P y" "\<forall>z \<in> set zs. P z" using assms(1) [OF _ y(1)] Cons.IH [OF _ y(2)] by blast+
  then show ?case using y(3) by simp
qed simp

lemma entry_field_year: "year_ok x \<Longrightarrow> entry_field nm v x = Some y \<Longrightarrow> year_ok y"
  by (auto simp: entry_field_def into_time_def year_ok_def split: if_splits json.splits dest: parse_rfc3339_range)

lemma into_entry_year: "year_ok x \<Longrightarrow> into_struct entry_field v x = Some y \<Longrightarrow> year_ok y"
  by (rule into_struct_inv [where fld = entry_field]) (rule entry_field_year)

lemma zero_entry_year: "year_ok zero_entry"
proof -
  have "local_year 0 zero_time = 1" by code_simp
  then show ?thesis by (simp add: year_ok_def zero_entry_def)
qed

lemma logRequest_year:
  assumes "logRequest v = Some es" "e \<in> set es"
  shows "year_ok e"
proof -
  let ?P = "\<lambda>st :: LogEntry list \<times> nat. \<forall>x \<in> set (fst st). year_ok x"
  have slice: "?P st'" if old: "?P st" and new: "into_slice (into_struct entry_field) zero_entry u st = Some st'" for u st st'
  proof (cases "st' = ([], 0)")
    case False
    then have "\<exists>vs. into_elems (into_struct entry_field) zero_entry vs (fst st) = Some (fst st')"
      using new by (auto simp: into_slice_def split: json.splits if_splits option.splits)
    then show ?thesis
      using into_elems_inv [where P = year_ok, OF _ zero_entry_year old] into_entry_year by blast
  qed simp
  obtain bk n where bk: "into_struct request_field v ([], 0) = Some (bk, n)" "es = take n bk"
    using assms(1) by (auto simp: logRequest_def)
  have "?P (bk, n)"
    by (rule into_struct_inv [OF _ _ bk(1)]) (use slice in \<open>auto simp: request_field_def split: if_splits\<close>)
  then show ?thesis using assms(2) bk(2) by (auto dest: in_set_takeD)
qed

lemma decode_body_value:
  assumes "decode_body msg dcd body rerr = Inr x"
  obtains v where "dcd v = Some x"
  using assms by (auto simp: decode_body_def split: decoded.splits option.splits)

lemma encode_entries_fails:
  "x \<in> set es \<Longrightarrow> marshalEntry E x = Inl er \<Longrightarrow> \<exists>er'. encode_entries E es raw = Inl er'"
  by (induction es arbitrary: raw) (auto split: sum.splits)

lemma executeFlush_unwritable:
  assumes "x \<in> set (fj_entries job)" "marshalEntry E x = Inl er"
  shows "executeFlush E opts mo uid job w = (None, w\<lparr>mx := (mx w)\<lparr>FlushErrors := FlushErrors (mx w) + 1\<rparr>\<rparr>)"
proof -
  obtain er' where "encode_entries E (fj_entries job) [] = Inl er'" using encode_entries_fails [OF assms, of "[]"] by blast
  then show ?thesis by (simp add: executeFlush_def compressEntries_error)
qed

text \<open>What is answered is JSON that a client reads back.\<close>

lemma answer_keys:
  "quotable ''id''" "quotable ''status''" "quotable ''chunks_total''" "quotable ''chunks_processed''" "quotable ''logs_exported''"
  "quotable ''error_count''" "quotable ''error''" "quotable ''created_at''" "quotable ''completed_at''" "quotable ''start_time''"
  "quotable ''end_time''" "quotable ''label_filters''" "quotable ''stats''" "quotable ''index_files_scanned''"
  "quotable ''chunks_matched''" "quotable ''chunks_fetched''" "quotable ''entries_scanned''" "quotable ''entries_matched''"
  "quotable ''duration_ms''"
  by (rule quotable_plains, code_simp)+

lemma quotable_status: "quotable (status_text s)"
  by (cases s; simp only: status_text_def ExportJobStatus.case; rule quotable_plains; code_simp)

lemma answers_parse:
  "parse_json (render (job_json j)) = Some (job_json j)"
  "parse_json (render (response_json rs)) = Some (response_json rs)"
proof -
  have "1 < max_depth - 1" "1 < max_depth" "0 < max_depth" "3 < max_depth - 1 - 1" by (simp_all add: max_depth_def)
  note depth = this
  show "parse_json (render (job_json j)) = Some (job_json j)"
    by (rule parse_render_json)
      (use depth in \<open>auto simp: job_json_def omitempty_def quotable_status answer_keys plain_keys quotable_quote quotable_time wf_labels_json show_int_number
        simp del: wf_json.simps(3)\<close>)
  show "parse_json (render (response_json rs)) = Some (response_json rs)"
    by (rule parse_render_json)
      (use depth in \<open>auto simp: response_json_def stats_json_def answer_keys plain_keys wf_entry_json show_int_number simp del: wf_json.simps(3)\<close>)
qed

lemma job_errors_zone: "24 * 60 \<le> \<bar>job_StartTZ j\<bar> \<Longrightarrow> job_errors j \<noteq> []"
  using time_error_iff [of "job_StartTime j" "job_StartTZ j"]
  by (auto simp: job_errors_def map_filter_simps split: option.splits)

lemma marshal_jobs_fails: "j \<in> set js \<Longrightarrow> job_errors j \<noteq> [] \<Longrightarrow> Encode (marshal_jobs js) = []"
  by (auto simp: marshal_jobs_def marshal_def Encode_def split: list.splits)

lemma create_submits:
  assumes "handleCreateExport decode encode uuid now r p = (evs, p1)" "client_status evs = 202"
    and "decode (fst (read_body r)) (snd (read_body r)) = Inr req" "ParseRFC3339 (cr_StartTime req) = Some start"
    and "uuid \<notin> fst ` set (rg_jobs (pl_registry p))"
  obtains a where "pool_step p p1" "a \<in> wk_job ` set (pl_workers p1)" "job_StartTZ (pl_heap p1 a) = snd start"
proof -
  obtain end' where e: "ParseRFC3339 (cr_EndTime req) = Some end'"
    using assms(1-4) by (cases "ParseRFC3339 (cr_EndTime req)") (auto simp: handleCreateExport_def http_error_def)
  let ?j = "new_job uuid now start end' req"
  obtain a p0 where a: "alloc ?j p = (a, p0)" by fastforce
  obtain b q where s: "Submit a p0 = (b, q)" by fastforce
  have b: "b" "q = p1" using assms(1-4) e a s by (cases b; auto simp: handleCreateExport_def http_error_def)+
  have "pool_step p p1"
    by (rule submit [OF _ _ _ a s [unfolded b(2)]]) (use assms(5) in \<open>simp_all add: new_job_def\<close>)
  moreover have "a \<in> wk_job ` set (pl_workers p1)" "pl_heap p1 a = ?j"
    using Submit_accepted [of a p0 p1] s a b by (auto simp: alloc_def)
  ultimately show ?thesis using that by (simp add: new_job_def)
qed

lemma create_keys:
  "fold_name (unquote ''start_time'') = ''START_TIME''" "fold_name (unquote ''end_time'') = ''END_TIME''"
  "fold_name (unquote ''label_filters'') = ''LABEL_FILTERS''"
  "quotable ''start_time''" "quotable ''end_time''" "quotable ''label_filters''"
  by (code_simp, code_simp, code_simp, (rule quotable_plains, code_simp)+)

lemma decode_create:
  assumes "utf8_ok (cr_StartTime r)" "utf8_ok (cr_EndTime r)" "utf8_ok (cr_Service r)" "labels_safe (cr_LabelFilters r)"
  shows "decode_body msg exportRequest (render (create_json r) @ t) rerr = Inr r"
proof -
  have "wf_json max_depth (create_json r)"
    by (auto simp: create_json_def plain_keys create_keys quotable_quote max_depth_def intro!: wf_labels_json simp del: One_nat_def)
  then have "decode_stream (render (create_json r) @ t) eof = Value (create_json r)" for eof
    unfolding create_json_def by (rule decode_stream_object)
  moreover have "exportRequest (create_json r) = Some r"
    using assms by (simp add: exportRequest_def create_json_def into_struct_def create_keys quoted_keys create_field_def
        into_string_def unquote_quote into_labels_json)
  ultimately show ?thesis by (simp add: decode_body_def)
qed

lemma digit_ascii: "is_digit c \<Longrightarrow> byte_val c < 128"
  by (simp add: is_digit_def byte_val_def)

lemma utf8_format: "utf8_ok (FormatRFC3339 z t)"
proof (rule utf8_ok_ascii)
  have "\<forall>c \<in> set ''-+:.TZ''. byte_val c < 128" by code_simp
  then show "\<forall>c \<in> set (FormatRFC3339 z t). byte_val c < 128"
    using time_text_format [of z t] unfolding time_text_def by (meson digit_ascii)
qed

text \<open>The contract of the environment holds with this codec.\<close>

interpretation json: codec "with_json (\<lambda>_. (0, 0)) ref_env"
  by (rule json_codec [OF ref_compressors.compressors_axioms]) simp

section \<open>Properties\<close>

text \<open>
  C32. The text of an entry. Every entry with a time of the years 1 to 9998, a time zone of less than
  24 hours and well-formed UTF-8 in its strings is written as one line without line breaks, and
  reading that line yields the entry, whatever its strings contain.
\<close>

theorem entry_text_roundtrip:
  assumes "entry_safe e"
  shows "\<exists>s. marshal_entry e = Inr s \<and> newline \<notin> set s \<and> carriage_return \<notin> set s \<and> unmarshal_entry s = Some e"
  using marshal_entry_ok [OF assms] entry_no_breaks by blast

text \<open>
  C15. What a client posts is what the buffer holds, from the text of the body on: a body that is
  the JSON of a list of entries, whatever follows it in the stream, is answered with 202 and the
  number of entries at or above the minimum level, and exactly these, with missing timestamps
  filled in, are added to what the buffer holds.
\<close>

theorem posted_entries_arrive:
  assumes "ServeHTTP E (decode_body msg logRequest) fs opts now h w r (a, m) = (res, a', m')" "\<not> cclosed (b_flushCh (in_buffer a))"
    and "hr_Method r = ''POST''" "read_body r = (render (request_json es) @ t, rerr)"
    and "\<forall>e \<in> set es. entry_safe e" "es \<noteq> []" "int (length es) \<le> hd_maxEntriesPerReq h"
  shows "let kept = filter (\<lambda>e. \<not> below_min_level E opts e) (map (stamp now) es)
    in res = Some [WriteHeader 202, WriteBody (''{'' @ [CHR 0x22] @ ''accepted'' @ [CHR 0x22] @ '':''
          @ show_int (int (length kept)) @ ''}'' @ [newline])]
      \<and> held (in_buffer a') = held (in_buffer a) + mset kept
      \<and> EntriesReceived m' = EntriesReceived m + int (length kept)"
  using ServeHTTP_result [OF assms(1,2)] decode_request [OF assms(5), of msg t rerr] assms(3,4,6,7) by simp

text \<open>
  C19. Which accepted entries can be stored. An entry that a body was decoded to, once it has a
  timestamp, can be written as JSON exactly if its time zone is less than 24 hours. The decoder
  accepts zones up to 25 hours; an entry with such a zone makes the flush of the batch it is in
  fail, whatever else is in the batch: nothing is uploaded and only an error is counted.
\<close>

theorem zone_poisons_batch:
  assumes "decode_body msg logRequest body rerr = Inr es" "e \<in> set es" "0 \<le> local_year 0 now" "local_year 0 now \<le> 9999"
    and "stamp now e \<in> set (fj_entries job)"
  shows "if \<bar>TZ (stamp now e)\<bar> < 24 * 60 then \<exists>s. marshal_entry (stamp now e) = Inr s
    else executeFlush (with_json zones E) opts mo uid job w = (None, w\<lparr>mx := (mx w)\<lparr>FlushErrors := FlushErrors (mx w) + 1\<rparr>\<rparr>)"
proof -
  obtain v where "logRequest v = Some es" by (rule decode_body_value [OF assms(1)])
  then have "year_ok e" using assms(2) by (rule logRequest_year)
  then have "year_ok (stamp now e)" using assms(3,4) by (simp add: stamp_def year_ok_def)
  note iff = marshal_iff [OF this]
  show ?thesis
  proof (cases "\<bar>TZ (stamp now e)\<bar> < 24 * 60")
    case False
    then obtain er where "marshal_entry (stamp now e) = Inl er" using iff by (cases "marshal_entry (stamp now e)") auto
    then have "marshalEntry (with_json zones E) (stamp now e) = Inl er" by simp
    from executeFlush_unwritable [OF assms(5) this] False show ?thesis by simp
  qed (use iff in simp)
qed

text \<open>
  C24. An export job is what its text says. If the body of \<open>POST /export\<close> is the JSON of two times in
  any zones, a service and label filters, then the answer is 202 if a slot is free: the registry
  then has, under the new identifier, a pending job with these two instants in these zones, this
  service and these filters, created now, with all its counters zero, and \<open>GET /export/{id}\<close>
  answers with that job. Otherwise the answer is 503 and the registry shows no new job.
\<close>

theorem export_request_text:
  assumes "handleCreateExport (decode_body msg exportRequest) encode uuid now r p = (evs, p')"
    and "read_body r = (render (create_json req) @ t, rerr)"
    and "req = \<lparr>cr_StartTime = FormatRFC3339 z0 t0, cr_EndTime = FormatRFC3339 z1 t1, cr_Service = svc, cr_LabelFilters = filters\<rparr>"
    and "time_safe t0" "\<bar>z0\<bar> < 24 * 60" "time_safe t1" "\<bar>z1\<bar> < 24 * 60" "utf8_ok svc" "labels_safe filters"
  shows "(client_status evs = 202 \<and> length (cbuf (pl_sem p)) < ccap (pl_sem p)
        \<and> (\<exists>a j. RegistryGet uuid (pl_registry p') = Some a \<and> pl_heap p' a = j \<and> handleGetExport encode uuid p' = Encode (encode j)
            \<and> job_ID j = uuid \<and> job_Status j = ExportStatusPending \<and> job_Service j = svc \<and> job_LabelFilters j = filters
            \<and> job_StartTime j = t0 \<and> job_StartTZ j = z0 \<and> job_EndTime j = t1 \<and> job_EndTZ j = z1
            \<and> job_ChunksTotal j = 0 \<and> job_ChunksProcessed j = 0 \<and> job_LogsExported j = 0 \<and> job_ErrorCount j = 0 \<and> job_Error j = ''''
            \<and> job_CreatedAt j = now \<and> job_CompletedAt j = zero_time))
    \<or> (client_status evs = 503 \<and> (length (cbuf (pl_sem p)) < ccap (pl_sem p) \<longrightarrow> cclosed (pl_sem p))
        \<and> RegistryGet uuid (pl_registry p') = RegistryGet uuid (pl_registry p))"
proof -
  have sel: "cr_Service req = svc" "cr_LabelFilters req = filters" using assms(3) by simp_all
  have body: "decode_body msg exportRequest (fst (read_body r)) (snd (read_body r)) = Inr req"
    using decode_create [of req msg t rerr] assms(2,3,8,9) utf8_format by simp
  have times: "ParseRFC3339 (cr_StartTime req) = Some (t0, z0)" "ParseRFC3339 (cr_EndTime req) = Some (t1, z1)"
    using assms(3-7) time_safe_year by (simp_all add: parse_format_rfc3339)
  show ?thesis by (rule create_then_get [OF assms(1) body times, unfolded sel])
qed

text \<open>
  C25. One accepted job can take away the listing. The handler of \<open>POST /export\<close> accepts a start
  time whose zone is 24 hours or more, which \<open>encoding/json\<close> cannot write again. Once such a job is
  accepted, in every later state of the pool \<open>GET /export\<close> answers with an empty body: jobs are
  never removed and the encoder writes nothing if one of them has no JSON.
\<close>

theorem listing_lost:
  assumes "reach (pool_init n) pool_step p" "uuid \<notin> fst ` set (rg_jobs (pl_registry p))"
    and "handleCreateExport decode encode uuid now r p = (evs, p1)" "client_status evs = 202"
    and "decode (fst (read_body r)) (snd (read_body r)) = Inr req"
    and "ParseRFC3339 (cr_StartTime req) = Some (t0, z0)" "24 * 60 \<le> \<bar>z0\<bar>"
    and "pool_step\<^sup>*\<^sup>* p1 p2" "set (order (rg_jobs (pl_registry p2))) = set (rg_jobs (pl_registry p2))"
  shows "handleListExports marshal_jobs order p2 = []"
proof -
  obtain a where a: "pool_step p p1" "a \<in> wk_job ` set (pl_workers p1)" "job_StartTZ (pl_heap p1 a) = z0"
    by (rule create_submits [OF assms(3-6,2)]) simp
  have r1: "reach (pool_init n) pool_step p1" by (rule reach_step [OF assms(1) a(1)])
  have a2: "a \<in> wk_job ` set (pl_workers p2)" "job_StartTZ (pl_heap p2 a) = z0"
    using pool_steps_criteria [OF assms(8) r1 a(2)] a(3) by (simp_all add: criteria_def)
  obtain wk where wk: "wk \<in> set (pl_workers p2)" "wk_job wk = a" using a2(1) by blast
  have "worker_ok p2 wk" by (rule pool_invD(7) [OF poolm.reach_inv [OF reach_star [OF assms(8) r1]] wk(1)])
  then have "map_of (rg_jobs (pl_registry p2)) (job_ID (pl_heap p2 a)) = Some a" by (simp add: worker_ok_def wk(2))
  then have "a \<in> snd ` set (rg_jobs (pl_registry p2))" by (force dest: map_of_SomeD)
  then have "a \<in> set (RegistryList order (pl_registry p2))" using assms(9) by (simp add: RegistryList_def)
  then have "pl_heap p2 a \<in> set (map (pl_heap p2) (RegistryList order (pl_registry p2)))" by simp
  from marshal_jobs_fails [OF this job_errors_zone] show ?thesis
    using a2(2) assms(7) by (simp add: handleListExports_def)
qed

section \<open>Witnesses\<close>

theorem entry_text_roundtrip_witness:
  "\<exists>s. marshal_entry wit_entry = Inr s \<and> unmarshal_entry s = Some wit_entry"
  using entry_text_roundtrip [OF wit_entry_safe] by blast

text \<open>A body with one entry in a zone of 24 hours.\<close>

definition poison_body :: string where
  "poison_body = map (\<lambda>c. if c = CHR ''_'' then dquote else c)
     ''{_entries_:[{_timestamp_:_2024-01-01T00:00:00+24:00_,_service_:_a_,_level_:_info_,_message_:_m_}]}''"

definition poison_entry :: LogEntry where
  "poison_entry = \<lparr>Timestamp = 1703980800 * second, TZ = 1440, Service = ''a'', Level = ''info'', Message = ''m'', Labels = []\<rparr>"

lemma poison_decodes: "decode_body msg logRequest poison_body None = Inr [poison_entry]"
proof -
  have "(case decode_stream poison_body True of Value v \<Rightarrow> logRequest v | _ \<Rightarrow> None) = Some [poison_entry]" by code_simp
  then show ?thesis by (simp add: decode_body_def split: decoded.splits)
qed

theorem posted_entries_arrive_witness:
  "\<exists>a' m'. ServeHTTP ref_env (decode_body (\<lambda>_. ''invalid'') logRequest) (\<lambda>_. no_fault) wit_opts 9 (NewHandler 10) \<lparr>wr_Hijacker = True\<rparr>
       ((wit_post ''/logs'')\<lparr>hr_Body := render (request_json [wit_entry])\<rparr>) (wit_ingester, metrics0) = (Some [WriteHeader 202,
         WriteBody (''{'' @ [CHR 0x22] @ ''accepted'' @ [CHR 0x22] @ '':1}'' @ [newline])], a', m')
     \<and> held (in_buffer a') = {#wit_entry#}"
proof -
  let ?r = "(wit_post ''/logs'')\<lparr>hr_Body := render (request_json [wit_entry])\<rparr>"
  obtain res a' m' where run: "ServeHTTP ref_env (decode_body (\<lambda>_. ''invalid'') logRequest) (\<lambda>_. no_fault) wit_opts 9 (NewHandler 10)
      \<lparr>wr_Hijacker = True\<rparr> ?r (wit_ingester, metrics0) = (res, a', m')" by (metis prod_cases3)
  have opened: "\<not> cclosed (b_flushCh (in_buffer wit_ingester))" by (simp add: wit_ingester_def wit_buffer_def)
  have st: "stamp 9 wit_entry = wit_entry" by (simp add: stamp_def wit_entry_def IsZero_def zero_time_def second_def)
  have one: "show_int 1 = ''1''" by code_simp
  have held0: "held (in_buffer wit_ingester) = {#}" by (simp add: wit_ingester_def wit_buffer_def held_def pending_def)
  have r: "hr_Method ?r = ''POST''" "read_body ?r = (render (request_json [wit_entry]) @ [], None)"
    by (simp_all add: wit_post_def read_body_def)
  show ?thesis
    using posted_entries_arrive [OF run opened r] run
    by (simp add: NewHandler_def st wit_below one held0 wit_entry_safe Let_def)
qed

definition wit_poisoned :: flushJob where
  "wit_poisoned = \<lparr>fj_entries = [wit_entry, poison_entry], fj_service = ''a'', fj_minTime = 5, fj_maxTime = Timestamp poison_entry\<rparr>"

theorem zone_poisons_batch_witness:
  "decode_body (\<lambda>_. ''invalid'') logRequest poison_body None = Inr [poison_entry]
     \<and> executeFlush (with_json (\<lambda>_. (0, 0)) ref_env) wit_opts in_order ''u'' wit_poisoned wit_world
        = (None, wit_world\<lparr>mx := (mx wit_world)\<lparr>FlushErrors := FlushErrors (mx wit_world) + 1\<rparr>\<rparr>)"
proof -
  have now: "0 \<le> local_year 0 9" "local_year 0 9 \<le> 9999" by code_simp+
  have st: "stamp 9 poison_entry = poison_entry" by (simp add: stamp_def poison_entry_def IsZero_def zero_time_def second_def)
  have "poison_entry \<in> set [poison_entry]" "stamp 9 poison_entry \<in> set (fj_entries wit_poisoned)" by (simp_all add: st wit_poisoned_def)
  from zone_poisons_batch [OF poison_decodes this(1) now this(2), of "\<lambda>_. (0, 0)" ref_env wit_opts in_order "''u''" wit_world]
  show ?thesis using poison_decodes by (simp add: st) (simp add: poison_entry_def)
qed

definition wit_export_request :: create_request where
  "wit_export_request = \<lparr>cr_StartTime = FormatRFC3339 60 0, cr_EndTime = FormatRFC3339 0 second, cr_Service = ''a'', cr_LabelFilters = [(''k'', ''v'')]\<rparr>"

theorem export_request_text_witness:
  "\<exists>evs p' a. handleCreateExport (decode_body (\<lambda>_. ''invalid'') exportRequest) (\<lambda>j. Inr (job_ID j)) ''u'' 9
       (wit_get\<lparr>hr_Method := ''POST'', hr_Body := render (create_json wit_export_request)\<rparr>) (NewPool 1 (\<lambda>_. Exporter.wit_job) metrics0) = (evs, p')
     \<and> client_status evs = 202 \<and> RegistryGet ''u'' (pl_registry p') = Some a
     \<and> job_StartTime (pl_heap p' a) = 0 \<and> job_StartTZ (pl_heap p' a) = 60 \<and> job_EndTime (pl_heap p' a) = second
     \<and> job_LabelFilters (pl_heap p' a) = [(''k'', ''v'')]"
proof -
  let ?r = "wit_get\<lparr>hr_Method := ''POST'', hr_Body := render (create_json wit_export_request)\<rparr>"
  let ?p = "NewPool 1 (\<lambda>_. Exporter.wit_job) metrics0"
  obtain evs p' where run: "handleCreateExport (decode_body (\<lambda>_. ''invalid'') exportRequest) (\<lambda>j. Inr (job_ID j)) ''u'' 9 ?r ?p = (evs, p')"
    by fastforce
  have body: "read_body ?r = (render (create_json wit_export_request) @ [], None)" by (simp add: read_body_def wit_get_def)
  have safe: "time_safe 0" "time_safe second" "utf8_ok ''a''" "labels_safe [(''k'', ''v'')]"
    by (simp_all add: time_safe_def zero_time_def second_def labels_safe_def utf8_ok_ascii byte_val_def)
  have free: "length (cbuf (pl_sem ?p)) < ccap (pl_sem ?p)" "\<not> cclosed (pl_sem ?p)" by (simp_all add: NewPool_def make_chan_def)
  from export_request_text [OF run body wit_export_request_def safe(1) _ safe(2) _ safe(3,4)] run free show ?thesis by auto
qed

definition wit_far_request :: create_request where
  "wit_far_request = \<lparr>cr_StartTime = ''2024-01-01T00:00:00+24:00'', cr_EndTime = ''2024-01-02T00:00:00Z'', cr_Service = ''a'', cr_LabelFilters = []\<rparr>"

theorem listing_lost_witness:
  "\<exists>evs p1. handleCreateExport (\<lambda>_ _. Inr wit_far_request) marshal_job ''u'' 9 wit_get (NewPool 1 (\<lambda>_. Exporter.wit_job) metrics0) = (evs, p1)
     \<and> client_status evs = 202 \<and> handleListExports marshal_jobs (\<lambda>l. l) p1 = []"
proof -
  let ?p = "NewPool 1 (\<lambda>_. Exporter.wit_job) metrics0"
  obtain evs p1 where run: "handleCreateExport (\<lambda>_ _. Inr wit_far_request) marshal_job ''u'' 9 wit_get ?p = (evs, p1)"
    by fastforce
  have t: "ParseRFC3339 (cr_StartTime wit_far_request) = Some (1703980800 * second, 1440)"
    "ParseRFC3339 (cr_EndTime wit_far_request) = Some (1704153600 * second, 0)" by code_simp+
  have ok: "client_status evs = 202"
    using run t by (auto simp: handleCreateExport_def alloc_def NewPool_def Submit_def make_chan_def try_send_def NewRegistry_def Let_def)
  have init: "reach (pool_init 1) pool_step ?p" by (rule reach_init) (auto simp: pool_init_def)
  have fresh: "''u'' \<notin> fst ` set (rg_jobs (pl_registry ?p))" by (simp add: NewPool_def NewRegistry_def)
  from listing_lost [OF init fresh run ok refl t(1) _ rtranclp.rtrancl_refl, of "\<lambda>l. l"] run ok show ?thesis by auto
qed

end
