(* ===== verification/Spec2Isabelle.thy ===== *)
theory Spec2Isabelle
  imports EndToEnd JsonApi
begin

text \<open>
  Sigyn is a log pipeline of two processes. The ingester accepts log entries over HTTP, batches
  them, writes the batches as compressed chunks to an S3 bucket together with one index record
  per chunk, keeps a write-ahead log of what is not yet stored, and offers a live tail. The
  exporter answers queries from the index and the chunks, and runs jobs that copy matching
  entries into OpenSearch. This development models both in HOL, component by component, and
  proves what makes them correct; where the code fails to do what it means to, a theorem
  exhibits it.

  \<^bold>\<open>How the code is modelled.\<close> A struct is a record, an operation a function on it that returns
  the new state, an error a value of a sum or option type, a panic the value \<open>None\<close>. Loops are
  structural recursions or functions with a termination proof; nothing runs on fuel, except that
  the retries are bounded by \<open>MaxAttempts\<close> as in the code, and \<open>strip_front\<close> in \<open>GoStrings\<close>
  runs at most once per character. Integers are unbounded where the code cannot overflow and
  words of 64 bits where it can (the limit of a query, the time window). Times are nanoseconds
  since 1970. A string is a list of bytes. Go's maps of labels are sorted association lists;
  where the order of iteration matters it is an argument. Concurrency is a step relation over
  the whole state, whose steps are the critical sections of the code.

  What lies outside the process is a parameter: the S3 SDK (record \<open>s3api\<close>, contract \<open>object_store\<close>,
  and \<open>reliable_store\<close> if no call fails), the OpenSearch client (\<open>osapi\<close>, \<open>bulk_service\<close>), contexts
  and timers (\<open>ctx\<close>), gzip, snappy and case folding (\<open>env\<close>, contract \<open>compressors\<close>), UUIDs, the AWS
  SDK (\<open>aws_sdk\<close>), the WebSocket upgrader, the rate limiter, random jitter, file faults (\<open>io_fault\<close>).
  JSON is a field of \<open>env\<close> too, with the contract \<open>codec\<close>; \<open>JsonCodec\<close> defines \<open>encoding/json\<close> for
  sigyn's types and proves the contract of it. Each contract is a locale; each is interpreted on an
  executable instance (\<open>RefEnv\<close>, \<open>mem_api\<close>, \<open>memdocs_api\<close>, \<open>memdocs_os\<close>, \<open>background\<close>), on which
  the witnesses run the code.

  \<^bold>\<open>Foundations.\<close>
  \<^item> \<open>Prelude\<close>: label maps, buffered channels (locale \<open>bounded_fifo\<close>, interpreted on \<open>chan\<close>),
    reachable states (locale \<open>machine\<close>).
  \<^item> \<open>GoStrings\<close>, \<open>GoTime\<close>: the parts of \<open>strings\<close>, \<open>path\<close>, \<open>strconv\<close> and \<open>time\<close> that the code uses; the
    calendar with the proof that a date determines its day (locale \<open>day_dirs\<close>).
  \<^item> \<open>GoRfc3339\<close>: \<open>time.Parse\<close> and \<open>Format\<close> for the layout RFC 3339, byte by byte, with zones and
    fractions; what is formatted parses to the same instant in the same zone.
  \<^item> \<open>GoUtf8\<close>, \<open>GoJson\<close>, \<open>JsonText\<close>: UTF-8; quoting and unquoting, the scanner of \<open>encoding/json\<close> as a
    machine over bytes, and that it reads back what the encoder writes, alone or in a stream.
  \<^item> \<open>Domain\<close>: \<open>internal/domain\<close>, \<open>internal/metrics\<close>, the index record.
  \<^item> \<open>ChunkCodec\<close>: newline-delimited JSON, \<open>bufio.Scanner\<close> with its limit of 1 MiB, \<open>compressEntries\<close>
    and \<open>decompress\<close>; a chunk reads back as its entries.
  \<^item> \<open>JsonCodec\<close>: the struct tags of \<open>LogEntry\<close>, \<open>ChunkIndex\<close> and of the request bodies, decoded the way
    reflection does it; round trips, and the contract \<open>codec\<close>.

  \<^bold>\<open>Components.\<close>
  \<^item> \<open>Retry\<close> (\<open>internal/retry\<close>): \<open>Do\<close> with its backoff. Number of attempts, when the result is nil.
  \<^item> \<open>Storage\<close> (\<open>internal/storage/s3.go\<close>): the client's operations on objects.
  \<^item> \<open>Wal\<close> (\<open>ingester/wal.go\<close>): the write-ahead log. Round trip, torn writes, oversized lines, sticky errors.
  \<^item> \<open>Broker\<close> (\<open>ingester/broker.go\<close>): live-tail fan-out. Order and completeness of delivery.
  \<^item> \<open>KeyLayout\<close> (\<open>chunkKey\<close>, \<open>indexKey\<close>, \<open>dayPrefixes\<close>, \<open>timePrefixes\<close>): which listings find which object.
  \<^item> \<open>Index\<close> (\<open>internal/index\<close>): \<open>Write\<close>, \<open>Query\<close>, \<open>MatchLabels\<close>. A query returns exactly the matching records.
  \<^item> \<open>Flusher\<close> (\<open>ingester/s3_flusher.go\<close>): a nil error means stored; it meets the locale \<open>flusher\<close>.
  \<^item> \<open>Buffer\<close> (\<open>ingester/buffer.go\<close>): the operations on a batch, its invariant, its size bound, label sets.
  \<^item> \<open>BufferSystem\<close>: the goroutines of the buffer (callers of \<open>Add\<close>, the ticker, the flush loop, overflow
    flushes, \<open>Stop\<close>) as the step relation \<open>sys_step\<close>. No entry vanishes, a crash loses nothing that was
    logged, chunks reported as flushed are stored, \<open>Stop\<close> drains, and what \<open>Stop\<close> forgets.
  \<^item> \<open>QueryEngine\<close>, \<open>Parser\<close> (\<open>internal/query\<close>): queries are sound whatever fails and exact if nothing does;
    selectors round-trip.
  \<^item> \<open>Exporter\<close> (\<open>exporter/exporter.go\<close>, \<open>opensearch.go\<close>): the run of a job, sound whatever fails, exact if
    nothing does.
  \<^item> \<open>Jobs\<close> (\<open>exporter/pool.go\<close>, \<open>registry.go\<close>): the pool as the step relation \<open>pool_step\<close> over a heap of
    shared jobs, interleaving the protocol \<open>run_step\<close> of each run, which \<open>Exporter.Run\<close> refines.
    Concurrency limit, status of jobs, races of cancellation.
  \<^item> \<open>Config\<close>, \<open>Middleware\<close> (\<open>internal/config\<close>, \<open>internal/middleware\<close>): defaults, validation, wrappers.
  \<^item> \<open>Wiring\<close>, \<open>IngestApi\<close>, \<open>ExportApi\<close> (\<open>ingester/handler.go\<close>, \<open>cmd/ingester/main.go\<close>, \<open>cmd/exporter/main.go\<close>):
    what the processes build from the configuration, their endpoints and wrappers. What \<open>POST /logs\<close>,
    \<open>GET /query\<close> and the job endpoints do, authentication, how far tenants are apart, the live tail.
  \<^item> \<open>Startup\<close> (both \<open>main\<close> functions up to the listeners, \<open>NewS3Client\<close>, \<open>NewOSClient\<close>, \<open>internal/logger\<close>):
    when a process exits or panics instead of serving, and what it consists of when it serves.
  \<^item> \<open>Process\<close> (both \<open>main\<close> functions from the listeners on): signal, stop, shutdown and exit as the step
    relation \<open>life_step\<close> over the buffer system and over the export pool. Whenever the ingester has ended,
    accepted entries are accounted for or come back from the log; what a clean shutdown can lose.
  \<^item> \<open>JsonApi\<close>: \<open>POST /logs\<close> and the job endpoints down to the text of their bodies. Entries arrive as
    they were written; which accepted entries and jobs cannot be written again, and what that breaks.
  \<^item> \<open>EndToEnd\<close> and this theory: from a flushed batch to the answer of a query and to the documents of an
    export.

  \<^bold>\<open>What is not modelled.\<close> Log output (of the logger only its level is kept); the static web pages;
  the inside of the HTTP server (a request arrives, is handled and leaves) and of the metrics
  endpoint, of which only the address is kept; durations in metrics (a histogram keeps its number of
  observations); response headers; data races in the memory model.

  \<^bold>\<open>How fine the steps are.\<close> The steps of the buffer system are the sections under its mutex and whole
  flushes; a request to the ingester is handled entry by entry. Four steps join writes that no
  mutex joins, so states between them are not states of the model: (1) in \<open>run_step\<close>, consecutive
  writes of one run to its job with no call between them, which are the final ones of
  \<open>run_complete\<close> (\<open>LogsExported\<close>, \<open>CompletedAt\<close>, \<open>Status\<close>, \<open>Error\<close>), status and message of the error
  steps, and the two counters of \<open>run_fetch_error\<close>; handlers read and \<open>Cancel\<close> writes these fields
  without the run's knowledge; (2) \<open>RegistryCancel\<close>, which holds the registry's mutex but not the
  run's fields: the cancellation of the context and its two writes; (3) \<open>Stop_finish\<close>: \<open>Reset\<close> and
  \<open>Close\<close> of the log, each under the log's own mutex; (4) \<open>finish_worker\<close>: the counter and the two
  deferred calls at the end of a goroutine of the pool. What the theorems say of \<^emph>\<open>every\<close> reachable
  state is said of the states before and after such a step; in particular that a job shows the
  status of its run (\<open>jobs_tracked\<close>) does not cover a mixture of a run's and a cancellation's writes.

  \<^bold>\<open>Still to do.\<close> Fairness, to turn the progress of \<open>Stop\<close> into termination under a fair scheduler; the
  text of the configuration file and of the bulk requests as JSON values.
\<close>

section \<open>Properties across the components\<close>


text \<open>
  C5. What was logged can be exported. If both services work, an export job for the service of
  a flushed batch that does not start on a later day than the batch indexes every entry of the
  batch that it selects, in the index of the entry's day, and completes.
\<close>

theorem flush_then_export:
  assumes "reliable_export api obj os docs C E" "codec E"
    and "shippable E uid job" "order_ok mo" "bo_Compression opts \<in> {''gzip'', ''snappy''}"
      "bo_Flusher opts = Flush E api C rnd (NewS3Flusher c (Some st))"
    and "executeFlush E opts mo uid job w = (r, w1)"
    and "\<And>key. key \<in> dom (objects obj c w1) \<Longrightarrow>
        listed key (map ((@) (s3_prefix c)) (timePrefixes (job_Service xj) (job_StartTime xj) (job_EndTime xj))) \<Longrightarrow>
        \<exists>data. objects obj c w1 key = Some data \<and> chunk_entries E key data = Some (all key)
          \<and> (\<forall>x \<in> set (all key). matchesJob E x xj \<longrightarrow> (\<exists>d. marshalEntry E x = Inr d))"
    and "x \<in> set (fj_entries job)" "matchesJob E x xj" "job_Service xj = fj_service job" "fj_service job \<noteq> ''''"
      "day_number (job_StartTime xj) \<le> day_number (fj_minTime job)"
  shows "\<exists>job' w2. RunExport E api os C rnd' now (NewExporter c osc n) xj w1 = (None, job', w2)
    \<and> (IndexNameForDate osc (Timestamp x), jline E x) \<in> set (docs (ext w2)) \<and> job_Status job' = ExportStatusCompleted"
  by (rule shipped_exported [OF assms])

section \<open>Witnesses\<close>

text \<open>A batch of one entry that is flushed into an empty bucket.\<close>

definition wit_batch :: flushJob where
  "wit_batch = \<lparr>fj_entries = [wit_log_entry], fj_service = ''a'', fj_minTime = 5, fj_maxTime = 5\<rparr>"

definition ship_opts :: "'s s3api \<Rightarrow> 's BufferOpts" where
  "ship_opts api =
     \<lparr>bo_MaxBytes = 100, bo_MaxAge = 30 * second,
      bo_Flusher = Flush ref_env api background (\<lambda>_. 0) (NewS3Flusher wit_client (Some wit_store)),
      bo_Compression = ''gzip'', bo_MinLevel = ''''\<rparr>"

lemma wit_shippable: "shippable ref_env ''u'' wit_batch" "order_ok in_order"
proof -
  have line: "jline ref_env wit_log_entry = ''53 ,48 ,97 ,105 110 102 111 ,109 ,107 ,118 ''" by code_simp
  have small: "length (ndjson ref_env [wit_log_entry]) < 2 ^ 31" by (simp add: ndjson_def line)
  have job: "job_ok wit_batch"
    by (simp add: job_ok_def wit_batch_def wit_log_entry_def tmin_def tmax_def)
  have plain: "plain_labels (Labels wit_log_entry)" by (simp add: plain_labels_def wit_log_entry_def)
  show "shippable ref_env ''u'' wit_batch"
    using job small plain wit_log_entry_fits by (simp add: shippable_def wit_batch_def)
  show "order_ok in_order" by (simp add: order_ok_def in_order_def)
qed

lemma ship_opts_sel:
  "bo_Compression (ship_opts api) \<in> {''gzip'', ''snappy''}" "bo_Compression (ship_opts api) = ''gzip''"
  "bo_Flusher (ship_opts api) = Flush ref_env api background (\<lambda>_. 0) (NewS3Flusher wit_client (Some wit_store))"
  by (simp_all add: ship_opts_def)

lemma wit_batch_keys:
  "chunkKey (fj_service wit_batch) (fj_minTime wit_batch) ''u'' ''gzip'' = ''a/1970/01/01/0-u.gz''"
  "indexKey (st_prefix wit_store) ''a/1970/01/01/0-u.gz'' = ''index/1970/01/01/a-0-u.json''"
  "fj_entries wit_batch = [wit_log_entry]"
proof -
  show "fj_entries wit_batch = [wit_log_entry]" by (simp add: wit_batch_def)
  show "chunkKey (fj_service wit_batch) (fj_minTime wit_batch) ''u'' ''gzip'' = ''a/1970/01/01/0-u.gz''" by code_simp
  show "indexKey (st_prefix wit_store) ''a/1970/01/01/0-u.gz'' = ''index/1970/01/01/a-0-u.json''"
    using wit_keys(2) by simp
qed


definition wit_docs_world :: "memdocs world" where
  "wit_docs_world = \<lparr>ext = ([], []), mx = metrics0\<rparr>"

theorem flush_then_export_witness:
  "\<exists>r w1 job' w2. executeFlush ref_env (ship_opts memdocs_api) in_order ''u'' wit_batch wit_docs_world = (r, w1)
     \<and> RunExport ref_env memdocs_api memdocs_os background (\<lambda>_. 0) 9 (NewExporter wit_client wit_osclient 100) wit_job w1 = (None, job', w2)
     \<and> (IndexNameForDate wit_osclient 5, jline ref_env wit_log_entry) \<in> set (snd (ext w2))"
proof -
  let ?obj = "\<lambda>s :: memdocs. mem_obj (fst s)"
  have rel: "reliable_export memdocs_api ?obj memdocs_os snd background ref_env" by (rule memdocs.reliable_export_axioms)
  have rs: "reliable_store memdocs_api ?obj" by (rule memdocs.reliable_store_axioms)
  obtain z data w1 where fl: "executeFlush ref_env (ship_opts memdocs_api) in_order ''u'' wit_batch wit_docs_world
      = (Some (job_chunk (ship_opts memdocs_api) in_order ''u'' wit_batch z), w1)"
    "\<forall>p. chunk_entries ref_env (p @ ''a/1970/01/01/0-u.gz'') z = Some [wit_log_entry]"
    "objects ?obj wit_client w1 (s3_prefix wit_client @ ''a/1970/01/01/0-u.gz'') = Some z"
    by (rule executeFlush_ships [OF rs ref_codec background_ok [of wit_docs_world] wit_shippable ship_opts_sel(1,3),
          unfolded ship_opts_sel(2) wit_batch_keys(1,3)])
  have new: "k = ''raw_logs/a/1970/01/01/0-u.gz'' \<or> k = ''index/1970/01/01/a-0-u.json''" if "?obj (ext w1) b k = Some x" for b k x
    using executeFlush_adds [OF rs background_ok ship_opts_sel(3) fl(1) that]
    by (simp add: ship_opts_sel(2) wit_batch_keys(1) wit_keys(2) wit_docs_world_def mem_obj_def)
  have pre: "timePrefixes (job_Service wit_job) (job_StartTime wit_job) (job_EndTime wit_job) = [''a/1970/01/01/'']"
    by (simp add: wit_job_def wit_prefixes)
  have ready: "\<exists>data. objects ?obj wit_client w1 key = Some data \<and> chunk_entries ref_env key data = Some [wit_log_entry]
      \<and> (\<forall>x \<in> set [wit_log_entry]. matchesJob ref_env x wit_job \<longrightarrow> (\<exists>d. marshalEntry ref_env x = Inr d))"
    if k: "key \<in> dom (objects ?obj wit_client w1)" "listed key (map ((@) (s3_prefix wit_client))
        (timePrefixes (job_Service wit_job) (job_StartTime wit_job) (job_EndTime wit_job)))" for key
  proof -
    have "HasPrefix key ''raw_logs/a/1970/01/01/''" using k(2) unfolding pre by (simp add: listed_def)
    then have "key = ''raw_logs/a/1970/01/01/0-u.gz''" using k(1) new by (fastforce simp: objects_def HasPrefix_def)
    then show ?thesis using fl(3) fl(2) [THEN spec, of "''raw_logs/''"] by (simp add: ref_env_def)
  qed
  have "\<exists>job' w2. RunExport ref_env memdocs_api memdocs_os background (\<lambda>_. 0) 9 (NewExporter wit_client wit_osclient 100) wit_job w1
        = (None, job', w2)
    \<and> (IndexNameForDate wit_osclient (Timestamp wit_log_entry), jline ref_env wit_log_entry) \<in> set (snd (ext w2))
    \<and> job_Status job' = ExportStatusCompleted"
    by (rule flush_then_export [OF rel ref_codec wit_shippable ship_opts_sel(1,3) fl(1) ready _ wit_matches])
      (simp_all add: wit_batch_def wit_job_def day_mono)
  then show ?thesis using fl(1) by (auto simp: wit_log_entry_def)
qed

end
